(* ===== verification/Prelude.thy ===== *)
theory Prelude
  imports Main "HOL-Library.Word"
begin

text \<open>
  Shared vocabulary of the development.  It fixes the machine types of the C++ sources (bytes,
  64-bit and 256-bit unsigned integers), the exceptions the sources throw, and the effect type
  \<open>act\<close> of every stateful operation: a function from a state to a result and a new
  state, where the result is either a thrown exception or a value.  The state reached when an
  exception is thrown is kept, because C++ does not undo assignments when it unwinds.

  The second half holds what the component theories share: a weakest-precondition calculus for
  \<open>act\<close> with the collection \<open>wp_rules\<close>, the predicate \<open>keeps\<close> for state
  invariants with the collection \<open>keeps_rules\<close>, big-endian byte strings, and the
  vector operations \<open>resize\<close> and \<open>write_at\<close>.
\<close>

section \<open>Machine types\<close>

type_synonym byte = "8 word"
type_synonym u16 = "16 word"
type_synonym u64 = "64 word"
type_synonym u256 = "256 word"
type_synonym bytes = "byte list"

section \<open>Collections\<close>

named_theorems wp_rules \<open>weakest preconditions of the primitive actions\<close>
named_theorems keeps_rules \<open>actions that preserve an invariant\<close>
named_theorems act_simps \<open>evaluation of actions\<close>
named_theorems be_simps \<open>big-endian byte strings\<close>

section \<open>Exceptions\<close>

text \<open>
  \<open>Exception\<close> is \<open>eevm::Exception\<close> with its \<open>Type\<close>; it is the only
  exception the interpreter loop catches.  \<open>StdException\<close> stands for the exceptions of the
  C++ standard library that the sources throw themselves.  \<open>UndefinedBehaviour\<close> is the
  value of a step that C++ gives no meaning to, for example a read past the end of a vector, and
  \<open>AssertionFailure\<close> the abort of a failed \<open>assert\<close>.  \<open>CloakException\<close> is the
  class of that name of the enclave code, with its subclasses, and \<open>JsonException\<close> the
  \<open>type_error\<close> of the JSON library.  \<open>HttpError\<close> is the error reply that some
  handlers of requests throw.
\<close>

datatype ex_type =
    OutOfBounds | OutOfGas | OutOfFunds | Overflow | IllegalInstruction | NotImplemented
  | Revert | StaticModeViolation

datatype std_type = LogicError | RuntimeError | OverflowError | OutOfRange | InvalidArgument | BadOptionalAccess

datatype exn =
    Exception ex_type string
  | UnexpectedState string
  | StdException std_type string
  | AssertionFailure string
  | UndefinedBehaviour string
  | CloakException string
  | JsonException string
  | HttpError string

fun undefined_behaviour :: "exn + 'a \<Rightarrow> bool" where
  "undefined_behaviour (Inl (UndefinedBehaviour _)) = True"
| "undefined_behaviour _ = False"

section \<open>Results\<close>

text \<open>Sequencing of computations that may throw but have no state.\<close>

definition tries :: "exn + 'a \<Rightarrow> ('a \<Rightarrow> exn + 'b) \<Rightarrow> exn + 'b" where
  "tries r k = (case r of Inl e \<Rightarrow> Inl e | Inr x \<Rightarrow> k x)"

primrec map_tries :: "('a \<Rightarrow> exn + 'b) \<Rightarrow> 'a list \<Rightarrow> exn + 'b list" where
  "map_tries f [] = Inr []"
| "map_tries f (x # xs) = tries (f x) (\<lambda>y. tries (map_tries f xs) (\<lambda>ys. Inr (y # ys)))"

lemma tries_simps [simp]: "tries (Inl e) k = Inl e" "tries (Inr x) k = k x"
  by (simp_all add: tries_def)

lemma tries_cong [fundef_cong]:
  "r = r' \<Longrightarrow> (\<And>x. r' = Inr x \<Longrightarrow> k x = k' x) \<Longrightarrow> tries r k = tries r' k'"
  by (cases r') simp_all

lemma tries_Inr: "tries r k = Inr y \<longleftrightarrow> (\<exists>x. r = Inr x \<and> k x = Inr y)"
  by (cases r) simp_all

lemma map_tries_Inr: "map_tries f xs = Inr ys \<longleftrightarrow> list_all2 (\<lambda>x y. f x = Inr y) xs ys"
  by (induction xs arbitrary: ys) (auto simp: tries_Inr list_all2_Cons1)

lemma map_tries_cong [fundef_cong]:
  "xs = ys \<Longrightarrow> (\<And>x. x \<in> set ys \<Longrightarrow> f x = g x) \<Longrightarrow> map_tries f xs = map_tries g ys"
  by (induction ys arbitrary: xs) (auto intro!: tries_cong)

section \<open>Actions\<close>

type_synonym ('s, 'a) act = "'s \<Rightarrow> (exn + 'a) \<times> 's"

definition ret :: "'a \<Rightarrow> ('s, 'a) act" where
  "ret x = (\<lambda>s. (Inr x, s))"

definition raise :: "exn \<Rightarrow> ('s, 'a) act" where
  "raise e = (\<lambda>s. (Inl e, s))"

definition bind :: "('s, 'a) act \<Rightarrow> ('a \<Rightarrow> ('s, 'b) act) \<Rightarrow> ('s, 'b) act" where
  "bind m k = (\<lambda>s. case m s of (Inl e, s') \<Rightarrow> (Inl e, s') | (Inr x, s') \<Rightarrow> k x s')"

definition andthen :: "('s, 'a) act \<Rightarrow> ('s, 'b) act \<Rightarrow> ('s, 'b) act" where
  "andthen m k = bind m (\<lambda>_. k)"

definition reads :: "('s \<Rightarrow> 'a) \<Rightarrow> ('s, 'a) act" where
  "reads f = (\<lambda>s. (Inr (f s), s))"

definition upd :: "('s \<Rightarrow> 's) \<Rightarrow> ('s, unit) act" where
  "upd f = (\<lambda>s. (Inr (), f s))"

definition guard :: "bool \<Rightarrow> exn \<Rightarrow> ('s, unit) act" where
  "guard b e = (if b then ret () else raise e)"

text \<open>\<open>lifts\<close> is a computation without state as an action.\<close>

definition lifts :: "exn + 'a \<Rightarrow> ('s, 'a) act" where
  "lifts r = (\<lambda>s. (r, s))"

text \<open>\<open>zoom\<close> runs an action on a component of the state.\<close>

definition zoom :: "('s \<Rightarrow> 't) \<Rightarrow> ('t \<Rightarrow> 's \<Rightarrow> 's) \<Rightarrow> ('t, 'a) act \<Rightarrow> ('s, 'a) act" where
  "zoom get_part put_part m = (\<lambda>s. case m (get_part s) of (r, t) \<Rightarrow> (r, put_part t s))"

primrec for_each :: "'x list \<Rightarrow> ('x \<Rightarrow> ('s, unit) act) \<Rightarrow> ('s, unit) act" where
  "for_each [] f = ret ()"
| "for_each (x # xs) f = andthen (f x) (for_each xs f)"

text \<open>\<open>repeat_collect n m\<close> runs \<open>m\<close> \<open>n\<close> times and returns the results in order.\<close>

primrec repeat_collect :: "nat \<Rightarrow> ('s, 'a) act \<Rightarrow> ('s, 'a list) act" where
  "repeat_collect 0 m = ret []"
| "repeat_collect (Suc n) m = bind m (\<lambda>x. bind (repeat_collect n m) (\<lambda>xs. ret (x # xs)))"

lemma ret_run [act_simps, simp]: "ret x s = (Inr x, s)"
  by (simp add: ret_def)

lemma raise_run [act_simps, simp]: "raise e s = (Inl e, s)"
  by (simp add: raise_def)

lemma reads_run [act_simps, simp]: "reads f s = (Inr (f s), s)"
  by (simp add: reads_def)

lemma upd_run [act_simps, simp]: "upd f s = (Inr (), f s)"
  by (simp add: upd_def)

lemma bind_run [act_simps]:
  "bind m k s = (case m s of (Inl e, s') \<Rightarrow> (Inl e, s') | (Inr x, s') \<Rightarrow> k x s')"
  by (simp add: bind_def)

lemma andthen_run [act_simps]:
  "andthen m k s = (case m s of (Inl e, s') \<Rightarrow> (Inl e, s') | (Inr x, s') \<Rightarrow> k s')"
  by (simp add: andthen_def bind_run)

lemma guard_run [act_simps, simp]:
  "guard b e s = (if b then (Inr (), s) else (Inl e, s))"
  by (simp add: guard_def)

lemma lifts_run [act_simps, simp]: "lifts r s = (r, s)"
  by (simp add: lifts_def)

lemma zoom_run [act_simps]:
  "zoom g p m s = (case m (g s) of (r, t) \<Rightarrow> (r, p t s))"
  by (simp add: zoom_def)

lemma bind_ret_left [simp]: "bind (ret x) k = k x"
  by (simp add: bind_def fun_eq_iff)

lemma bind_raise [simp]: "bind (raise e) k = raise e"
  by (simp add: bind_def fun_eq_iff)

lemma bind_assoc: "bind (bind m k) h = bind m (\<lambda>x. bind (k x) h)"
  by (simp add: bind_def fun_eq_iff split: prod.splits sum.splits)

section \<open>Weakest preconditions\<close>

definition wp ::
  "('s, 'a) act \<Rightarrow> ('a \<Rightarrow> 's \<Rightarrow> bool) \<Rightarrow> (exn \<Rightarrow> 's \<Rightarrow> bool) \<Rightarrow> 's \<Rightarrow> bool" where
  "wp m Q X s \<longleftrightarrow> (case m s of (Inr x, s') \<Rightarrow> Q x s' | (Inl e, s') \<Rightarrow> X e s')"

lemma wp_ret [wp_rules, simp]: "wp (ret x) Q X s = Q x s"
  by (simp add: wp_def)

lemma wp_raise [wp_rules, simp]: "wp (raise e) Q X s = X e s"
  by (simp add: wp_def)

lemma wp_reads [wp_rules, simp]: "wp (reads f) Q X s = Q (f s) s"
  by (simp add: wp_def)

lemma wp_upd [wp_rules, simp]: "wp (upd f) Q X s = Q () (f s)"
  by (simp add: wp_def)

lemma wp_bind [wp_rules, simp]: "wp (bind m k) Q X s = wp m (\<lambda>x. wp (k x) Q X) X s"
  by (simp add: wp_def bind_run split: prod.splits sum.splits)

lemma wp_andthen [wp_rules, simp]: "wp (andthen m k) Q X s = wp m (\<lambda>_. wp k Q X) X s"
  by (simp add: andthen_def)

lemma wp_guard [wp_rules, simp]:
  "wp (guard b e) Q X s = (if b then Q () s else X e s)"
  by (simp add: wp_def)

lemma wp_if [wp_rules]:
  "wp (if b then m else n) Q X s = (if b then wp m Q X s else wp n Q X s)"
  by simp

lemma wp_zoom [wp_rules]:
  "wp (zoom g p m) Q X s = wp m (\<lambda>x t. Q x (p t s)) (\<lambda>e t. X e (p t s)) (g s)"
  by (simp add: wp_def zoom_run split: prod.splits sum.splits)

lemma wp_mono:
  assumes "wp m Q X s"
    and "\<And>x s'. Q x s' \<Longrightarrow> Q' x s'" and "\<And>e s'. X e s' \<Longrightarrow> X' e s'"
  shows "wp m Q' X' s"
  using assms by (auto simp: wp_def split: prod.splits sum.splits)

section \<open>Invariants\<close>

definition keeps :: "('s \<Rightarrow> bool) \<Rightarrow> ('s, 'a) act \<Rightarrow> bool" where
  "keeps P m \<longleftrightarrow> (\<forall>s. P s \<longrightarrow> P (snd (m s)))"

lemma keepsI: "(\<And>s. P s \<Longrightarrow> P (snd (m s))) \<Longrightarrow> keeps P m"
  by (simp add: keeps_def)

lemma keepsD: "keeps P m \<Longrightarrow> P s \<Longrightarrow> P (snd (m s))"
  by (simp add: keeps_def)

lemma keeps_ret [keeps_rules]: "keeps P (ret x)"
  by (simp add: keeps_def)

lemma keeps_raise [keeps_rules]: "keeps P (raise e)"
  by (simp add: keeps_def)

lemma keeps_reads [keeps_rules]: "keeps P (reads f)"
  by (simp add: keeps_def)

lemma keeps_guard [keeps_rules]: "keeps P (guard b e)"
  by (simp add: keeps_def)

lemma keeps_bind [keeps_rules]:
  assumes "keeps P m" and "\<And>x. keeps P (k x)"
  shows "keeps P (bind m k)"
proof (rule keepsI)
  fix s assume "P s"
  then have "P (snd (m s))" by (rule keepsD [OF assms(1)])
  then show "P (snd (bind m k s))"
    using assms(2) by (auto simp: bind_run keeps_def split: prod.splits sum.splits)
qed

lemma keeps_andthen [keeps_rules]:
  "keeps P m \<Longrightarrow> keeps P k \<Longrightarrow> keeps P (andthen m k)"
  by (simp add: andthen_def keeps_bind)

lemma keeps_if [keeps_rules]:
  "(b \<Longrightarrow> keeps P m) \<Longrightarrow> (\<not> b \<Longrightarrow> keeps P n) \<Longrightarrow> keeps P (if b then m else n)"
  by simp

lemma keeps_case_option [keeps_rules]:
  "keeps P m \<Longrightarrow> (\<And>x. keeps P (n x)) \<Longrightarrow> keeps P (case z of None \<Rightarrow> m | Some x \<Rightarrow> n x)"
  by (cases z) simp_all

lemma keeps_for_each [keeps_rules]: "(\<And>x. keeps P (f x)) \<Longrightarrow> keeps P (for_each xs f)"
  by (induction xs) (auto intro!: keeps_rules)

lemma keeps_repeat_collect [keeps_rules]: "keeps P m \<Longrightarrow> keeps P (repeat_collect n m)"
  by (induction n) (auto intro!: keeps_rules)

lemma keeps_wp:
  "keeps P m \<longleftrightarrow> (\<forall>s. P s \<longrightarrow> wp m (\<lambda>_. P) (\<lambda>_. P) s)"
proof -
  have "wp m (\<lambda>_. P) (\<lambda>_. P) s = P (snd (m s))" for s
    by (simp add: wp_def split: prod.splits sum.splits)
  then show ?thesis by (simp add: keeps_def)
qed

section \<open>Vectors\<close>

text \<open>
  \<open>resize n xs\<close> is \<open>std::vector<uint8_t>::resize\<close>, which pads with zero;
  \<open>write_at off bs dst\<close> is \<open>std::copy\<close> of \<open>bs\<close> to \<open>dst.begin() + off\<close>.
\<close>

definition resize :: "nat \<Rightarrow> bytes \<Rightarrow> bytes" where
  "resize n xs = take n xs @ replicate (n - length xs) 0"

definition write_at :: "nat \<Rightarrow> 'a list \<Rightarrow> 'a list \<Rightarrow> 'a list" where
  "write_at off bs dst = take off dst @ bs @ drop (off + length bs) dst"

definition segment :: "nat \<Rightarrow> nat \<Rightarrow> 'a list \<Rightarrow> 'a list" where
  "segment off n xs = take n (drop off xs)"

text \<open>
  Access to a vector in C++ is unchecked: an index or a range that is not in the vector is undefined
  behaviour.  These are the accesses with that behaviour written out: \<open>vec_get i xs\<close> is \<open>xs[i]\<close>,
  \<open>vec_read off n xs\<close> reads the \<open>n\<close> elements from \<open>off\<close>, \<open>vec_write off bs\<close> copies
  \<open>bs\<close> to \<open>off\<close>, and \<open>vec_fill lo hi x\<close> is \<open>std::fill\<close> from \<open>lo\<close> to \<open>hi\<close>.
\<close>

definition out_of_vector :: exn where
  "out_of_vector = UndefinedBehaviour ''access outside of a vector''"

definition vec_get :: "nat \<Rightarrow> 'a list \<Rightarrow> exn + 'a" where
  "vec_get i xs = (if i < length xs then Inr (xs ! i) else Inl out_of_vector)"

definition vec_read :: "nat \<Rightarrow> nat \<Rightarrow> 'a list \<Rightarrow> exn + 'a list" where
  "vec_read off n xs = (if off + n \<le> length xs then Inr (segment off n xs) else Inl out_of_vector)"

definition vec_write :: "nat \<Rightarrow> 'a list \<Rightarrow> ('a list, unit) act" where
  "vec_write off bs = (\<lambda>dst.
    if off + length bs \<le> length dst then (Inr (), write_at off bs dst) else (Inl out_of_vector, dst))"

definition vec_fill :: "int \<Rightarrow> nat \<Rightarrow> 'a \<Rightarrow> ('a list, unit) act" where
  "vec_fill lo hi x = (\<lambda>dst.
    if 0 \<le> lo \<and> lo \<le> int hi \<and> hi \<le> length dst
    then (Inr (), write_at (nat lo) (replicate (hi - nat lo) x) dst) else (Inl out_of_vector, dst))"

lemma vec_get_ok [simp]: "i < length xs \<Longrightarrow> vec_get i xs = Inr (xs ! i)"
  by (simp add: vec_get_def)

lemma vec_read_ok [simp]: "off + n \<le> length xs \<Longrightarrow> vec_read off n xs = Inr (segment off n xs)"
  by (simp add: vec_read_def)

lemma vec_write_ok [simp]:
  "off + length bs \<le> length dst \<Longrightarrow> vec_write off bs dst = (Inr (), write_at off bs dst)"
  by (simp add: vec_write_def)

lemma length_resize [simp]: "length (resize n xs) = n"
  by (simp add: resize_def)

lemma nth_resize: "i < n \<Longrightarrow> resize n xs ! i = (if i < length xs then xs ! i else 0)"
  by (auto simp: resize_def nth_append)

lemma length_write_at [simp]:
  "off + length bs \<le> length dst \<Longrightarrow> length (write_at off bs dst) = length dst"
  by (simp add: write_at_def)

lemma nth_write_at:
  "off + length bs \<le> length dst \<Longrightarrow> i < length dst \<Longrightarrow>
    write_at off bs dst ! i =
      (if off \<le> i \<and> i < off + length bs then bs ! (i - off) else dst ! i)"
  by (auto simp: write_at_def nth_append)

lemma length_segment: "length (segment off n xs) = min n (length xs - off)"
  by (simp add: segment_def min.commute)

lemma nth_segment: "i < n \<Longrightarrow> off + i < length xs \<Longrightarrow> segment off n xs ! i = xs ! (off + i)"
  by (simp add: segment_def)

lemma segment_write_at:
  "off + length bs \<le> length dst \<Longrightarrow> segment off (length bs) (write_at off bs dst) = bs"
  by (simp add: segment_def write_at_def)

section \<open>Decimal numbers\<close>

text \<open>\<open>std::to_string\<close> of an unsigned integer.\<close>

fun to_string :: "nat \<Rightarrow> string" where
  "to_string n =
    (if n < 10 then [char_of (48 + n)] else to_string (n div 10) @ [char_of (48 + n mod 10)])"

declare to_string.simps [simp del]

section \<open>Big-endian byte strings\<close>

definition nat_of_be :: "bytes \<Rightarrow> nat" where
  "nat_of_be bs = foldl (\<lambda>a b. a * 256 + unat b) 0 bs"

primrec be_of_nat :: "nat \<Rightarrow> nat \<Rightarrow> bytes" where
  "be_of_nat 0 v = []"
| "be_of_nat (Suc n) v = be_of_nat n (v div 256) @ [word_of_nat v]"

lemma nat_of_be_Nil [be_simps, simp]: "nat_of_be [] = 0"
  by (simp add: nat_of_be_def)

lemma nat_of_be_snoc [be_simps, simp]: "nat_of_be (bs @ [b]) = nat_of_be bs * 256 + unat b"
  by (simp add: nat_of_be_def)

lemma length_be_of_nat [be_simps, simp]: "length (be_of_nat n v) = n"
  by (induction n arbitrary: v) simp_all

lemma unat_byte_bound: "unat (b :: byte) < 256"
  using unsigned_less [of b] by simp

lemma unat_byte_of_nat: "unat (word_of_nat v :: byte) = v mod 256"
  by (simp add: unsigned_of_nat take_bit_eq_mod)

lemma nat_of_be_of_nat [be_simps]: "nat_of_be (be_of_nat n v) = v mod 256 ^ n"
proof (induction n arbitrary: v)
  case (Suc n)
  have "v div 256 mod 256 ^ n * 256 + v mod 256 = v mod (256 * 256 ^ n)"
    by (simp add: mod_mult2_eq mult.commute)
  with Suc show ?case by (simp add: unat_byte_of_nat)
qed simp

lemma be_of_nat_of_be [be_simps]: "be_of_nat (length bs) (nat_of_be bs) = bs"
proof (induction bs rule: rev_induct)
  case (snoc b bs)
  have "(nat_of_be bs * 256 + unat b) div 256 = nat_of_be bs"
    using unat_byte_bound [of b] by simp
  moreover have "word_of_nat (nat_of_be bs * 256 + unat b) = b"
  proof (rule word_unat_eq_iff [THEN iffD2])
    show "unat (word_of_nat (nat_of_be bs * 256 + unat b) :: byte) = unat b"
      using unat_byte_bound [of b] by (simp only: unat_byte_of_nat) simp
  qed
  ultimately show ?case using snoc by simp
qed simp

lemma be_of_nat_map: "be_of_nat n x = map (\<lambda>i. word_of_nat (x div 256 ^ (n - 1 - i))) [0..<n]"
proof (induction n arbitrary: x)
  case (Suc n)
  have "map (\<lambda>i. word_of_nat (x div 256 ^ (Suc n - 1 - i))) [0..<n] =
      (map (\<lambda>i. word_of_nat (x div 256 div 256 ^ (n - 1 - i))) [0..<n] :: bytes)"
    by (rule map_cong) (auto simp: div_mult2_eq [symmetric] power_Suc [symmetric] Suc_diff_Suc
        simp del: power_Suc)
  with Suc show ?case by simp
qed simp

lemma unat_drop_bit: "unat (drop_bit k w) = unat w div 2 ^ k" for w :: "'a::len word"
proof -
  have "take_bit LENGTH('a) (unat w) = unat w"
    using unsigned_less [of w, where ?'a = nat] by (simp add: take_bit_nat_eq_self)
  then show ?thesis by (subst unsigned_drop_bit_eq) (simp add: drop_bit_eq_div)
qed

lemma ucast_drop_bit_byte:
  "(ucast (drop_bit (8 * k) w) :: byte) = word_of_nat (unat w div 256 ^ k)" for w :: "'a::len word"
proof -
  have "unat (drop_bit (8 * k) w) = unat w div 256 ^ k"
    by (simp add: unat_drop_bit power_mult)
  then show ?thesis by (metis of_nat_unat)
qed

lemma nat_of_be_bound: "nat_of_be bs < 256 ^ length bs"
proof (induction bs rule: rev_induct)
  case (snoc b bs)
  then have "nat_of_be bs + 1 \<le> 256 ^ length bs" by simp
  then have "(nat_of_be bs + 1) * 256 \<le> 256 ^ length bs * 256" by (rule mult_le_mono1)
  with unat_byte_bound [of b] show ?case by simp
qed simp

lemma nat_of_be_append: "nat_of_be (xs @ ys) = nat_of_be xs * 256 ^ length ys + nat_of_be ys"
proof (induction ys rule: rev_induct)
  case (snoc y ys)
  have "nat_of_be (xs @ ys @ [y]) = nat_of_be ((xs @ ys) @ [y])" by simp
  also have "\<dots> = nat_of_be (xs @ ys) * 256 + unat y" by (rule nat_of_be_snoc)
  finally show ?case using snoc by (simp add: algebra_simps)
qed simp

lemma nat_of_be_replicate_0 [simp]: "nat_of_be (replicate n 0) = 0"
proof (induction n)
  case (Suc n)
  have "replicate (Suc n) (0::byte) = replicate n 0 @ [0]" by (simp add: replicate_append_same)
  with Suc show ?case by simp
qed simp

lemma nat_of_be_inject:
  assumes "length xs = length ys" and "nat_of_be xs = nat_of_be ys"
  shows "xs = ys"
proof -
  have "xs = be_of_nat (length xs) (nat_of_be xs)" by (rule be_of_nat_of_be [symmetric])
  also have "\<dots> = be_of_nat (length ys) (nat_of_be ys)" by (simp only: assms)
  also have "\<dots> = ys" by (rule be_of_nat_of_be)
  finally show ?thesis .
qed

text \<open>Big-endian byte strings without leading zeros.\<close>

definition trim :: "bytes \<Rightarrow> bytes" where
  "trim bs = dropWhile (\<lambda>b. b = 0) bs"

lemma nat_of_be_Cons_0: "nat_of_be (0 # bs) = nat_of_be bs"
  using nat_of_be_append [of "[0]" bs] nat_of_be_snoc [of "[]" 0] by simp

lemma nat_of_be_trim [simp]: "nat_of_be (trim bs) = nat_of_be bs"
  by (induction bs) (simp_all add: trim_def nat_of_be_Cons_0)

lemma length_trim_le: "length (trim bs) \<le> length bs"
  by (simp add: trim_def length_dropWhile_le)

lemma nat_of_be_Cons: "nat_of_be (b # bs) = unat b * 256 ^ length bs + nat_of_be bs"
  using nat_of_be_append [of "[b]" bs] nat_of_be_snoc [of "[]" b] by simp

lemma trim_head: "trim bs \<noteq> [] \<Longrightarrow> hd (trim bs) \<noteq> 0"
  unfolding trim_def by (rule hd_dropWhile)

lemma trim_lower: "trim bs \<noteq> [] \<Longrightarrow> 256 ^ (length (trim bs) - 1) \<le> nat_of_be bs"
proof -
  assume ne: "trim bs \<noteq> []"
  then obtain b cs where t: "trim bs = b # cs" by (cases "trim bs") auto
  then have "1 \<le> unat b" using trim_head [OF ne] by (simp add: unat_gt_0 Suc_le_eq)
  then have "256 ^ length cs \<le> unat b * 256 ^ length cs" by simp
  also have "\<dots> \<le> nat_of_be (b # cs)" by (simp add: nat_of_be_Cons)
  also have "\<dots> = nat_of_be bs" by (simp flip: t)
  finally show ?thesis by (simp add: t)
qed

lemma length_trim_unique:
  assumes "256 ^ k \<le> nat_of_be bs" and "nat_of_be bs < 256 ^ Suc k"
  shows "length (trim bs) = Suc k"
proof -
  have "(0::nat) < 256 ^ k" by simp
  then have "0 < nat_of_be bs" using assms(1) by (rule less_le_trans)
  then have "nat_of_be (trim bs) \<noteq> 0" by simp
  then have ne: "trim bs \<noteq> []" by (metis nat_of_be_Nil)
  have "256 ^ (length (trim bs) - 1) < (256::nat) ^ Suc k"
    using trim_lower [OF ne] assms(2) by (rule le_less_trans)
  then have "length (trim bs) - 1 < Suc k" by (rule power_less_imp_less_exp [rotated]) simp
  moreover have "(256::nat) ^ k < 256 ^ length (trim bs)"
    by (rule le_less_trans [OF assms(1)]) (use nat_of_be_bound [of "trim bs"] in simp)
  then have "k < length (trim bs)" by (rule power_less_imp_less_exp [rotated]) simp
  ultimately show ?thesis by simp
qed

end
