(* ===== verification/Keccak.thy ===== *)
theory Keccak
  imports Prelude
begin

text \<open>
  The hash function of the virtual machine: \<open>3rdparty/internal/keccak/hash.c\<close> and the class
  \<open>Keccak256\<close> of \<open>keccak256.cpp\<close>.  The 1600-bit state is a list of 25 lanes, the
  buffer of leftovers a list of 192 bytes, and the loops over fixed index ranges are folds over
  those ranges, in the order of the C code, with the in-place updates it makes.

  The reference below is the sponge of the Keccak specification with rate 1088, written from the
  step mappings on coordinates, the rotation offsets from their recurrence and the round constants
  from the feedback shift register.  The theorems show that the permutation of the code is the
  reference permutation, that the context of the code represents the sponge after any sequence of
  chunks, and that the class hashes its argument cut to its length modulo \<open>2 ^ 16\<close>, which is
  what the 16-bit length parameter leaves of it.
\<close>

unbundle bit_operations_syntax

section \<open>The constants\<close>

definition constants :: "byte list" where
  "constants =
    [1, 26, 94, 112, 31, 33, 121, 85, 14, 12, 53, 38, 63, 79, 93, 83, 82, 72, 22, 102, 121, 88, 33, 116,
     1, 6, 9, 22, 14, 20, 2, 12, 13, 19, 23, 15, 4, 24, 21, 8, 16, 5, 3, 18, 17, 11, 7, 10,
     1, 62, 28, 27, 36, 44, 6, 55, 20, 3, 10, 43, 25, 39, 41, 45, 15, 21, 8, 18, 2, 61, 56, 14]"

definition TYPE_ROUND_INFO :: nat where "TYPE_ROUND_INFO = 0"
definition TYPE_PI_TRANSFORM :: nat where "TYPE_PI_TRANSFORM = 24"
definition TYPE_RHO_TRANSFORM :: nat where "TYPE_RHO_TRANSFORM = 48"
definition BLOCK_SIZE :: nat where "BLOCK_SIZE = (1600 - 256 * 2) div 8"

definition getConstant :: "nat \<Rightarrow> nat \<Rightarrow> byte" where
  "getConstant ty index = constants ! (ty + index)"

definition ROTL64 :: "u64 \<Rightarrow> nat \<Rightarrow> u64" where
  "ROTL64 qword n = push_bit n qword XOR drop_bit (64 - n) qword"

definition get_round_constant :: "nat \<Rightarrow> u64" where
  "get_round_constant round =
    (let roundInfo = getConstant TYPE_ROUND_INFO round;
         result = (0::u64);
         result = (if bit roundInfo 6 then result OR push_bit 63 1 else result);
         result = (if bit roundInfo 5 then result OR push_bit 31 1 else result);
         result = (if bit roundInfo 4 then result OR push_bit 15 1 else result);
         result = (if bit roundInfo 3 then result OR push_bit 7 1 else result);
         result = (if bit roundInfo 2 then result OR push_bit 3 1 else result);
         result = (if bit roundInfo 1 then result OR push_bit 1 1 else result);
         result = (if bit roundInfo 0 then result OR push_bit 0 1 else result)
     in result)"

section \<open>The permutation\<close>

type_synonym lanes = "u64 list"

definition keccak_theta :: "lanes \<Rightarrow> lanes" where
  "keccak_theta A =
    (let C = map (\<lambda>i. fold (\<lambda>j c. c XOR A ! (i + j)) [5, 10, 15, 20] (A ! i)) [0..<5];
         D = map (\<lambda>i. ROTL64 (C ! ((i + 1) mod 5)) 1 XOR C ! ((i + 4) mod 5)) [0..<5]
     in fold (\<lambda>i A. fold (\<lambda>j A. A[i + j := A ! (i + j) XOR D ! i]) [0, 5, 10, 15, 20] A) [0..<5] A)"

definition keccak_rho :: "lanes \<Rightarrow> lanes" where
  "keccak_rho A =
    fold (\<lambda>i A. A[i := ROTL64 (A ! i) (unat (getConstant TYPE_RHO_TRANSFORM (i - 1)))]) [1..<25] A"

definition keccak_pi :: "lanes \<Rightarrow> lanes" where
  "keccak_pi A =
    (let A1 = A ! 1;
         A = fold (\<lambda>i A. A[unat (getConstant TYPE_PI_TRANSFORM (i - 1)) :=
               A ! unat (getConstant TYPE_PI_TRANSFORM i)]) [1..<24] A
     in A[10 := A1])"

definition keccak_chi_row :: "nat \<Rightarrow> lanes \<Rightarrow> lanes" where
  "keccak_chi_row i A =
    (let A0 = A ! (0 + i); A1 = A ! (1 + i);
         A = A[0 + i := A ! (0 + i) XOR (NOT A1 AND A ! (2 + i))];
         A = A[1 + i := A ! (1 + i) XOR (NOT (A ! (2 + i)) AND A ! (3 + i))];
         A = A[2 + i := A ! (2 + i) XOR (NOT (A ! (3 + i)) AND A ! (4 + i))];
         A = A[3 + i := A ! (3 + i) XOR (NOT (A ! (4 + i)) AND A0)];
         A = A[4 + i := A ! (4 + i) XOR (NOT A0 AND A1)]
     in A)"

definition keccak_chi :: "lanes \<Rightarrow> lanes" where
  "keccak_chi A = fold keccak_chi_row [0, 5, 10, 15, 20] A"

definition keccak_round :: "nat \<Rightarrow> lanes \<Rightarrow> lanes" where
  "keccak_round round state =
    (let state = keccak_chi (keccak_pi (keccak_rho (keccak_theta state)))
     in state[0 := state ! 0 XOR get_round_constant round])"

definition sha3_permutation :: "lanes \<Rightarrow> lanes" where
  "sha3_permutation state = fold keccak_round [0..<24] state"

section \<open>Blocks, update and final\<close>

text \<open>A lane in memory: eight bytes, least significant first.\<close>

definition lane_of_bytes :: "bytes \<Rightarrow> u64" where
  "lane_of_bytes bs = foldr (\<lambda>b w. push_bit 8 w OR ucast b) bs 0"

definition bytes_of_lane :: "u64 \<Rightarrow> bytes" where
  "bytes_of_lane w = map (\<lambda>i. ucast (drop_bit (8 * i) w)) [0..<8]"

definition block_lane :: "bytes \<Rightarrow> nat \<Rightarrow> u64" where
  "block_lane block i = lane_of_bytes (segment (8 * i) 8 block)"

definition sha3_process_block :: "lanes \<Rightarrow> bytes \<Rightarrow> lanes" where
  "sha3_process_block hash block =
    sha3_permutation (fold (\<lambda>i h. h[i := h ! i XOR block_lane block i]) [0..<17] hash)"

record SHA3_CTX =
  sha_hash :: lanes
  sha_message :: bytes
  sha_rest :: u16

definition keccak_init :: SHA3_CTX where
  "keccak_init = \<lparr>sha_hash = replicate 25 0, sha_message = replicate 192 0, sha_rest = 0\<rparr>"

definition IS_ALIGNED_64 :: "nat \<Rightarrow> bool" where
  "IS_ALIGNED_64 p \<longleftrightarrow> p mod 8 = 0"

text \<open>
  The block loop of \<open>keccak_update\<close>: \<open>p\<close> is the address of the chunk, which decides
  whether a block is hashed in place or copied into the context first.
\<close>

function update_blocks :: "nat \<Rightarrow> SHA3_CTX \<Rightarrow> bytes \<Rightarrow> nat \<Rightarrow> SHA3_CTX \<times> bytes \<times> nat" where
  "update_blocks p ctx msg sz =
    (if sz \<ge> BLOCK_SIZE then
       let ctx = (if IS_ALIGNED_64 p then ctx
                  else ctx\<lparr>sha_message := write_at 0 (take BLOCK_SIZE msg) (sha_message ctx)\<rparr>);
           block = (if IS_ALIGNED_64 p then take BLOCK_SIZE msg else take BLOCK_SIZE (sha_message ctx));
           ctx = ctx\<lparr>sha_hash := sha3_process_block (sha_hash ctx) block\<rparr>
       in update_blocks (p + BLOCK_SIZE) ctx (drop BLOCK_SIZE msg) (sz - BLOCK_SIZE)
     else (ctx, msg, sz))"
  by pat_completeness auto
termination by (relation "measure (\<lambda>(_, _, _, sz). sz)") (auto simp: BLOCK_SIZE_def)

declare update_blocks.simps [simp del]

definition update_tail :: "nat \<Rightarrow> SHA3_CTX \<Rightarrow> bytes \<Rightarrow> nat \<Rightarrow> SHA3_CTX" where
  "update_tail p ctx msg sz =
    (case update_blocks p ctx msg sz of (ctx, msg, sz) \<Rightarrow>
      if sz \<noteq> 0 then ctx\<lparr>sha_message := write_at 0 (take sz msg) (sha_message ctx)\<rparr> else ctx)"

definition keccak_update :: "nat \<Rightarrow> SHA3_CTX \<Rightarrow> bytes \<Rightarrow> u16 \<Rightarrow> SHA3_CTX" where
  "keccak_update p ctx msg sz =
    (let idx = unat (sha_rest ctx);
         sz = unat sz;
         ctx = ctx\<lparr>sha_rest := word_of_nat ((unat (sha_rest ctx) + sz) mod BLOCK_SIZE)\<rparr>
     in if idx \<noteq> 0 then
          let left = BLOCK_SIZE - idx;
              ctx = ctx\<lparr>sha_message :=
                write_at idx (take (if sz < left then sz else left) msg) (sha_message ctx)\<rparr>
          in if sz < left then ctx
             else update_tail (p + left)
                    (ctx\<lparr>sha_hash := sha3_process_block (sha_hash ctx) (sha_message ctx)\<rparr>)
                    (drop left msg) (sz - left)
        else update_tail p ctx msg sz)"

definition keccak_final :: "SHA3_CTX \<Rightarrow> bytes" where
  "keccak_final ctx =
    (let rest = unat (sha_rest ctx);
         digest_length = 100 - BLOCK_SIZE div 2;
         message = write_at rest (replicate (BLOCK_SIZE - rest) 0) (sha_message ctx);
         message = message[rest := message ! rest OR 1];
         message = message[BLOCK_SIZE - 1 := message ! (BLOCK_SIZE - 1) OR 0x80];
         hash = sha3_process_block (sha_hash ctx) message
     in take digest_length (concat (map bytes_of_lane hash)))"

text \<open>
  \<open>Keccak256(data, size)\<close>: the call passes a \<open>size_t\<close> where the parameter is a
  \<open>uint16_t\<close>.
\<close>

definition Keccak256_at :: "nat \<Rightarrow> bytes \<Rightarrow> bytes" where
  "Keccak256_at p data =
    keccak_final (keccak_update p keccak_init data (word_of_nat (length data)))"

definition Keccak256 :: "bytes \<Rightarrow> bytes" where
  "Keccak256 data = Keccak256_at 0 data"

definition from_skip :: "bytes \<Rightarrow> nat \<Rightarrow> bytes" where
  "from_skip str skip = Keccak256 (drop (min skip (length str)) str)"

definition Keccak256_eq :: "bytes \<Rightarrow> bytes \<Rightarrow> bool" where
  "Keccak256_eq lhs rhs = fold (\<lambda>i r. r \<and> lhs ! i = rhs ! i) [0..<32] True"

section \<open>The reference sponge\<close>

definition ref_theta :: "lanes \<Rightarrow> lanes" where
  "ref_theta A =
    (let C = (\<lambda>x. (((A ! x XOR A ! (x + 5)) XOR A ! (x + 10)) XOR A ! (x + 15)) XOR A ! (x + 20));
         D = (\<lambda>x. word_rotl 1 (C ((x + 1) mod 5)) XOR C ((x + 4) mod 5))
     in map (\<lambda>k. A ! k XOR D (k mod 5)) [0..<25])"

text \<open>The offsets of the lane \<open>x + 5 * y\<close>, along the walk \<open>(x, y) \<mapsto> (y, 2 x + 3 y)\<close>.\<close>

fun rho_walk :: "nat \<Rightarrow> nat \<Rightarrow> nat \<Rightarrow> nat \<Rightarrow> nat \<Rightarrow> nat" where
  "rho_walk 0 t x y k = 0"
| "rho_walk (Suc n) t x y k =
    (if k = x + 5 * y then ((t + 1) * (t + 2) div 2) mod 64
     else rho_walk n (t + 1) y ((2 * x + 3 * y) mod 5) k)"

definition rho_offset :: "nat \<Rightarrow> nat" where
  "rho_offset k = rho_walk 24 0 1 0 k"

definition ref_rho :: "lanes \<Rightarrow> lanes" where
  "ref_rho A = map (\<lambda>k. word_rotl (rho_offset k) (A ! k)) [0..<25]"

definition pi_source :: "nat \<Rightarrow> nat" where
  "pi_source k = (k mod 5 + 3 * (k div 5)) mod 5 + 5 * (k mod 5)"

definition ref_pi :: "lanes \<Rightarrow> lanes" where
  "ref_pi A = map (\<lambda>k. A ! pi_source k) [0..<25]"

definition ref_chi :: "lanes \<Rightarrow> lanes" where
  "ref_chi A = map (\<lambda>k. A ! k XOR
    (NOT (A ! ((k mod 5 + 1) mod 5 + 5 * (k div 5))) AND A ! ((k mod 5 + 2) mod 5 + 5 * (k div 5)))) [0..<25]"

text \<open>The register \<open>x^8 + x^6 + x^5 + x^4 + 1\<close>, lowest coefficient in bit 0.\<close>

definition lfsr_step :: "byte \<Rightarrow> byte" where
  "lfsr_step r = (if bit r 7 then push_bit 1 r XOR 0x71 else push_bit 1 r)"

definition rc_bit :: "nat \<Rightarrow> bool" where
  "rc_bit t = bit ((lfsr_step ^^ t) 1) 0"

primrec rc_seq :: "nat \<Rightarrow> byte \<Rightarrow> bool list" where
  "rc_seq 0 r = []"
| "rc_seq (Suc n) r = bit r 0 # rc_seq n (lfsr_step r)"

definition round_constant_of :: "(nat \<Rightarrow> bool) \<Rightarrow> u64" where
  "round_constant_of b =
    fold (\<lambda>j c. if b j then c OR push_bit (2 ^ j - 1) 1 else c) [0..<7] 0"

definition ref_round_constant :: "nat \<Rightarrow> u64" where
  "ref_round_constant r = round_constant_of (\<lambda>j. rc_bit (7 * r + j))"

definition ref_round :: "nat \<Rightarrow> lanes \<Rightarrow> lanes" where
  "ref_round r A =
    (let A = ref_chi (ref_pi (ref_rho (ref_theta A))) in A[0 := A ! 0 XOR ref_round_constant r])"

definition keccak_f :: "lanes \<Rightarrow> lanes" where
  "keccak_f A = fold ref_round [0..<24] A"

definition ref_absorb_block :: "lanes \<Rightarrow> bytes \<Rightarrow> lanes" where
  "ref_absorb_block S block =
    keccak_f (map (\<lambda>i. if i < 17 then S ! i XOR block_lane block i else S ! i) [0..<25])"

fun ref_absorb :: "lanes \<Rightarrow> bytes \<Rightarrow> lanes" where
  "ref_absorb S msg =
    (if length msg < BLOCK_SIZE \<or> BLOCK_SIZE = 0 then S
     else ref_absorb (ref_absorb_block S (take BLOCK_SIZE msg)) (drop BLOCK_SIZE msg))"

declare ref_absorb.simps [simp del]

definition ref_pad :: "bytes \<Rightarrow> bytes" where
  "ref_pad msg =
    (let q = BLOCK_SIZE - length msg mod BLOCK_SIZE
     in msg @ (if q = 1 then [0x81] else [0x01] @ replicate (q - 2) 0 @ [0x80]))"

definition keccak_256 :: "bytes \<Rightarrow> bytes" where
  "keccak_256 msg =
    take 32 (concat (map bytes_of_lane (ref_absorb (replicate 25 0) (ref_pad msg))))"

text \<open>
  The context after hashing the message \<open>m\<close>: the full blocks are in the state, the rest is at
  the front of the buffer.
\<close>

definition absorbed :: "SHA3_CTX \<Rightarrow> bytes \<Rightarrow> bool" where
  "absorbed ctx m \<longleftrightarrow>
    length (sha_message ctx) = 192 \<and> unat (sha_rest ctx) = length m mod 136 \<and>
    sha_hash ctx = ref_absorb (replicate 25 0) m \<and>
    take (length m mod 136) (sha_message ctx) = drop (length m - length m mod 136) m"


definition update_chunks :: "(nat \<times> bytes) list \<Rightarrow> SHA3_CTX \<Rightarrow> SHA3_CTX" where
  "update_chunks cs ctx =
    fold (\<lambda>(p, c) ctx. keccak_update p ctx c (word_of_nat (length c))) cs ctx"

section \<open>The permutation is the reference permutation\<close>

lemma ROTL64_rotl:
  assumes "0 < n" and "n < 64"
  shows "ROTL64 w n = word_rotl n w"
proof (rule bit_word_eqI)
  fix i assume "i < LENGTH(64)"
  then have i: "i < 64" by simp
  have rotl: "bit (word_rotl n w) i = bit w ((i + (64 - n)) mod 64)"
    using assms i by (simp add: bit_word_rotl_iff)
  have imp: "bit (ROTL64 w n) i = ((n \<le> i \<and> bit w (i - n)) \<noteq> bit w (64 - n + i))"
    using i by (simp add: ROTL64_def bit_xor_iff bit_push_bit_iff bit_drop_bit_eq)
  show "bit (ROTL64 w n) i = bit (word_rotl n w) i"
  proof (cases "n \<le> i")
    case True
    have "\<not> bit w (64 - n + i)" using True assms by (auto dest: bit_imp_le_length)
    moreover have "(i + (64 - n)) mod 64 = i - n"
    proof -
      have "i + (64 - n) = (i - n) + 64" using True assms by linarith
      then show ?thesis using i by (simp only: mod_add_self2) simp
    qed
    ultimately show ?thesis unfolding rotl imp using True by simp
  next
    case False
    then have "i + (64 - n) < 64" using assms by linarith
    then have "(i + (64 - n)) mod 64 = 64 - n + i" by (simp only: mod_less add.commute)
    with False show ?thesis unfolding rotl imp by simp
  qed
qed

lemma word_rotl_0: "word_rotl 0 w = w" for w :: u64
  by (rule bit_word_eqI) (simp add: bit_word_rotl_iff)

lemma lanes_25:
  assumes "length (A :: lanes) = 25"
  obtains a0 a1 a2 a3 a4 a5 a6 a7 a8 a9 a10 a11 a12 a13 a14 a15 a16 a17 a18 a19 a20 a21 a22 a23 a24
  where "A = [a0, a1, a2, a3, a4, a5, a6, a7, a8, a9, a10, a11, a12, a13, a14, a15, a16, a17, a18,
    a19, a20, a21, a22, a23, a24]"
proof -
  have "A = map (\<lambda>i. A ! i) [0..<25]" using assms map_nth [of A] by simp
  also have "[0..<25] = [0, 1, 2, 3, 4, 5, 6, 7, 8, 9, 10, 11, 12, 13, 14, 15, 16, 17, 18, 19, 20, 21, 22, 23, 24]"
    by (simp add: upt_rec)
  finally show thesis by (simp only: list.map) (rule that)
qed

lemma upt_25: "[0..<25] = [0, 1, 2, 3, 4, 5, 6, 7, 8, 9, 10, 11, 12, 13, 14, 15, 16, 17, 18, 19, 20, 21, 22, 23, 24]"
  by (simp add: upt_rec)
lemma upt_5: "[0..<5] = [0, 1, 2, 3, 4]"
  by (simp add: upt_rec)

lemma upt_7: "[0..<7] = [0, 1, 2, 3, 4, 5, 6]"
  by (simp add: upt_rec)

lemma keccak_theta_ref: "length A = 25 \<Longrightarrow> keccak_theta A = ref_theta A"
  by (erule lanes_25)
     (simp add: keccak_theta_def upt_5, simp add: ref_theta_def upt_25 ROTL64_rotl)

lemma keccak_chi_ref: "length A = 25 \<Longrightarrow> keccak_chi A = ref_chi A"
  by (erule lanes_25)
     (simp add: keccak_chi_def keccak_chi_row_def ref_chi_def upt_25)

lemma fold_update_range:
  "k \<le> n \<Longrightarrow> n \<le> length A \<Longrightarrow>
    fold (\<lambda>i A. A[i := f i (A ! i)]) [k..<n] A =
      map (\<lambda>i. if k \<le> i \<and> i < n then f i (A ! i) else A ! i) [0..<length A]"
proof (induction n)
  case 0
  then show ?case by (simp add: map_nth)
next
  case (Suc n)
  show ?case
  proof (cases "k = Suc n")
    case True
    have *: "map (\<lambda>i. if Suc n \<le> i \<and> i < Suc n then f i (A ! i) else A ! i) [0..<length A] =
      map (\<lambda>i. A ! i) [0..<length A]"
      by (rule map_cong) auto
    show ?thesis unfolding True * by (simp add: map_nth)
  next
    case False
    with Suc show ?thesis by (auto intro!: nth_equalityI simp: nth_list_update)
  qed
qed

lemma rho_constants:
  "1 \<le> i \<Longrightarrow> i < 25 \<Longrightarrow>
    unat (getConstant TYPE_RHO_TRANSFORM (i - 1)) = rho_offset i \<and> 0 < rho_offset i \<and> rho_offset i < 64"
proof -
  have "\<forall>i \<in> set [1..<25]. unat (getConstant TYPE_RHO_TRANSFORM (i - 1)) = rho_offset i \<and>
    0 < rho_offset i \<and> rho_offset i < 64"
    by code_simp
  then show "1 \<le> i \<Longrightarrow> i < 25 \<Longrightarrow> ?thesis" by simp
qed

lemma rho_offset_0: "rho_offset 0 = 0"
  by code_simp

lemma keccak_rho_ref: "length A = 25 \<Longrightarrow> keccak_rho A = ref_rho A"
  unfolding keccak_rho_def ref_rho_def
  by (subst fold_update_range [where f = "\<lambda>i w. ROTL64 w (unat (getConstant TYPE_RHO_TRANSFORM (i - 1)))"])
     (auto simp: rho_constants [unfolded One_nat_def] ROTL64_rotl rho_offset_0 word_rotl_0 not_less_eq_eq)

lemma length_fold_update: "length (fold (\<lambda>i A. A[f i := g i A]) is A) = length A"
  by (induction "is" arbitrary: A) simp_all

lemma fold_cycle:
  fixes p :: "nat \<Rightarrow> nat" and A :: "'a list"
  defines "C \<equiv> \<lambda>n. fold (\<lambda>i A. A[p (i - 1) := A ! p i]) [1..<Suc n] A"
  assumes "inj_on p {..n}" and "\<And>i. i \<le> n \<Longrightarrow> p i < length A"
  shows "(\<forall>j < n. C n ! p j = A ! p (Suc j)) \<and> (\<forall>k. k \<notin> p ` {..<n} \<longrightarrow> C n ! k = A ! k)"
  using assms(2,3)
proof (induction n)
  case 0
  then show ?case by (simp add: C_def)
next
  case (Suc n)
  have len: "length (C n) = length A" unfolding C_def by (rule length_fold_update)
  have inj: "inj_on p {..n}" using Suc.prems(1) by (rule inj_on_subset) auto
  have range: "\<And>i. i \<le> n \<Longrightarrow> p i < length A" using Suc.prems(2) by simp
  have IH: "\<And>j. j < n \<Longrightarrow> C n ! p j = A ! p (Suc j)" "\<And>k. k \<notin> p ` {..<n} \<Longrightarrow> C n ! k = A ! k"
    using Suc.IH [OF inj range] by auto
  have pS: "p (Suc n) \<notin> p ` {..<n}" using inj_on_eq_iff [OF Suc.prems(1)] by auto
  have pn: "\<And>j. j < n \<Longrightarrow> p n \<noteq> p j" using inj_on_eq_iff [OF Suc.prems(1)] by auto
  have step: "C (Suc n) = (C n)[p n := A ! p (Suc n)]"
    unfolding C_def IH(2) [OF pS, symmetric, unfolded C_def] by simp
  have "C (Suc n) ! p j = A ! p (Suc j)" if "j < Suc n" for j
    using that IH(1) pn [of j] len Suc.prems(2) [of n] by (cases "j = n") (simp_all add: step)
  moreover have "C (Suc n) ! k = A ! k" if "k \<notin> p ` {..<Suc n}" for k
  proof -
    have "k \<noteq> p n" "k \<notin> p ` {..<n}" using that by (auto simp: lessThan_Suc)
    then show ?thesis using IH(2) by (simp add: step)
  qed
  ultimately show ?case by blast
qed

lemma pi_table:
  "k < 25 \<Longrightarrow> k \<noteq> 0 \<Longrightarrow> k \<noteq> 10 \<Longrightarrow>
    \<exists>j < 23. unat (getConstant TYPE_PI_TRANSFORM j) = k \<and>
      unat (getConstant TYPE_PI_TRANSFORM (Suc j)) = pi_source k"
proof -
  have "\<forall>k \<in> set [0..<25]. k \<noteq> 0 \<longrightarrow> k \<noteq> 10 \<longrightarrow>
    list_ex (\<lambda>j. unat (getConstant TYPE_PI_TRANSFORM j) = k \<and>
      unat (getConstant TYPE_PI_TRANSFORM (Suc j)) = pi_source k) [0..<23]"
    by code_simp
  then show "k < 25 \<Longrightarrow> k \<noteq> 0 \<Longrightarrow> k \<noteq> 10 \<Longrightarrow> ?thesis"
    unfolding list_ex_iff set_upt Bex_def Ball_def atLeastLessThan_iff by blast
qed

lemma pi_inj: "inj_on (\<lambda>i. unat (getConstant TYPE_PI_TRANSFORM i)) {..23}"
proof -
  have "distinct (map (\<lambda>i. unat (getConstant TYPE_PI_TRANSFORM i)) [0..<24])" by code_simp
  moreover have "{..23} = set [0..<24]" by auto
  ultimately show ?thesis by (simp add: distinct_map)
qed

lemma pi_range: "i \<le> 23 \<Longrightarrow> unat (getConstant TYPE_PI_TRANSFORM i) < 25 \<and> 0 < unat (getConstant TYPE_PI_TRANSFORM i)"
proof -
  have "\<forall>i \<in> set [0..<24]. unat (getConstant TYPE_PI_TRANSFORM i) < 25 \<and> 0 < unat (getConstant TYPE_PI_TRANSFORM i)"
    by code_simp
  then show "i \<le> 23 \<Longrightarrow> ?thesis" by simp
qed

lemma keccak_pi_ref:
  assumes "length A = 25"
  shows "keccak_pi A = ref_pi A"
proof -
  let ?p = "\<lambda>i. unat (getConstant TYPE_PI_TRANSFORM i)"
  define R where "R = fold (\<lambda>i A. A[?p (i - 1) := A ! ?p i]) [1..<Suc 23] A"
  have lenR: "length R = 25" unfolding R_def by (simp only: length_fold_update assms)
  have R: "\<forall>j < 23. R ! ?p j = A ! ?p (Suc j)" "\<forall>k. k \<notin> ?p ` {..<23} \<longrightarrow> R ! k = A ! k"
    using fold_cycle [of ?p 23 A, OF pi_inj, folded R_def] pi_range assms by auto
  have "[1..<Suc 23] = [1..<24]" by (rule arg_cong [where f = "upt 1"]) simp
  then have eq: "keccak_pi A = R[10 := A ! 1]" by (simp only: keccak_pi_def R_def Let_def)
  have "R[10 := A ! 1] ! k = A ! pi_source k" if "k < 25" for k
  proof -
    consider "k = 0" | "k = 10" | "k \<noteq> 0" "k \<noteq> 10" by blast
    then show ?thesis
    proof cases
      case 1
      have "?p i \<noteq> 0" if "i < 23" for i using pi_range [of i] that by simp
      then have "0 \<notin> ?p ` {..<23}" by force
      then show ?thesis using R(2) 1 by (simp add: pi_source_def)
    next
      case 2
      then show ?thesis using lenR by (simp add: pi_source_def)
    next
      case 3
      then show ?thesis using pi_table [OF that] R(1) by auto
    qed
  qed
  then show ?thesis unfolding eq
    by (intro nth_equalityI) (simp_all add: ref_pi_def lenR)
qed

lemma rc_seq_nth: "t < n \<Longrightarrow> rc_seq n r ! t = bit ((lfsr_step ^^ t) r) 0"
  by (induction n arbitrary: t r)
     (auto simp: nth_Cons funpow_Suc_right simp del: funpow.simps split: nat.split)

lemma rc_seq_rounds:
  "rc_seq 168 1 = concat (map (\<lambda>r. map (bit (getConstant TYPE_ROUND_INFO r)) [0..<7]) [0..<24])"
  by code_simp

lemma nth_concat_blocks:
  "(\<And>r. length (f r) = k) \<Longrightarrow> r < n \<Longrightarrow> j < k \<Longrightarrow> concat (map f [0..<n]) ! (k * r + j) = f r ! j"
proof (induction n)
  case (Suc n)
  have len: "length (concat (map f [0..<m])) = k * m" for m
    using Suc.prems(1) by (induction m) simp_all
  show ?case
  proof (cases "r = n")
    case True
    then show ?thesis using Suc.prems len by (simp add: nth_append)
  next
    case False
    then have "r < n" using Suc.prems(2) by simp
    then have "k * Suc r \<le> k * n" by (intro mult_le_mono2) simp
    then have "k * r + j < k * n" using Suc.prems(3) by simp
    with \<open>r < n\<close> show ?thesis using Suc len by (simp add: nth_append)
  qed
qed simp

lemma rc_bit_info:
  "r < 24 \<Longrightarrow> j < 7 \<Longrightarrow> rc_bit (7 * r + j) = bit (getConstant TYPE_ROUND_INFO r) j"
proof -
  assume r: "r < 24" and j: "j < 7"
  have "rc_bit (7 * r + j) = rc_seq 168 1 ! (7 * r + j)"
    unfolding rc_bit_def by (rule rc_seq_nth [symmetric]) (use r j in simp)
  also have "\<dots> = map (bit (getConstant TYPE_ROUND_INFO r)) [0..<7] ! j"
    unfolding rc_seq_rounds by (rule nth_concat_blocks) (use r j in simp_all)
  also have "\<dots> = bit (getConstant TYPE_ROUND_INFO r) j" using j by simp
  finally show ?thesis .
qed

lemma if_or: "(if b then c OR x else c) = c OR (if b then x else 0)" for c :: "'a::len word"
  by simp

lemma get_round_constant_bits:
  "get_round_constant r = round_constant_of (bit (getConstant TYPE_ROUND_INFO r))"
  unfolding get_round_constant_def round_constant_of_def upt_7 Let_def if_or
  by (simp add: or.assoc or.commute or.left_commute del: push_bit_of_1)

lemma get_round_constant_ref: "r < 24 \<Longrightarrow> get_round_constant r = ref_round_constant r"
  unfolding get_round_constant_bits ref_round_constant_def round_constant_of_def
  by (rule fold_cong) (auto simp: rc_bit_info)

lemma keccak_round_ref: "length A = 25 \<Longrightarrow> r < 24 \<Longrightarrow> keccak_round r A = ref_round r A"
proof -
  assume "length A = 25" "r < 24"
  moreover have "length (ref_theta A) = 25" "length (ref_rho (ref_theta A)) = 25"
    "length (ref_pi (ref_rho (ref_theta A))) = 25"
    by (simp_all add: ref_theta_def ref_rho_def ref_pi_def)
  ultimately show "keccak_round r A = ref_round r A"
    by (simp add: keccak_round_def ref_round_def keccak_theta_ref keccak_rho_ref keccak_pi_ref
        keccak_chi_ref get_round_constant_ref)
qed

lemma length_ref_round [simp]: "length (ref_round r A) = 25"
  by (simp add: ref_round_def ref_chi_def Let_def)

lemma sha3_permutation_ref:
  assumes "length A = 25"
  shows "sha3_permutation A = keccak_f A"
proof -
  have "fold keccak_round rs A = fold ref_round rs A" if "\<forall>r \<in> set rs. r < 24" for rs
    using that assms by (induction rs arbitrary: A) (simp_all add: keccak_round_ref)
  then show ?thesis by (simp add: sha3_permutation_def keccak_f_def)
qed

section \<open>The context represents the sponge\<close>

lemma length_fold_invariant:
  "length A = n \<Longrightarrow> (\<And>x A. length A = n \<Longrightarrow> length (f x A) = n) \<Longrightarrow> length (fold f xs A) = n"
  by (induction xs arbitrary: A) simp_all

lemma length_keccak_f: "length A = 25 \<Longrightarrow> length (keccak_f A) = 25"
  unfolding keccak_f_def
  by (rule length_fold_invariant) (simp_all add: ref_round_def ref_chi_def Let_def)

lemma length_ref_absorb_block [simp]: "length (ref_absorb_block S b) = 25"
  by (simp add: ref_absorb_block_def length_keccak_f)

lemma length_ref_absorb: "length S = 25 \<Longrightarrow> length (ref_absorb S m) = 25"
proof (induction S m rule: ref_absorb.induct)
  case (1 S m)
  then show ?case by (subst ref_absorb.simps) simp
qed

lemma block_lane_take:
  assumes "i < 17" shows "block_lane (take 136 b) i = block_lane b i"
proof -
  have "segment (8 * i) 8 (take 136 b) = segment (8 * i) 8 b"
    using assms by (simp add: segment_def drop_take min_def)
  then show ?thesis by (simp add: block_lane_def)
qed

lemma sha3_process_block_ref:
  assumes "length h = 25"
  shows "sha3_process_block h b = ref_absorb_block h (take 136 b)"
proof -
  have "fold (\<lambda>i h. h[i := h ! i XOR block_lane b i]) [0..<17] h =
    map (\<lambda>i. if i < 17 then h ! i XOR block_lane (take 136 b) i else h ! i) [0..<25]"
    using fold_update_range [of 0 17 h "\<lambda>i w. w XOR block_lane b i"] assms
    by (simp add: block_lane_take cong: if_cong)
  then show ?thesis
    by (simp only: sha3_process_block_def ref_absorb_block_def) (simp add: sha3_permutation_ref)
qed

lemma BLOCK_SIZE_136: "BLOCK_SIZE = 136"
  by (simp add: BLOCK_SIZE_def)

lemma ref_absorb_short: "length m < 136 \<Longrightarrow> ref_absorb S m = S"
  by (subst ref_absorb.simps) (simp add: BLOCK_SIZE_136)

lemma ref_absorb_block_append:
  "length a = 136 \<Longrightarrow> ref_absorb S (a @ b) = ref_absorb (ref_absorb_block S a) b"
  by (subst ref_absorb.simps) (simp add: BLOCK_SIZE_136)

lemma ref_absorb_append:
  "length a mod 136 = 0 \<Longrightarrow> ref_absorb S (a @ b) = ref_absorb (ref_absorb S a) b"
proof (induction "length a" arbitrary: a S rule: less_induct)
  case less
  show ?case
  proof (cases "length a < 136")
    case True
    with less.prems have "a = []" by simp
    then show ?thesis by (simp add: ref_absorb_short)
  next
    case False
    let ?b = "take 136 a" and ?r = "drop 136 a"
    have "length ?r < length a" "length ?r mod 136 = 0"
      using False less.prems by (simp_all add: mod_if)
    note IH = less.hyps [OF this]
    have l: "length ?b = 136" using False by simp
    have "ref_absorb S (a @ b) = ref_absorb S (?b @ (?r @ b))"
      by (metis append_assoc append_take_drop_id)
    also have "\<dots> = ref_absorb (ref_absorb_block S ?b) (?r @ b)" by (rule ref_absorb_block_append [OF l])
    also have "\<dots> = ref_absorb (ref_absorb (ref_absorb_block S ?b) ?r) b" by (rule IH)
    also have "ref_absorb (ref_absorb_block S ?b) ?r = ref_absorb S (?b @ ?r)"
      by (rule ref_absorb_block_append [OF l, symmetric])
    finally show ?thesis by simp
  qed
qed

text \<open>Splitting a message at its last block boundary.\<close>

lemma absorb_split:
  assumes "k = length m - length m mod 136"
  shows "ref_absorb S m = ref_absorb S (take k m)" and "length (take k m) mod 136 = 0"
proof -
  show *: "length (take k m) mod 136 = 0"
    using assms by (simp add: minus_mod_eq_mult_div)
  have "ref_absorb S (take k m @ drop k m) = ref_absorb (ref_absorb S (take k m)) (drop k m)"
    by (rule ref_absorb_append [OF *])
  moreover have "length (drop k m) < 136" using assms by (simp add: Suc_le_lessD)
  ultimately show "ref_absorb S m = ref_absorb S (take k m)" by (simp add: ref_absorb_short)
qed

lemma update_blocks_ref:
  assumes "sz \<le> length msg" and "length (sha_hash ctx) = 25" and "length (sha_message ctx) = 192"
  shows "\<exists>b. length b = 192 \<and> update_blocks p ctx msg sz =
    (ctx\<lparr>sha_message := b, sha_hash := ref_absorb (sha_hash ctx) (take sz msg)\<rparr>,
     drop (sz - sz mod 136) msg, sz mod 136)"
  using assms
proof (induction sz arbitrary: p ctx msg rule: less_induct)
  case (less sz)
  note 1 = less.prems
  show ?case
  proof (cases "sz < 136")
    case True
    then have "update_blocks p ctx msg sz = (ctx, msg, sz)"
      by (subst update_blocks.simps) (simp add: BLOCK_SIZE_136)
    with True 1(3) show ?thesis
      by (intro exI [of _ "sha_message ctx"]) (simp add: ref_absorb_short)
  next
    case False
    define c1 where "c1 = (if IS_ALIGNED_64 p then ctx
      else ctx\<lparr>sha_message := write_at 0 (take 136 msg) (sha_message ctx)\<rparr>)"
    define c2 where "c2 = c1\<lparr>sha_hash := ref_absorb_block (sha_hash ctx) (take 136 msg)\<rparr>"
    have c1: "sha_hash c1 = sha_hash ctx" "length (sha_message c1) = 192"
      using 1(1,3) False by (auto simp: c1_def)
    have blk: "sha3_process_block (sha_hash c1)
        (if IS_ALIGNED_64 p then take 136 msg else take 136 (sha_message c1)) =
      ref_absorb_block (sha_hash ctx) (take 136 msg)"
      using 1(1,2) False by (auto simp: sha3_process_block_ref c1_def write_at_def)
    have step: "update_blocks p ctx msg sz = update_blocks (p + 136) c2 (drop 136 msg) (sz - 136)"
      using False by (subst update_blocks.simps)
        (simp only: BLOCK_SIZE_136 Let_def c1_def [symmetric] blk c2_def not_less if_True)
    have "\<exists>b. length b = 192 \<and> update_blocks (p + 136) c2 (drop 136 msg) (sz - 136) =
      (c2\<lparr>sha_message := b, sha_hash := ref_absorb (sha_hash c2) (take (sz - 136) (drop 136 msg))\<rparr>,
       drop (sz - 136 - (sz - 136) mod 136) (drop 136 msg), (sz - 136) mod 136)"
      by (rule less.IH) (use 1 False c1 in \<open>simp_all add: c2_def\<close>)
    then obtain b where b: "length b = 192" "update_blocks p ctx msg sz =
      (c2\<lparr>sha_message := b, sha_hash := ref_absorb (sha_hash c2) (take (sz - 136) (drop 136 msg))\<rparr>,
       drop (sz - 136 - (sz - 136) mod 136) (drop 136 msg), (sz - 136) mod 136)"
      unfolding step by blast
    have "take sz msg = take 136 msg @ take (sz - 136) (drop 136 msg)"
      using False by (metis le_add_diff_inverse not_le take_add)
    moreover have "length (take 136 msg) = 136" using 1(1) False by simp
    ultimately have h: "ref_absorb (sha_hash c2) (take (sz - 136) (drop 136 msg)) =
        ref_absorb (sha_hash ctx) (take sz msg)"
      by (simp add: c2_def ref_absorb_block_append)
    have m: "(sz - 136) mod 136 = sz mod 136" using False by (simp add: mod_if)
    have d: "drop (sz - 136 - sz mod 136) (drop 136 msg) = drop (sz - sz mod 136) msg"
    proof -
      have "(sz - 136) mod 136 \<le> sz - 136" by (rule mod_less_eq_dividend)
      then have "sz - 136 - sz mod 136 + 136 = sz - sz mod 136" unfolding m using False by linarith
      then show ?thesis by (simp only: drop_drop add.commute)
    qed
    show ?thesis unfolding b(2) h m d using b(1)
      by (intro exI [of _ b]) (auto simp: c2_def c1_def)
  qed
qed

lemma update_tail_ref:
  assumes "sz \<le> length msg" and "length (sha_hash ctx) = 25" and "length (sha_message ctx) = 192"
  shows "\<exists>b. length b = 192 \<and> take (sz mod 136) b = drop (sz - sz mod 136) (take sz msg) \<and>
    update_tail p ctx msg sz =
      ctx\<lparr>sha_message := b, sha_hash := ref_absorb (sha_hash ctx) (take sz msg)\<rparr>"
proof -
  obtain b where b: "length b = 192" "update_blocks p ctx msg sz =
    (ctx\<lparr>sha_message := b, sha_hash := ref_absorb (sha_hash ctx) (take sz msg)\<rparr>,
     drop (sz - sz mod 136) msg, sz mod 136)"
    using update_blocks_ref [OF assms] by blast
  define c where "c = (if sz mod 136 \<noteq> 0
    then write_at 0 (take (sz mod 136) (drop (sz - sz mod 136) msg)) b else b)"
  have t: "take (sz mod 136) (drop (sz - sz mod 136) msg) = drop (sz - sz mod 136) (take sz msg)"
    by (simp add: drop_take)
  have l: "length (drop (sz - sz mod 136) (take sz msg)) = sz mod 136"
    using assms(1) by simp
  have "length c = 192" using b(1) l unfolding c_def t by (simp add: less_imp_le)
  moreover have "take (sz mod 136) c = drop (sz - sz mod 136) (take sz msg)"
    using l unfolding c_def t by (auto simp: write_at_def)
  moreover have "update_tail p ctx msg sz =
      ctx\<lparr>sha_message := c, sha_hash := ref_absorb (sha_hash ctx) (take sz msg)\<rparr>"
    unfolding update_tail_def b(2) c_def by simp
  ultimately show ?thesis by blast
qed

lemma absorbed_init: "absorbed keccak_init []"
  by (simp add: absorbed_def keccak_init_def ref_absorb_short)

lemma absorbed_rest: "unat (word_of_nat (n mod 136) :: u16) = n mod 136"
  by (simp add: unsigned_of_nat take_bit_eq_mod)

lemma absorbedI:
  assumes "length (sha_message ctx) = 192" and "sha_hash ctx = ref_absorb (replicate 25 0) (w @ l)"
    and "length w mod 136 = 0" and "length l < 136" and "take (length l) (sha_message ctx) = l"
    and "unat (sha_rest ctx) = length (w @ l) mod 136"
  shows "absorbed ctx (w @ l)"
proof -
  have "length (w @ l) mod 136 = length l" using assms(3,4) by (simp add: mod_add_eq [symmetric])
  with assms show ?thesis by (simp add: absorbed_def)
qed

lemma absorbedE:
  assumes "absorbed ctx m"
  obtains w l where "m = w @ l" and "length w mod 136 = 0" and "length l < 136"
    and "length (sha_message ctx) = 192" and "take (length l) (sha_message ctx) = l"
    and "sha_hash ctx = ref_absorb (replicate 25 0) w" and "unat (sha_rest ctx) = length l"
proof -
  let ?k = "length m - length m mod 136"
  have len: "length (drop ?k m) = length m mod 136" by simp
  show thesis
    by (rule that [of "take ?k m" "drop ?k m"])
       (use assms absorb_split [OF refl, where m = m] len in \<open>auto simp: absorbed_def\<close>)
qed

lemma absorbed_update_tail:
  assumes "length w mod 136 = 0" and "sz \<le> length msg"
    and "length (sha_message ctx) = 192" and "sha_hash ctx = ref_absorb (replicate 25 0) w"
    and "unat (sha_rest ctx) = (length w + sz) mod 136"
  shows "absorbed (update_tail p ctx msg sz) (w @ take sz msg)"
proof -
  let ?t = "take sz msg" and ?k = "sz - sz mod 136"
  have lh: "length (sha_hash ctx) = 25" by (simp add: assms(4) length_ref_absorb)
  obtain b where b: "length b = 192" "take (sz mod 136) b = drop ?k ?t" "update_tail p ctx msg sz =
      ctx\<lparr>sha_message := b, sha_hash := ref_absorb (sha_hash ctx) ?t\<rparr>"
    using update_tail_ref [OF assms(2) lh assms(3)] by blast
  have len: "length (drop ?k ?t) = sz mod 136" using assms(2) by simp
  have "length (take ?k ?t) = ?k" using assms(2) by simp
  then have "length (take ?k ?t) mod 136 = 0" by (simp only: minus_mod_eq_mult_div) simp
  then have w: "length (w @ take ?k ?t) mod 136 = 0"
    using assms(1) by (metis length_append mod_add_eq add_0 mod_0)
  have eq: "w @ ?t = (w @ take ?k ?t) @ drop ?k ?t" by (simp only: append_assoc append_take_drop_id)
  have "length (w @ ?t) = length w + sz" using assms(2) by simp
  then have rest: "unat (sha_rest ctx) = length ((w @ take ?k ?t) @ drop ?k ?t) mod 136"
    unfolding eq using assms(5) by simp
  have hash: "ref_absorb (sha_hash ctx) ?t = ref_absorb (replicate 25 0) ((w @ take ?k ?t) @ drop ?k ?t)"
    unfolding eq [symmetric] assms(4) by (rule ref_absorb_append [OF assms(1), symmetric])
  have "absorbed (update_tail p ctx msg sz) ((w @ take ?k ?t) @ drop ?k ?t)"
    by (rule absorbedI [OF _ _ w]) (simp_all only: b len, simp_all add: b hash rest)
  then show ?thesis unfolding eq .
qed

lemma absorbed_update:
  assumes "absorbed ctx m" and "unat sz \<le> length msg"
  shows "absorbed (keccak_update p ctx msg sz) (m @ take (unat sz) msg)"
proof -
  obtain w l where m: "m = w @ l" and w: "length w mod 136 = 0" and l: "length l < 136"
    and ctx: "length (sha_message ctx) = 192" "take (length l) (sha_message ctx) = l"
      "sha_hash ctx = ref_absorb (replicate 25 0) w" "unat (sha_rest ctx) = length l"
    using assms(1) by (rule absorbedE)
  let ?n = "unat sz" and ?left = "136 - length l"
  define r16 :: u16 where "r16 = word_of_nat ((length l + ?n) mod 136)"
  let ?c = "ctx\<lparr>sha_rest := r16\<rparr>"
  have lh: "length (sha_hash ctx) = 25" by (simp add: ctx(3) length_ref_absorb)
  have "(length l + ?n) mod 136 = (length w + (length l + ?n)) mod 136"
    using w by (metis add.commute mod_add_right_eq add_0_right)
  then have rest: "unat r16 = (length w + (length l + ?n)) mod 136"
    by (simp only: r16_def absorbed_rest)
  consider "l = []" | "l \<noteq> []" "?n < ?left" | "l \<noteq> []" "?left \<le> ?n" by linarith
  then show ?thesis
  proof cases
    case 1
    then have "keccak_update p ctx msg sz = update_tail p ?c msg ?n"
      by (simp add: keccak_update_def ctx(4) BLOCK_SIZE_136 Let_def r16_def)
    moreover have "absorbed (update_tail p ?c msg ?n) (w @ take ?n msg)"
      using 1 w assms(2) ctx rest by (intro absorbed_update_tail) simp_all
    ultimately show ?thesis using m 1 by simp
  next
    case 2
    let ?d = "?c\<lparr>sha_message := write_at (length l) (take ?n msg) (sha_message ctx)\<rparr>"
    have "keccak_update p ctx msg sz = ?d"
      using 2 by (simp add: keccak_update_def ctx(4) BLOCK_SIZE_136 Let_def r16_def)
    moreover have "absorbed ?d (w @ (l @ take ?n msg))"
      using 2 w assms(2) ctx rest
      by (intro absorbedI)
         (simp_all add: ref_absorb_append ref_absorb_short, simp_all add: write_at_def add.assoc)
    ultimately show ?thesis using m by simp
  next
    case 3
    let ?b = "l @ take ?left msg"
    let ?d = "?c\<lparr>sha_message := write_at (length l) (take ?left msg) (sha_message ctx)\<rparr>"
    let ?e = "?d\<lparr>sha_hash := sha3_process_block (sha_hash ?d) (sha_message ?d)\<rparr>"
    have b: "length ?b = 136" "take 136 (sha_message ?d) = ?b"
      using 3 assms(2) l ctx(1,2) by (simp_all add: write_at_def)
    have "sha_hash ?e = ref_absorb_block (ref_absorb (replicate 25 0) w) ?b"
      using b(2) ctx(3) lh by (simp add: sha3_process_block_ref)
    also have "\<dots> = ref_absorb (ref_absorb (replicate 25 0) w) (?b @ [])"
      by (subst ref_absorb_block_append [OF b(1)]) (simp add: ref_absorb_short)
    also have "\<dots> = ref_absorb (replicate 25 0) (w @ ?b)" by (simp add: ref_absorb_append [OF w])
    finally have h: "sha_hash ?e = ref_absorb (replicate 25 0) (w @ ?b)" .
    have wb: "length (w @ ?b) mod 136 = 0" using w b(1) by simp
    have "length (w @ ?b) + (?n - ?left) = length w + (length l + ?n)" using b(1) 3 l by simp
    then have "absorbed (update_tail (p + ?left) ?e (drop ?left msg) (?n - ?left))
        ((w @ ?b) @ take (?n - ?left) (drop ?left msg))"
      using wb h 3 assms(2) ctx(1) l rest
      by (intro absorbed_update_tail) (simp_all add: ac_simps)
    moreover have "keccak_update p ctx msg sz = update_tail (p + ?left) ?e (drop ?left msg) (?n - ?left)"
      using 3 by (simp add: keccak_update_def ctx(4) BLOCK_SIZE_136 Let_def r16_def)
    moreover have "take ?n msg = take ?left msg @ take (?n - ?left) (drop ?left msg)"
      using 3 by (metis le_add_diff_inverse take_add)
    ultimately show ?thesis using m by simp
  qed
qed

lemma keccak_final_ref:
  assumes "absorbed ctx m"
  shows "keccak_final ctx = keccak_256 m"
proof -
  obtain w l where m: "m = w @ l" and w: "length w mod 136 = 0" and l: "length l < 136"
    and ctx: "length (sha_message ctx) = 192" "take (length l) (sha_message ctx) = l"
      "sha_hash ctx = ref_absorb (replicate 25 0) w" "unat (sha_rest ctx) = length l"
    using assms by (rule absorbedE)
  let ?q = "136 - length l"
  define pad where "pad = (if ?q = 1 then [0x81] else [0x01] @ replicate (?q - 2) 0 @ [0x80 :: byte])"
  define mb where "mb = write_at (length l) (replicate ?q 0) (sha_message ctx)"
  define mc where "mc = mb[length l := mb ! length l OR 1]"
  define md where "md = mc[135 := mc ! 135 OR 0x80]"
  have lp: "length (l @ pad) = 136" using l by (auto simp: pad_def)
  have lmb: "length mb = 192" using ctx(1) l by (simp add: mb_def)
  have tmb: "take 136 mb = l @ replicate ?q 0" using ctx(1,2) l by (simp add: mb_def write_at_def)
  have "mb ! length l = take 136 mb ! length l" using l by simp
  also have "\<dots> = 0" unfolding tmb using l by (simp add: nth_append)
  finally have "take 136 mc = (l @ replicate ?q 0)[length l := 1]"
    unfolding mc_def take_update_swap tmb by simp
  moreover have "mc ! 135 = take 136 mc ! 135" by simp
  ultimately have "take 136 md =
      (l @ replicate ?q 0)[length l := 1, 135 := (l @ replicate ?q 0)[length l := 1] ! 135 OR 0x80]"
    unfolding md_def take_update_swap by simp
  also have "\<dots> = l @ pad"
  proof (cases "?q = 1")
    case True
    then have "length l = 135" by simp
    then show ?thesis by (simp add: pad_def list_update_append nth_append)
  next
    case False
    then have "replicate ?q (0::byte) = [0] @ replicate (?q - 2) 0 @ [0]"
      using l by (intro nth_equalityI) (auto simp: nth_append nth_Cons')
    moreover have "135 - length l = Suc (?q - 2)" using l False by simp
    ultimately show ?thesis using False l
      by (simp add: pad_def list_update_append nth_append)
  qed
  finally have blk: "take 136 md = l @ pad" .
  have lm: "length m mod 136 = length l" using m w l by (simp add: mod_add_eq [symmetric])
  have pad: "ref_pad m = w @ (l @ pad)" unfolding ref_pad_def pad_def BLOCK_SIZE_136 lm Let_def by (simp add: m)
  have "sha3_process_block (sha_hash ctx) md = ref_absorb_block (ref_absorb (replicate 25 0) w) (l @ pad)"
    using blk ctx(3) by (simp add: sha3_process_block_ref length_ref_absorb)
  also have "\<dots> = ref_absorb (ref_absorb (replicate 25 0) w) ((l @ pad) @ [])"
    by (subst ref_absorb_block_append [OF lp]) (simp add: ref_absorb_short)
  also have "\<dots> = ref_absorb (replicate 25 0) (ref_pad m)" by (simp add: ref_absorb_append [OF w] pad)
  finally show ?thesis
    by (simp add: keccak_final_def keccak_256_def BLOCK_SIZE_136 ctx(4) Let_def mb_def mc_def md_def)
qed

lemma absorbed_chunks:
  "(\<And>p c. (p, c) \<in> set cs \<Longrightarrow> length c < 2 ^ 16) \<Longrightarrow> absorbed ctx m \<Longrightarrow>
    absorbed (update_chunks cs ctx) (m @ concat (map snd cs))"
proof (induction cs arbitrary: ctx m)
  case (Cons pc cs)
  obtain p c where pc: "pc = (p, c)" by (cases pc)
  have "length c < 2 ^ 16" using Cons.prems(1) pc by auto
  then have "unat (word_of_nat (length c) :: u16) = length c"
    by (simp add: unsigned_of_nat take_bit_eq_mod)
  then have "absorbed (keccak_update p ctx c (word_of_nat (length c))) (m @ c)"
    using absorbed_update [OF Cons.prems(2), of "word_of_nat (length c)" c p] by simp
  moreover have "\<And>p c. (p, c) \<in> set cs \<Longrightarrow> length c < 2 ^ 16"
    using Cons.prems(1) by (meson list.set_intros(2))
  ultimately have "absorbed (update_chunks cs (keccak_update p ctx c (word_of_nat (length c))))
      ((m @ c) @ concat (map snd cs))"
    by (intro Cons.IH)
  then show ?case by (simp add: pc update_chunks_def)
qed (simp add: update_chunks_def)

lemma Keccak256_at_ref: "Keccak256_at p data = keccak_256 (take (length data mod 2 ^ 16) data)"
proof -
  have n: "unat (word_of_nat (length data) :: u16) = length data mod 2 ^ 16"
    by (simp add: unsigned_of_nat take_bit_eq_mod)
  then have "unat (word_of_nat (length data) :: u16) \<le> length data" by simp
  from absorbed_update [OF absorbed_init this, of p] show ?thesis
    by (simp add: Keccak256_at_def keccak_final_ref n)
qed

lemma length_bytes_of_lane [simp]: "length (bytes_of_lane w) = 8"
  by (simp add: bytes_of_lane_def)

lemma length_keccak_256 [simp]: "length (keccak_256 m) = 32"
proof -
  let ?h = "ref_absorb (replicate 25 0) (ref_pad m)"
  have "length (concat (map bytes_of_lane h)) = 8 * length h" for h
    by (induction h) simp_all
  then have "length (concat (map bytes_of_lane ?h)) = 200" by (simp add: length_ref_absorb)
  then show ?thesis by (simp add: keccak_256_def)
qed

lemma length_Keccak256 [simp]: "length (Keccak256 data) = 32"
  by (simp add: Keccak256_def Keccak256_at_ref)

section \<open>Properties\<close>

text \<open>
  Claim C20.  Hashing is streaming: after any sequence of chunks, each shorter than
  \<open>2 ^ 16\<close> bytes and at any address, \<open>keccak_final\<close> returns the reference Keccak-256
  digest of the concatenated chunks.
\<close>

theorem keccak_update_streams:
  assumes "\<forall>(p, c) \<in> set cs. length c < 2 ^ 16"
  shows "keccak_final (update_chunks cs keccak_init) = keccak_256 (concat (map snd cs))"
proof -
  have "absorbed (update_chunks cs keccak_init) ([] @ concat (map snd cs))"
    using assms by (intro absorbed_chunks absorbed_init) auto
  then show ?thesis by (simp add: keccak_final_ref)
qed

theorem keccak_update_streams_witness:
  "keccak_final (update_chunks [(0, [1]), (3, [2, 3])] keccak_init) = keccak_256 [1, 2, 3]"
  using keccak_update_streams [of "[(0, [1]), (3, [2, 3])]"] by simp

text \<open>
  Claim C19.  The class hashes its argument with the reference Keccak-256, whatever the alignment of
  the argument, but only its first \<open>n mod 2 ^ 16\<close> bytes when it has \<open>n\<close>.
\<close>

theorem Keccak256_reference:
  "Keccak256_at p data = keccak_256 (take (length data mod 2 ^ 16) data)"
  by (rule Keccak256_at_ref)

end
