(* ===== verification/Util.thy ===== *)
theory Util
  imports Keccak
begin

text \<open>
  The conversions of \<open>eEVM/include/eEVM/util.h\<close>, \<open>eEVM/src/util.cpp\<close> and of the
  string and byte functions of \<open>intx.hpp\<close> they call: big-endian loads and stores of 256-bit
  integers, hexadecimal printing and parsing, checksummed addresses and the decoding of revert
  reasons.  Functions that throw return a sum whose left side is the exception.  The theorems are the
  round trips between the printed and the parsed forms and between integers and bytes.

  \<open>std::string\<close> values are lists of characters; \<open>c_str\<close> is the prefix before the first
  null character, which is all that the C functions see.  \<open>strtoull16\<close> is the C library
  function \<open>strtoull\<close> (and \<open>strtoul\<close>) with base 16.
\<close>

section \<open>Big-endian integers\<close>

definition be_load :: "bytes \<Rightarrow> u256" where
  "be_load bs = foldl (\<lambda>w b. w * 256 + ucast b) 0 bs"

definition from_big_endian :: "bytes \<Rightarrow> exn + u256" where
  "from_big_endian bs =
    (let size = length bs
     in if size = 32 then Inr (be_load bs)
        else if size > 32 then
          Inl (StdException LogicError ''Calling from_big_endian with oversized array'')
        else let tmp = replicate 32 0; offset = 32 - size
             in Inr (be_load (write_at offset bs tmp)))"

definition to_big_endian :: "u256 \<Rightarrow> bytes" where
  "to_big_endian v = map (\<lambda>i. ucast (drop_bit (8 * (31 - i)) v)) [0..<32]"

definition to_uint256_bytes :: "bytes \<Rightarrow> bool \<Rightarrow> exn + u256" where
  "to_uint256_bytes data needHash =
    (if needHash then from_big_endian (Keccak256 data) else from_big_endian data)"

section \<open>Characters\<close>

abbreviation ccode :: "char \<Rightarrow> nat" where
  "ccode c \<equiv> of_char c"

definition c_str :: "string \<Rightarrow> string" where
  "c_str s = takeWhile (\<lambda>c. ccode c \<noteq> 0) s"

definition toupper :: "char \<Rightarrow> char" where
  "toupper c = (if 97 \<le> ccode c \<and> ccode c \<le> 122 then char_of (ccode c - 32) else c)"

definition tolower :: "char \<Rightarrow> char" where
  "tolower c = (if 65 \<le> ccode c \<and> ccode c \<le> 90 then char_of (ccode c + 32) else c)"

definition isspace :: "char \<Rightarrow> bool" where
  "isspace c \<longleftrightarrow> ccode c = 32 \<or> (9 \<le> ccode c \<and> ccode c \<le> 13)"

definition from_dec_digit :: "char \<Rightarrow> exn + nat" where
  "from_dec_digit c =
    (if ccode c < 48 \<or> ccode c > 57 then Inl (StdException InvalidArgument ''invalid digit'')
     else Inr (ccode c - 48))"

definition from_hex_digit :: "char \<Rightarrow> exn + nat" where
  "from_hex_digit c =
    (if 97 \<le> ccode c \<and> ccode c \<le> 102 then Inr (ccode c - 87)
     else if 65 \<le> ccode c \<and> ccode c \<le> 70 then Inr (ccode c - 55)
     else from_dec_digit c)"

definition digit_char :: "nat \<Rightarrow> char" where
  "digit_char d = (if d < 10 then char_of (48 + d) else char_of (97 + d - 10))"

section \<open>Printing and parsing of 256-bit integers\<close>

text \<open>
  The digit loop of \<open>intx::to_string\<close>, which pushes each digit at the end of the string and
  reverses the string afterwards.  The caller has refused a base below 2.
\<close>

function digits_loop :: "u256 \<Rightarrow> u256 \<Rightarrow> string \<Rightarrow> string" where
  "digits_loop base x s =
    (if x = 0 \<or> base \<le> 1 then rev s
     else digits_loop base (x div base) (s @ [digit_char (unat (x mod base))]))"
  by pat_completeness auto
termination
proof (relation "measure (\<lambda>(_, x, _). unat x)")
  fix base x :: u256 and s :: string
  assume "\<not> (x = 0 \<or> base \<le> 1)"
  then have "0 < unat x" and "1 < unat base"
    by (simp_all add: word_le_nat_alt not_le unat_gt_0)
  then show "((base, x div base, s @ [digit_char (unat (x mod base))]), base, x, s)
      \<in> measure (\<lambda>(_, x, _). unat x)"
    by (simp add: unat_div)
qed simp

declare digits_loop.simps [simp del]

definition intx_to_string :: "u256 \<Rightarrow> nat \<Rightarrow> exn + string" where
  "intx_to_string x base =
    (if base < 2 \<or> base > 36 then Inl (StdException InvalidArgument ''invalid base'')
     else if x = 0 then Inr ''0''
     else Inr (digits_loop (word_of_nat base) x []))"

definition intx_hex :: "u256 \<Rightarrow> string" where
  "intx_hex x = (if x = 0 then ''0'' else digits_loop 16 x [])"

definition DIGITS10 :: nat where
  "DIGITS10 = 77"

fun from_hex_loop :: "string \<Rightarrow> string \<Rightarrow> nat \<Rightarrow> u256 \<Rightarrow> exn + u256" where
  "from_hex_loop str [] num_digits x = Inr x"
| "from_hex_loop str (c # s) num_digits x =
    (if num_digits + 1 > 64 then Inl (StdException OutOfRange str)
     else case from_hex_digit c of
       Inl e \<Rightarrow> Inl e
     | Inr d \<Rightarrow> from_hex_loop str s (num_digits + 1) (push_bit 4 x OR word_of_nat d))"

fun from_dec_loop :: "string \<Rightarrow> string \<Rightarrow> nat \<Rightarrow> u256 \<Rightarrow> exn + u256" where
  "from_dec_loop str [] num_digits x = Inr x"
| "from_dec_loop str (c # s) num_digits x =
    (if num_digits > DIGITS10 then Inl (StdException OutOfRange str)
     else case from_dec_digit c of
       Inl e \<Rightarrow> Inl e
     | Inr d \<Rightarrow>
         let x = x * 10 + word_of_nat d
         in if x < word_of_nat d then Inl (StdException OutOfRange str)
            else from_dec_loop str s (num_digits + 1) x)"

definition from_string :: "string \<Rightarrow> exn + u256" where
  "from_string str =
    (let s = c_str str
     in if take 2 s = ''0x'' then from_hex_loop s (drop 2 s) 0 0
        else from_dec_loop s s 0 0)"

definition to_uint256 :: "string \<Rightarrow> exn + u256" where
  "to_uint256 s = from_string s"

section \<open>Hexadecimal strings\<close>

definition hex_byte :: "byte \<Rightarrow> string" where
  "hex_byte b = [digit_char (unat b div 16), digit_char (unat b mod 16)]"

definition to_hex_string_bytes :: "bytes \<Rightarrow> string" where
  "to_hex_string_bytes bs = ''0x'' @ concat (map hex_byte bs)"

definition to_hex_string :: "u256 \<Rightarrow> string" where
  "to_hex_string v = ''0x'' @ intx_hex v"

definition to_hex_string_u64 :: "u64 \<Rightarrow> string" where
  "to_hex_string_u64 v = ''0x'' @ intx_hex (ucast v)"

definition to_hex_string_fixed :: "u256 \<Rightarrow> nat \<Rightarrow> string" where
  "to_hex_string_fixed v min_hex_chars =
    (let h = intx_hex v in ''0x'' @ replicate (min_hex_chars - length h) CHR ''0'' @ h)"

definition address_to_hex_string :: "u256 \<Rightarrow> string" where
  "address_to_hex_string v = to_hex_string_fixed v 40"

definition to_lower_hex_string :: "u256 \<Rightarrow> string" where
  "to_lower_hex_string v = map tolower (to_hex_string v)"

definition hex_str :: "bytes \<Rightarrow> string" where
  "hex_str h = to_hex_string_bytes h"

definition bytes_of_string :: "string \<Rightarrow> bytes" where
  "bytes_of_string s = map (\<lambda>c. word_of_nat (ccode c)) s"

definition string_of_bytes :: "bytes \<Rightarrow> string" where
  "string_of_bytes bs = map (\<lambda>b. char_of (unat b)) bs"

definition checksum_char :: "bytes \<Rightarrow> nat \<Rightarrow> char \<Rightarrow> char" where
  "checksum_char h i c =
    (if 97 \<le> ccode c \<and> ccode c \<le> 102 then
       if h ! (i div 2) AND (if i mod 2 = 0 then 0x80 else 0x08) \<noteq> 0 then toupper c else tolower c
     else c)"

definition to_checksum_address :: "u256 \<Rightarrow> string" where
  "to_checksum_address a =
    (let s = address_to_hex_string a;
         h = from_skip (bytes_of_string s) 2
     in fold (\<lambda>i s. s[i + 2 := checksum_char h i (s ! (i + 2))]) [0..<length s - 2] s)"

definition is_checksum_address :: "string \<Rightarrow> exn + bool" where
  "is_checksum_address s =
    (case to_uint256 s of Inl e \<Rightarrow> Inl e | Inr a \<Rightarrow> Inr (to_checksum_address a = s))"

section \<open>Byte strings from hexadecimal strings\<close>

definition strip :: "string \<Rightarrow> string" where
  "strip s = (if length s \<ge> 2 \<and> s ! 1 = CHR ''x'' then drop 2 s else s)"

definition is_hex :: "char \<Rightarrow> bool" where
  "is_hex c \<longleftrightarrow> (case from_hex_digit c of Inl _ \<Rightarrow> False | Inr _ \<Rightarrow> True)"

definition hex_value :: "char \<Rightarrow> nat" where
  "hex_value c = (case from_hex_digit c of Inl _ \<Rightarrow> 0 | Inr d \<Rightarrow> d)"

definition strtoull16 :: "string \<Rightarrow> u64" where
  "strtoull16 str =
    (let s = dropWhile isspace (c_str str);
         neg = (take 1 s = ''-'');
         s = (if take 1 s = ''-'' \<or> take 1 s = ''+'' then drop 1 s else s);
         s = (if length s \<ge> 3 \<and> s ! 0 = CHR ''0'' \<and> (s ! 1 = CHR ''x'' \<or> s ! 1 = CHR ''X'') \<and> is_hex (s ! 2)
              then drop 2 s else s);
         v = foldl (\<lambda>a c. a * 16 + hex_value c) 0 (takeWhile is_hex s)
     in if v \<ge> 2 ^ 64 then - 1 else if neg then - word_of_nat v else word_of_nat v)"

definition to_uint64 :: "string \<Rightarrow> u64" where
  "to_uint64 s = strtoull16 s"

definition to_bytes :: "string \<Rightarrow> bytes" where
  "to_bytes str =
    (let s = strip str;
         byte_len = (length s + 1) div 2;
         v = replicate byte_len 0;
         n = length s mod 2;
         v = (if n \<noteq> 0 then v[0 := ucast (strtoull16 (take 1 s))] else v)
     in fold (\<lambda>i v. v[i := ucast (strtoull16 (segment (n + 2 * (i - n)) 2 s))]) [n..<byte_len] v)"

text \<open>\<open>Keccak256::from_hex\<close>; \<open>std::string::substr\<close> throws when it starts past the end.\<close>

definition Keccak256_from_hex :: "string \<Rightarrow> exn + bytes" where
  "Keccak256_from_hex str =
    (let s = strip str
     in if s = [] then Inr (replicate 32 0)
        else fold (\<lambda>i r. case r of Inl e \<Rightarrow> Inl e | Inr d \<Rightarrow>
               if 2 * i > length s then Inl (StdException OutOfRange ''basic_string::substr'')
               else Inr (d[i := ucast (strtoull16 (segment (2 * i) 2 s))]))
             [0..<32] (Inr (replicate 32 0)))"

definition Keccak256_from_bytes :: "bytes \<Rightarrow> exn + bytes" where
  "Keccak256_from_bytes data =
    (if length data > 32 then Inl (UndefinedBehaviour ''copy past the end of the digest'')
     else Inr (write_at 0 data (replicate 32 0)))"

definition HashBytes :: "bytes \<Rightarrow> bytes" where
  "HashBytes hash = write_at 0 hash (replicate 32 0)"

section \<open>Revert reasons\<close>

definition parse_revert :: "bytes \<Rightarrow> exn + string" where
  "parse_revert bin =
    (if bin = [] then Inr ''''
     else if length bin < 36 then Inl (UndefinedBehaviour ''iterator past the end of the output'')
     else let src = drop 36 bin
       in if length src < 32 then Inl (UndefinedBehaviour ''read past the end of the output'')
          else let offset = unat (ucast (be_load (take 32 src)) :: u64)
            in if length src < 32 + offset
               then Inl (UndefinedBehaviour ''iterator past the end of the output'')
               else Inr (string_of_bytes (segment 32 offset src)))"

section \<open>Digits of a number\<close>

text \<open>The hexadecimal digits of a number, most significant first, and the number they denote.\<close>

fun hexdigs :: "nat \<Rightarrow> nat list" where
  "hexdigs n = (if n = 0 then [] else hexdigs (n div 16) @ [n mod 16])"

declare hexdigs.simps [simp del]


definition hex_number :: "nat list \<Rightarrow> nat" where
  "hex_number ds = foldl (\<lambda>a d. a * 16 + d) 0 ds"

definition hex_chars :: "u256 \<Rightarrow> nat list" where
  "hex_chars v = (if v = 0 then [0] else hexdigs (unat v))"

text \<open>Strings that spell a number in hexadecimal digits of either case.\<close>

definition spells :: "string \<Rightarrow> u256 \<Rightarrow> bool" where
  "spells s v \<longleftrightarrow> (\<exists>cs. s = ''0x'' @ cs \<and> list_all is_hex cs \<and> length cs \<le> 64 \<and>
    hex_number (map hex_value cs) = unat v)"

section \<open>Big-endian integers and bytes\<close>

lemma be_load_nat: "be_load bs = word_of_nat (nat_of_be bs)"
proof (induction bs rule: rev_induct)
  case (snoc b bs)
  have "ucast b = (word_of_nat (unat b) :: u256)" by simp
  with snoc show ?case by (simp add: be_load_def)
qed (simp add: be_load_def)

lemma unat_be_load:
  assumes "length bs \<le> 32"
  shows "unat (be_load bs) = nat_of_be bs"
proof -
  have "(256::nat) ^ length bs \<le> 256 ^ 32" using assms by (rule power_increasing) simp
  with nat_of_be_bound [of bs] have "nat_of_be bs < 256 ^ 32" by (rule less_le_trans)
  then show ?thesis by (simp add: be_load_nat unsigned_of_nat take_bit_eq_mod)
qed

lemma to_big_endian_nat: "to_big_endian v = be_of_nat 32 (unat v)"
  by (simp add: to_big_endian_def be_of_nat_map ucast_drop_bit_byte)

lemma length_to_big_endian [simp]: "length (to_big_endian v) = 32"
  by (simp add: to_big_endian_def)

lemma nat_of_be_to_big_endian [simp]: "nat_of_be (to_big_endian v) = unat v"
proof -
  have "unat v < 256 ^ 32" using unsigned_less [of v] by simp
  then show ?thesis by (simp add: to_big_endian_nat nat_of_be_of_nat)
qed

lemma be_load_to_big_endian [simp]: "be_load (to_big_endian v) = v"
  by (simp add: be_load_nat)

lemma to_big_endian_be_load:
  assumes "length bs = 32" shows "to_big_endian (be_load bs) = bs"
  using assms be_of_nat_of_be [of bs] by (simp add: to_big_endian_nat unat_be_load)

lemma from_big_endian_load:
  assumes "length bs \<le> 32" shows "from_big_endian bs = Inr (be_load bs)"
proof -
  have "write_at (32 - length bs) bs (replicate 32 0) = replicate (32 - length bs) 0 @ bs"
    using assms by (simp add: write_at_def)
  moreover have "be_load (replicate n 0 @ bs) = be_load bs" for n
    by (simp add: be_load_nat nat_of_be_append)
  ultimately show ?thesis using assms by (simp add: from_big_endian_def Let_def)
qed
section \<open>Hexadecimal digits\<close>

lemma hexdigs_0 [simp]: "hexdigs 0 = []"
  by (simp add: hexdigs.simps)

lemma hex_number_hexdigs: "hex_number (hexdigs n) = n"
proof (induction n rule: hexdigs.induct)
  case (1 n)
  then show ?case by (cases "n = 0") (simp_all add: hexdigs.simps [of n] hex_number_def)
qed

lemma hexdigs_less: "d \<in> set (hexdigs n) \<Longrightarrow> d < 16"
proof (induction n rule: hexdigs.induct)
  case (1 n)
  then show ?case by (cases "n = 0") (auto simp: hexdigs.simps [of n])
qed

lemma length_hexdigs: "n < 16 ^ k \<Longrightarrow> length (hexdigs n) \<le> k"
proof (induction n arbitrary: k rule: hexdigs.induct)
  case (1 n)
  show ?case
  proof (cases "n = 0")
    case True
    then show ?thesis by (simp add: hexdigs.simps [of n])
  next
    case False
    then obtain k' where k: "k = Suc k'" using 1(2) by (cases k) auto
    then have "n div 16 < 16 ^ k'" using 1(2) by (simp add: less_mult_imp_div_less mult.commute)
    then show ?thesis using 1(1) [OF False] False k by (simp add: hexdigs.simps [of n])
  qed
qed

lemma digits_loop_hexdigs: "digits_loop 16 x s = map digit_char (hexdigs (unat x)) @ rev s"
proof (induction "unat x" arbitrary: x s rule: less_induct)
  case less
  show ?case
  proof (cases "x = 0")
    case True
    then show ?thesis by (simp add: digits_loop.simps hexdigs.simps)
  next
    case False
    then have "unat (x div 16) < unat x" by (simp add: unat_div unat_gt_0)
    note IH = less [OF this]
    have "unat (x div 16) = unat x div 16" "unat (x mod 16) = unat x mod 16"
      by (simp_all add: unat_div unat_mod)
    moreover have "unat x \<noteq> 0" using False by (simp add: unat_eq_zero)
    ultimately show ?thesis using False IH
      by (subst digits_loop.simps) (simp add: hexdigs.simps [of "unat x"] word_le_nat_alt)
  qed
qed

lemma char_of_48: "char_of (48::nat) = CHR ''0''"
  by (simp add: char_of_eq_iff)

lemma digit_char_hex:
  assumes "d < 16"
  shows "from_hex_digit (digit_char d) = Inr d" and "ccode (digit_char d) \<noteq> 0"
    and "\<not> isspace (digit_char d)"
    and "digit_char d \<notin> {CHR ''-'', CHR ''+'', CHR ''x'', CHR ''X''}"
proof -
  have "[0..<16] = [0, 1, 2, 3, 4, 5, 6, 7, 8, 9, 10, 11, 12, 13, 14, 15]" by (simp add: upt_rec)
  then have "{..<16} = set [0, 1, 2, 3, 4, 5, 6, 7, 8, 9, 10, 11, 12, 13, 14, 15::nat]"
    by (metis atLeast_upt)
  with assms have d: "d \<in> set [0, 1, 2, 3, 4, 5, 6, 7, 8, 9, 10, 11, 12, 13, 14, 15]" by blast
  note defs = digit_char_def from_hex_digit_def from_dec_digit_def isspace_def
  show "from_hex_digit (digit_char d) = Inr d" using d by (auto simp: defs)
  show "ccode (digit_char d) \<noteq> 0" using d by (auto simp: defs)
  show "\<not> isspace (digit_char d)" using d by (auto simp: defs)
  show "digit_char d \<notin> {CHR ''-'', CHR ''+'', CHR ''x'', CHR ''X''}" using d by (auto simp: defs char_of_eq_iff)
qed

lemma from_hex_digit_less: "from_hex_digit c = Inr d \<Longrightarrow> d < 16"
  by (auto simp: from_hex_digit_def from_dec_digit_def split: if_splits)

lemma hex_step: "d < 16 \<Longrightarrow> push_bit 4 (x::u256) OR word_of_nat d = x * 16 + word_of_nat d"
proof -
  assume "d < 16"
  have "push_bit 4 x AND word_of_nat d = 0"
  proof (rule bit_word_eqI)
    fix n
    have "\<not> bit (word_of_nat d :: u256) n" if "4 \<le> n"
    proof -
      have "d < 2 ^ n" using \<open>d < 16\<close> power_increasing [OF that, of "2::nat"] by simp
      then have "\<not> bit d n" by (simp add: bit_iff_odd)
      then show ?thesis by (simp add: bit_of_nat_iff)
    qed
    then show "bit (push_bit 4 x AND word_of_nat d) n = bit (0::u256) n"
      by (auto simp: bit_and_iff bit_push_bit_iff)
  qed
  then have "push_bit 4 x OR word_of_nat d = push_bit 4 x + word_of_nat d"
    by (simp add: disjunctive_add_eq_or)
  then show ?thesis by (simp add: push_bit_eq_mult)
qed

lemma from_hex_loop_digits:
  "(\<And>c. c \<in> set cs \<Longrightarrow> is_hex c) \<Longrightarrow> n + length cs \<le> 64 \<Longrightarrow>
    from_hex_loop str cs n x = Inr (foldl (\<lambda>a c. a * 16 + word_of_nat (hex_value c)) x cs)"
proof (induction cs arbitrary: n x)
  case (Cons c cs)
  from Cons.prems(1) have "is_hex c" by simp
  then obtain d where d: "from_hex_digit c = Inr d"
    by (auto simp: is_hex_def split: sum.splits)
  then have "push_bit 4 x OR word_of_nat d = x * 16 + word_of_nat d"
    by (intro hex_step from_hex_digit_less)
  with Cons d show ?case by (simp add: hex_value_def)
qed simp

lemma foldl_hex_word:
  "foldl (\<lambda>a c. a * 16 + word_of_nat (hex_value c)) (word_of_nat x :: u256) cs =
    word_of_nat (foldl (\<lambda>a d. a * 16 + d) x (map hex_value cs))"
proof (induction cs arbitrary: x)
  case (Cons c cs)
  have "(word_of_nat x * 16 + word_of_nat (hex_value c) :: u256) = word_of_nat (x * 16 + hex_value c)" by simp
  then show ?case using Cons [of "x * 16 + hex_value c"] by simp
qed simp
lemma is_hex_digit_char: "d < 16 \<Longrightarrow> is_hex (digit_char d)" "d < 16 \<Longrightarrow> hex_value (digit_char d) = d"
  by (simp_all add: is_hex_def hex_value_def digit_char_hex)

lemma is_hex_nonzero: "is_hex c \<Longrightarrow> ccode c \<noteq> 0"
  by (auto simp: is_hex_def from_hex_digit_def from_dec_digit_def split: if_splits sum.splits)

lemma c_str_hex: "(\<And>c. c \<in> set cs \<Longrightarrow> is_hex c) \<Longrightarrow> c_str (''0x'' @ cs) = ''0x'' @ cs"
  unfolding c_str_def takeWhile_eq_all_conv using is_hex_nonzero by auto

lemma from_string_hex:
  assumes "\<And>c. c \<in> set cs \<Longrightarrow> is_hex c" and "length cs \<le> 64"
  shows "from_string (''0x'' @ cs) = Inr (word_of_nat (hex_number (map hex_value cs)))"
  using assms c_str_hex [of cs] from_hex_loop_digits [of cs 0 "''0x'' @ cs" 0] foldl_hex_word [of 0 cs]
  by (simp add: from_string_def hex_number_def)

lemma intx_hex_chars: "intx_hex v = map digit_char (hex_chars v)"
  by (simp add: intx_hex_def hex_chars_def digits_loop_hexdigs digit_char_def char_of_48)

lemma hex_chars_bounds:
  shows "d \<in> set (hex_chars v) \<Longrightarrow> d < 16" and "length (hex_chars v) \<le> 64"
    and "hex_number (hex_chars v) = unat v"
proof -
  show "d \<in> set (hex_chars v) \<Longrightarrow> d < 16"
    by (auto simp: hex_chars_def hexdigs_less split: if_splits)
  have "unat v < 16 ^ 64" using unsigned_less [of v] by simp
  then show "length (hex_chars v) \<le> 64" by (simp add: hex_chars_def length_hexdigs)
  show "hex_number (hex_chars v) = unat v"
    by (simp add: hex_chars_def hex_number_hexdigs) (simp add: hex_number_def)
qed

lemma hex_number_zeros: "hex_number (replicate n 0 @ ds) = hex_number ds"
  by (simp add: hex_number_def, induction n, simp_all)

lemma spells_from_string: "spells s v \<Longrightarrow> from_string s = Inr v"
  using from_string_hex by (fastforce simp: spells_def list_all_iff)

lemma spells_fixed:
  assumes "n \<le> 64" shows "spells (to_hex_string_fixed v n) v"
proof -
  let ?ds = "replicate (n - length (hex_chars v)) 0 @ hex_chars v"
  have ds: "\<And>d. d \<in> set ?ds \<Longrightarrow> d < 16" using hex_chars_bounds(1) by fastforce
  have "to_hex_string_fixed v n = ''0x'' @ map digit_char ?ds"
    by (simp add: to_hex_string_fixed_def intx_hex_chars Let_def digit_char_def char_of_48)
  moreover have "map hex_value (map digit_char ?ds) = ?ds"
    using ds by (auto intro!: map_idI simp: is_hex_digit_char)
  moreover have "list_all is_hex (map digit_char ?ds)"
    using ds is_hex_digit_char(1) unfolding list_all_iff set_map by blast
  moreover have "length ?ds \<le> 64" using assms hex_chars_bounds(2) [of v] by simp
  ultimately show ?thesis unfolding spells_def
    by (intro exI [of _ "map digit_char ?ds"]) (simp add: hex_number_zeros hex_chars_bounds(3) is_hex_digit_char(2))
qed

lemma to_hex_string_as_fixed: "to_hex_string v = to_hex_string_fixed v 0"
  by (simp add: to_hex_string_def to_hex_string_fixed_def)
lemma fold_update_shift:
  "n + k \<le> length s \<Longrightarrow>
    fold (\<lambda>i s. s[i + k := f i (s ! (i + k))]) [0..<n] s =
      take k s @ map (\<lambda>j. f j (s ! (j + k))) [0..<n] @ drop (n + k) s"
proof (induction n)
  case (Suc n)
  have "drop (n + k) s = s ! (n + k) # drop (Suc (n + k)) s"
    using Suc.prems by (intro Cons_nth_drop_Suc [symmetric]) simp
  with Suc show ?case by (simp add: list_update_append nth_append)
qed simp

lemma checksum_char_other: "\<not> (97 \<le> ccode c \<and> ccode c \<le> 102) \<Longrightarrow> checksum_char h i c = c"
  by (auto simp: checksum_char_def)

lemma checksum_char_letter:
  assumes "97 \<le> ccode c" and "ccode c \<le> 102"
  shows "checksum_char h i c = c \<or> ccode (checksum_char h i c) = ccode c - 32"
  using assms by (simp add: checksum_char_def toupper_def tolower_def take_bit_nat_eq_self)

lemma checksum_char_hex:
  assumes "is_hex c"
  shows "is_hex (checksum_char h i c)" and "hex_value (checksum_char h i c) = hex_value c"
proof -
  have "from_hex_digit (checksum_char h i c) = from_hex_digit c"
  proof (cases "97 \<le> ccode c \<and> ccode c \<le> 102")
    case True
    then show ?thesis using checksum_char_letter [of c h i] by (auto simp: from_hex_digit_def)
  next
    case False
    then show ?thesis by (intro arg_cong [of _ _ from_hex_digit] checksum_char_other)
  qed
  then show "is_hex (checksum_char h i c)" "hex_value (checksum_char h i c) = hex_value c"
    using assms by (simp_all add: is_hex_def hex_value_def)
qed

lemma spells_checksum: "spells (to_checksum_address a) a"
proof -
  have "spells (address_to_hex_string a) a" unfolding address_to_hex_string_def by (rule spells_fixed) simp
  then obtain cs where cs: "address_to_hex_string a = ''0x'' @ cs" "list_all is_hex cs" "length cs \<le> 64"
    "hex_number (map hex_value cs) = unat a"
    unfolding spells_def by blast
  define h where "h = from_skip (bytes_of_string (''0x'' @ cs)) 2"
  define ds where "ds = map (\<lambda>j. checksum_char h j (cs ! j)) [0..<length cs]"
  have "to_checksum_address a = ''0x'' @ ds"
    unfolding to_checksum_address_def cs(1) Let_def h_def [symmetric]
    using fold_update_shift [of "length cs" 2 "''0x'' @ cs" "checksum_char h"]
    by (simp add: ds_def)
  moreover have "list_all is_hex ds" "map hex_value ds = map hex_value cs"
    using cs(2) by (auto simp: ds_def list_all_length checksum_char_hex intro!: nth_equalityI)
  ultimately show ?thesis unfolding spells_def using cs(3,4)
    by (intro exI [of _ ds]) (simp add: ds_def)
qed

lemma strtoull16_pair:
  assumes "a < 16" and "b < 16"
  shows "strtoull16 [digit_char a, digit_char b] = word_of_nat (a * 16 + b)"
proof -
  have "a * 16 + b < 2 ^ 64" using assms by simp
  then show ?thesis using assms digit_char_hex [of a] digit_char_hex [of b]
    by (simp add: strtoull16_def c_str_def is_hex_digit_char Let_def)
qed

lemma strtoull16_hex_byte: "ucast (strtoull16 (hex_byte b)) = b"
proof -
  have "unat b div 16 < 16" using unat_byte_bound [of b] by (simp add: less_mult_imp_div_less)
  then have "strtoull16 (hex_byte b) = word_of_nat (unat b)"
    by (simp add: hex_byte_def strtoull16_pair)
  then show ?thesis by (simp add: unsigned_ucast_eq take_bit_word_eq_self)
qed

lemma segment_hex_bytes:
  "i < length bs \<Longrightarrow> segment (2 * i) 2 (concat (map hex_byte bs)) = hex_byte (bs ! i)"
proof (induction bs arbitrary: i)
  case (Cons b bs)
  then show ?case
    by (cases i) (simp_all add: segment_def hex_byte_def)
qed simp

lemma strip_hex: "strip (''0x'' @ s) = s"
  by (simp add: strip_def)

lemma fold_set_range:
  "n \<le> length v \<Longrightarrow> fold (\<lambda>i v. v[i := f i]) [0..<n] v = map f [0..<n] @ drop n v"
  by (induction n) (auto intro!: nth_equalityI simp: nth_list_update nth_append)

lemma to_bytes_hex: "to_bytes (to_hex_string_bytes bs) = bs"
proof -
  let ?s = "concat (map hex_byte bs)"
  have len: "length ?s = 2 * length bs" by (induction bs) (simp_all add: hex_byte_def)
  have "to_bytes (to_hex_string_bytes bs) =
      fold (\<lambda>i v. v[i := ucast (strtoull16 (segment (2 * i) 2 ?s))]) [0..<length bs] (replicate (length bs) 0)"
    unfolding to_bytes_def to_hex_string_bytes_def strip_hex by (simp add: len Let_def)
  also have "\<dots> = map (\<lambda>i. ucast (strtoull16 (segment (2 * i) 2 ?s))) [0..<length bs]"
    by (simp add: fold_set_range)
  also have "\<dots> = bs"
    by (rule nth_equalityI) (simp_all add: segment_hex_bytes strtoull16_hex_byte)
  finally show ?thesis .
qed

lemma Keccak256_from_hex_hex:
  assumes "length bs = 32"
  shows "Keccak256_from_hex (hex_str bs) = Inr bs"
proof -
  let ?s = "concat (map hex_byte bs)"
  have len: "length ?s = 2 * length bs" by (induction bs) (simp_all add: hex_byte_def)
  have ne: "?s \<noteq> []" using len assms by fastforce
  have loop: "fold (\<lambda>i r. case r of Inl e \<Rightarrow> Inl e | Inr d \<Rightarrow>
        if 2 * i > length ?s then Inl (StdException OutOfRange ''basic_string::substr'')
        else Inr (d[i := ucast (strtoull16 (segment (2 * i) 2 ?s))])) [0..<n] (Inr d) =
      Inr (fold (\<lambda>i d. d[i := ucast (strtoull16 (segment (2 * i) 2 ?s))]) [0..<n] d)"
    if "n \<le> 32" for n and d :: bytes
    using that assms len by (induction n) simp_all
  have "Keccak256_from_hex (hex_str bs) =
      Inr (fold (\<lambda>i d. d[i := ucast (strtoull16 (segment (2 * i) 2 ?s))]) [0..<32] (replicate 32 0))"
    unfolding Keccak256_from_hex_def hex_str_def to_hex_string_bytes_def strip_hex Let_def if_not_P [OF ne]
    by (rule loop) simp
  also have "\<dots> = Inr (map (\<lambda>i. ucast (strtoull16 (segment (2 * i) 2 ?s))) [0..<32])"
    by (simp add: fold_set_range)
  also have "map (\<lambda>i. ucast (strtoull16 (segment (2 * i) 2 ?s))) [0..<32] = bs"
    by (rule nth_equalityI) (simp_all add: assms segment_hex_bytes strtoull16_hex_byte)
  finally show ?thesis .
qed

section \<open>Properties\<close>

text \<open>
  Loading a 256-bit integer from the 32 bytes it was stored to gives the integer back, and
  storing what was loaded from 32 bytes gives the bytes back.
\<close>

lemma big_endian_round_trip:
  "from_big_endian (to_big_endian v) = Inr v \<and>
    (length bs = 32 \<longrightarrow> (\<exists>w. from_big_endian bs = Inr w \<and> to_big_endian w = bs))"
  by (simp add: from_big_endian_load to_big_endian_be_load)

text \<open>
  Every 256-bit integer is read back from its hexadecimal form, with or without padding to a
  fixed width of at most 64 digits, and every address from its checksummed form, which the check
  of checksummed addresses accepts.
\<close>

lemma hex_round_trip:
  "to_uint256 (to_hex_string v) = Inr v \<and>
    (n \<le> 64 \<longrightarrow> to_uint256 (to_hex_string_fixed v n) = Inr v) \<and>
    is_checksum_address (to_checksum_address v) = Inr True"
  using spells_from_string [OF spells_fixed [of 0 v]] spells_from_string [OF spells_fixed [of n v]]
    spells_from_string [OF spells_checksum [of v]]
  by (simp add: to_uint256_def is_checksum_address_def to_hex_string_as_fixed)

text \<open>
  A byte string is read back from its hexadecimal form, by \<open>to_bytes\<close> and, for the
  32 bytes of a digest, by \<open>Keccak256::from_hex\<close>.
\<close>

lemma hex_bytes_round_trip:
  "to_bytes (to_hex_string_bytes bs) = bs \<and>
    (length bs = 32 \<longrightarrow> Keccak256_from_hex (hex_str bs) = Inr bs)"
  by (simp add: to_bytes_hex Keccak256_from_hex_hex)

text \<open>
  The reason of a revert is decoded from an output that holds a selector and an offset (36
  bytes), the length of the reason and the reason, followed by any padding.  An output that is not
  empty and too short for the length field is read past its end.
\<close>

lemma parse_revert_reason:
  "(length prefix = 36 \<and> length s < 2 ^ 64 \<longrightarrow>
      parse_revert (prefix @ to_big_endian (word_of_nat (length s)) @ s @ pad) = Inr (string_of_bytes s)) \<and>
    (bin \<noteq> [] \<and> length bin < 68 \<longrightarrow> undefined_behaviour (parse_revert bin))"
proof -
  have "unat (ucast (word_of_nat (length s) :: u256) :: u64) = length s" if "length s < 2 ^ 64"
    using that by (simp add: unsigned_ucast_eq unsigned_of_nat take_bit_nat_eq_self)
  then show ?thesis by (auto simp: parse_revert_def Let_def segment_def)
qed

end
