(* ===== verification/Stack.thy ===== *)
theory Stack
  imports Util
begin

text \<open>
  The operand stack, \<open>eEVM/src/stack.cpp\<close>: a double-ended queue whose front is the top of the
  stack, here a list whose head is the top.  Every method is an action on the list; it leaves the
  list unchanged when it throws, except \<open>pop64\<close>, which has popped the value before it tests
  its size.  Allocation failure is not modelled.
\<close>

type_synonym stack = "u256 list"

definition MAX_SIZE :: nat where
  "MAX_SIZE = 1024"

text \<open>\<open>front\<close> and \<open>pop_front\<close> of an empty queue are undefined.\<close>

definition deque_front :: "stack \<Rightarrow> exn + u256" where
  "deque_front st = vec_get 0 st"

definition deque_pop_front :: "stack \<Rightarrow> exn + stack" where
  "deque_pop_front st = (case st of [] \<Rightarrow> Inl out_of_vector | v # st' \<Rightarrow> Inr st')"

definition stack_top :: "(stack, u256) act" where
  "stack_top = (\<lambda>st. if st = [] then raise (Exception OutOfBounds ''Stack out of range'') st
    else (deque_front st, st))"

definition stack_pop :: "(stack, u256) act" where
  "stack_pop = (\<lambda>st. if st = [] then raise (Exception OutOfBounds ''Stack out of range'') st
    else case tries (deque_front st) (\<lambda>val. tries (deque_pop_front st) (\<lambda>st'. Inr (val, st'))) of
      Inl e \<Rightarrow> (Inl e, st)
    | Inr (val, st') \<Rightarrow> (Inr val, st'))"

definition stack_pop64 :: "(stack, u64) act" where
  "stack_pop64 = bind stack_pop (\<lambda>val.
    andthen
      (guard (val \<le> 2 ^ 64 - 1)
        (Exception OutOfBounds (''Value on stack ('' @ to_hex_string val @ '') is larger than 2^64'')))
      (ret (ucast val)))"

definition stack_size :: "stack \<Rightarrow> nat" where
  "stack_size st = length st"

definition stack_push :: "u256 \<Rightarrow> (stack, unit) act" where
  "stack_push val = (\<lambda>st. if stack_size st = MAX_SIZE
    then raise (Exception OutOfBounds
      (''Stack mem exceeded ('' @ to_string (stack_size st) @ '' == '' @ to_string MAX_SIZE @ '')'')) st
    else (Inr (), val # st))"

definition stack_swap :: "u64 \<Rightarrow> (stack, unit) act" where
  "stack_swap i = (\<lambda>st. if unat i \<ge> stack_size st
    then raise (Exception OutOfBounds
      (''Swap out of range ('' @ to_string (unat i) @ '' >= '' @ to_string (stack_size st) @ '')'')) st
    else case tries (vec_get 0 st) (\<lambda>x. tries (vec_get (unat i) st) (\<lambda>y. Inr (st[0 := y, unat i := x]))) of
      Inl e \<Rightarrow> (Inl e, st)
    | Inr st' \<Rightarrow> (Inr (), st'))"

definition stack_dup :: "u64 \<Rightarrow> (stack, unit) act" where
  "stack_dup a = (\<lambda>st. if unat a \<ge> stack_size st
    then raise (Exception OutOfBounds
      (''Dup out of range ('' @ to_string (unat a) @ '' >= '' @ to_string (stack_size st) @ '')'')) st
    else case vec_get (unat a) st of Inl e \<Rightarrow> (Inl e, st) | Inr v \<Rightarrow> (Inr (), v # st))"

text \<open>A sequence of methods, as the interpreter calls them.\<close>

datatype stack_call = Pop | Pop64 | Push u256 | Swap u64 | Dup u64

fun call_stack :: "stack_call \<Rightarrow> stack \<Rightarrow> stack" where
  "call_stack Pop st = snd (stack_pop st)"
| "call_stack Pop64 st = snd (stack_pop64 st)"
| "call_stack (Push v) st = snd (stack_push v st)"
| "call_stack (Swap i) st = snd (stack_swap i st)"
| "call_stack (Dup a) st = snd (stack_dup a st)"

section \<open>Lemmas\<close>

lemma stack_pop_Nil [act_simps, simp]: "stack_pop [] = (Inl (Exception OutOfBounds ''Stack out of range''), [])"
  by (simp add: stack_pop_def)

lemma stack_pop_Cons [act_simps, simp]: "stack_pop (v # st) = (Inr v, st)"
  by (simp add: stack_pop_def deque_front_def deque_pop_front_def)

text \<open>The accesses of \<open>swap\<close> and \<open>dup\<close> are in the queue, because of the tests before them.\<close>

lemma stack_swap_total:
  "stack_swap i = (\<lambda>st. if unat i \<ge> stack_size st
    then (Inl (Exception OutOfBounds
      (''Swap out of range ('' @ to_string (unat i) @ '' >= '' @ to_string (stack_size st) @ '')'')), st)
    else (Inr (), st[0 := st ! unat i, unat i := st ! 0]))"
proof
  fix st
  show "stack_swap i st = (if unat i \<ge> stack_size st
    then (Inl (Exception OutOfBounds
      (''Swap out of range ('' @ to_string (unat i) @ '' >= '' @ to_string (stack_size st) @ '')'')), st)
    else (Inr (), st[0 := st ! unat i, unat i := st ! 0]))"
    by (cases st) (simp_all add: stack_swap_def stack_size_def)
qed

lemma stack_dup_total:
  "stack_dup a = (\<lambda>st. if unat a \<ge> stack_size st
    then (Inl (Exception OutOfBounds
      (''Dup out of range ('' @ to_string (unat a) @ '' >= '' @ to_string (stack_size st) @ '')'')), st)
    else (Inr (), st ! unat a # st))"
  by (simp add: stack_dup_def stack_size_def fun_eq_iff)

lemma u64_limit: "(2::u256) ^ 64 - 1 = 18446744073709551615"
  by simp

lemma ucast_u64_small: "(v::u256) \<le> 18446744073709551615 \<Longrightarrow> unat (ucast v :: u64) = unat v"
  by (simp add: word_le_nat_alt unsigned_ucast_eq take_bit_nat_eq_self)

lemma stack_pop64_Cons [act_simps]:
  "stack_pop64 (v # st) =
    (if v \<le> 18446744073709551615 then (Inr (ucast v), st)
     else (Inl (Exception OutOfBounds (''Value on stack ('' @ to_hex_string v @ '') is larger than 2^64'')), st))"
  by (simp add: stack_pop64_def bind_run andthen_run)

lemma stack_pop64_Nil [act_simps, simp]:
  "stack_pop64 [] = (Inl (Exception OutOfBounds ''Stack out of range''), [])"
  by (simp add: stack_pop64_def bind_run)

lemma stack_push_ok [act_simps, simp]: "length st \<noteq> 1024 \<Longrightarrow> stack_push v st = (Inr (), v # st)"
  by (simp add: stack_push_def stack_size_def MAX_SIZE_def)

lemma stack_push_full:
  "length st = 1024 \<Longrightarrow> stack_push v st =
    (Inl (Exception OutOfBounds (''Stack mem exceeded ('' @ to_string 1024 @ '' == '' @ to_string 1024 @ '')'')), st)"
  by (simp add: stack_push_def stack_size_def MAX_SIZE_def)

lemma nth_swap:
  "i < length st \<Longrightarrow> k < length st \<Longrightarrow>
    st[0 := st ! i, i := st ! 0] ! k = (if k = i then st ! 0 else if k = 0 then st ! i else st ! k)"
  by (auto simp: nth_list_update)

lemma wp_stack_pop [wp_rules]:
  "wp stack_pop Q X st \<longleftrightarrow>
    (case st of [] \<Rightarrow> X (Exception OutOfBounds ''Stack out of range'') [] | v # st' \<Rightarrow> Q v st')"
  by (simp add: wp_def split: list.split)

lemma call_dup: "st \<noteq> [] \<Longrightarrow> call_stack (Dup 0) st = st ! 0 # st"
  by (simp add: stack_dup_total stack_size_def)

section \<open>Properties\<close>

text \<open>
  The methods follow the stack discipline.  A push is refused exactly when the stack holds
  1024 values, and otherwise a pop returns the pushed value and the old stack.  A 64-bit pop returns
  the top exactly when it fits, and refuses it otherwise but has removed it.  A swap within range
  exchanges the top with the given position and nothing else, and undoes itself; a duplication
  within range copies the given position to the top.  Out of range, both throw and change nothing.
\<close>

lemma stack_discipline:
  "(length st \<noteq> 1024 \<longrightarrow> bind (stack_push v) (\<lambda>_. stack_pop) st = (Inr v, st)) \<and>
   (length st = 1024 \<longrightarrow> (\<exists>m. stack_push v st = (Inl (Exception OutOfBounds m), st))) \<and>
   (unat v < 2 ^ 64 \<longrightarrow> (\<exists>w. stack_pop64 (v # st) = (Inr w, st) \<and> unat w = unat v)) \<and>
   (2 ^ 64 \<le> unat v \<longrightarrow> (\<exists>m. stack_pop64 (v # st) = (Inl (Exception OutOfBounds m), st))) \<and>
   (unat i < length st \<longrightarrow>
      stack_dup i st = (Inr (), st ! unat i # st) \<and>
      bind (stack_swap i) (\<lambda>_. stack_swap i) st = (Inr (), st) \<and>
      (\<forall>k < length st. snd (stack_swap i st) ! k =
        (if k = unat i then st ! 0 else if k = 0 then st ! unat i else st ! k))) \<and>
   (length st \<le> unat i \<longrightarrow>
      (\<exists>m. stack_dup i st = (Inl (Exception OutOfBounds m), st)) \<and>
      (\<exists>m. stack_swap i st = (Inl (Exception OutOfBounds m), st)))"
proof -
  have le: "v \<le> 18446744073709551615 \<longleftrightarrow> unat v < 2 ^ 64"
    by (simp add: word_le_nat_alt) linarith
  have swap: "bind (stack_swap i) (\<lambda>_. stack_swap i) st = (Inr (), st)" if i: "unat i < length st"
  proof -
    let ?s = "st[0 := st ! unat i, unat i := st ! 0]"
    have "0 < length st" using i by linarith
    then have "?s[0 := ?s ! unat i, unat i := ?s ! 0] = st"
      using i by (intro nth_equalityI) (auto simp: nth_list_update)
    then show ?thesis using i by (simp add: bind_run stack_swap_total stack_size_def)
  qed
  have small: "\<exists>w. stack_pop64 (v # st) = (Inr w, st) \<and> unat w = unat v" if "unat v < 2 ^ 64"
    using that le ucast_u64_small [of v] by (simp add: stack_pop64_Cons)
  have large: "\<exists>m. stack_pop64 (v # st) = (Inl (Exception OutOfBounds m), st)" if "2 ^ 64 \<le> unat v"
    using that le by (simp add: stack_pop64_Cons)
  have rest: "unat i < length st \<longrightarrow> stack_dup i st = (Inr (), st ! unat i # st) \<and>
      (\<forall>k < length st. snd (stack_swap i st) ! k =
        (if k = unat i then st ! 0 else if k = 0 then st ! unat i else st ! k))"
    by (simp add: stack_dup_total stack_swap_total stack_size_def nth_swap)
  have out: "length st \<le> unat i \<longrightarrow>
      (\<exists>m. stack_dup i st = (Inl (Exception OutOfBounds m), st)) \<and>
      (\<exists>m. stack_swap i st = (Inl (Exception OutOfBounds m), st))"
    by (simp add: stack_dup_total stack_swap_total stack_size_def)
  show ?thesis using swap small large rest out
    by (auto simp: bind_run stack_push_full)
qed

text \<open>
  The limit of 1024 values is not an invariant: duplication ignores it, and a push is only
  refused at exactly 1024 values, so duplications grow a full stack without bound, after which
  pushes succeed again.
\<close>

lemma dup_ignores_limit:
  assumes "length st = 1024"
  shows "length ((call_stack (Dup 0) ^^ n) st) = 1024 + n \<and>
    (0 < n \<longrightarrow> fst (stack_push v ((call_stack (Dup 0) ^^ n) st)) = Inr ())"
proof -
  have "length ((call_stack (Dup 0) ^^ n) st) = 1024 + n"
  proof (induction n)
    case (Suc n)
    then have "(call_stack (Dup 0) ^^ n) st \<noteq> []"
      by (metis add_is_0 list.size(3) zero_neq_numeral)
    with Suc show ?case by (simp add: call_dup del: call_stack.simps)
  qed (simp add: assms)
  then show ?thesis by simp
qed

end
