(* ===== verification/World.thy ===== *)
theory World
  imports Util
begin

text \<open>
  The interfaces through which the virtual machine sees accounts: \<open>Account\<close> of
  \<open>account.h\<close>, \<open>Storage\<close> of \<open>storage.h\<close> and \<open>GlobalState\<close> of
  \<open>globalstate.h\<close>, with the data types \<open>Block\<close>, \<open>LogEntry\<close> and \<open>Transaction\<close>.

  The virtual methods are the fields of a record \<open>gs_ops\<close>, one action on the world each.  A
  reference to an account or to its storage (\<open>AccountState\<close>) is the address under which the
  world keeps it; every account method takes that reference as its first argument.

  The locale \<open>ledger\<close> is the part of the contract of an implementation that payments rest on: a
  view of the world as a partial map from references to accounts, and the methods that read
  addresses and balances and change balances.  The lemmas inside it, on \<open>Account::pay_to\<close>, which
  the interface defines itself, hold for every implementation.  The locale \<open>world\<close> extends it to
  the effect of every method on the view.
\<close>

section \<open>Data\<close>

record Block =
  blk_number :: u64
  blk_gas_limit :: u64
  blk_timestamp :: u64
  blk_coinbase :: u256
  blk_prev_randao :: u256
  blk_chain_id :: u256
  blk_base_fee :: u256

definition Block_eq :: "Block \<Rightarrow> Block \<Rightarrow> bool" where
  "Block_eq l r \<longleftrightarrow>
    blk_coinbase l = blk_coinbase r \<and> blk_number l = blk_number r \<and>
    blk_prev_randao l = blk_prev_randao r \<and> blk_gas_limit l = blk_gas_limit r \<and>
    blk_timestamp l = blk_timestamp r \<and> blk_chain_id l = blk_chain_id r \<and>
    blk_base_fee l = blk_base_fee r"

record LogEntry =
  log_address :: u256
  log_data :: bytes
  log_topics :: "u256 list"

definition LogEntry_eq :: "LogEntry \<Rightarrow> LogEntry \<Rightarrow> bool" where
  "LogEntry_eq l r \<longleftrightarrow>
    log_address l = log_address r \<and> log_data l = log_data r \<and> log_topics l = log_topics r"

datatype LogHandler = NullLogHandler | VectorLogHandler "LogEntry list"

fun handle :: "LogHandler \<Rightarrow> LogEntry \<Rightarrow> LogHandler" where
  "handle NullLogHandler e = NullLogHandler"
| "handle (VectorLogHandler logs) e = VectorLogHandler (logs @ [e])"

record Transaction =
  tx_origin :: u256
  tx_value :: u64
  tx_gas_price :: u64
  tx_gas_limit :: u64
  tx_log_handler :: LogHandler
  tx_selfdestruct_list :: "u256 list"

section \<open>The virtual methods\<close>

record 'g gs_ops =
  gs_remove :: "u256 \<Rightarrow> ('g, unit) act"
  gs_get :: "u256 \<Rightarrow> ('g, u256) act"
  gs_create :: "u256 \<Rightarrow> u256 \<Rightarrow> bytes \<Rightarrow> ('g, u256) act"
  gs_get_current_block :: "('g, Block) act"
  gs_get_block_hash :: "byte \<Rightarrow> ('g, u256) act"
  acc_get_address :: "u256 \<Rightarrow> ('g, u256) act"
  acc_get_balance :: "u256 \<Rightarrow> ('g, u256) act"
  acc_set_balance :: "u256 \<Rightarrow> u256 \<Rightarrow> ('g, unit) act"
  acc_get_nonce :: "u256 \<Rightarrow> ('g, u64) act"
  acc_increment_nonce :: "u256 \<Rightarrow> ('g, unit) act"
  acc_get_code :: "u256 \<Rightarrow> ('g, bytes) act"
  acc_has_code :: "u256 \<Rightarrow> ('g, bool) act"
  acc_set_code :: "u256 \<Rightarrow> bytes \<Rightarrow> ('g, unit) act"
  st_store :: "u256 \<Rightarrow> u256 \<Rightarrow> u256 \<Rightarrow> ('g, unit) act"
  st_load :: "u256 \<Rightarrow> u256 \<Rightarrow> ('g, u256) act"
  st_remove :: "u256 \<Rightarrow> u256 \<Rightarrow> ('g, bool) act"

text \<open>The default of the virtual method \<open>has_code\<close>.\<close>

definition has_code :: "('g, 'm) gs_ops_scheme \<Rightarrow> u256 \<Rightarrow> ('g, bool) act" where
  "has_code ops this = bind (acc_get_code ops this) (\<lambda>code. ret (code \<noteq> []))"

definition insufficient_funds :: "u256 \<Rightarrow> u256 \<Rightarrow> u256 \<Rightarrow> u256 \<Rightarrow> exn" where
  "insufficient_funds amount to from balance = Exception OutOfFunds
    (''Insufficient funds to pay '' @ to_hex_string amount @ '' to '' @ to_hex_string to @
     '' (from '' @ to_hex_string from @ '', current balance '' @ to_hex_string balance @ '')'')"

definition pay_overflow :: "u256 \<Rightarrow> u256 \<Rightarrow> u256 \<Rightarrow> u256 \<Rightarrow> exn" where
  "pay_overflow amount to balance from = Exception Overflow
    (''Overflow while attempting to pay '' @ to_hex_string amount @ '' to '' @ to_hex_string to @
     '' (current balance '' @ to_hex_string balance @ '') from '' @ to_hex_string from)"

definition pay_to :: "('g, 'm) gs_ops_scheme \<Rightarrow> u256 \<Rightarrow> u256 \<Rightarrow> u256 \<Rightarrow> ('g, unit) act" where
  "pay_to ops this other amount =
    bind (acc_get_balance ops this) (\<lambda>this_balance.
    if amount > this_balance then
      bind (acc_get_address ops other) (\<lambda>to.
      bind (acc_get_address ops this) (\<lambda>from.
      raise (insufficient_funds amount to from this_balance)))
    else
      bind (acc_get_balance ops other) (\<lambda>other_balance.
      let proposed_balance = other_balance + amount
      in if proposed_balance < other_balance then
           bind (acc_get_address ops other) (\<lambda>to.
           bind (acc_get_address ops this) (\<lambda>from.
           raise (pay_overflow amount to other_balance from)))
         else
           andthen (acc_set_balance ops this (this_balance - amount))
             (acc_set_balance ops other proposed_balance)))"

section \<open>The contract\<close>

record acct =
  a_address :: u256
  a_balance :: u256
  a_nonce :: u64
  a_code :: bytes
  a_storage :: "u256 \<rightharpoonup> u256"

definition fresh_acct :: "u256 \<Rightarrow> u256 \<Rightarrow> bytes \<Rightarrow> acct" where
  "fresh_acct addr balance code =
    \<lparr>a_address = addr, a_balance = balance, a_nonce = 0, a_code = code, a_storage = Map.empty\<rparr>"

text \<open>A slot that is absent reads as zero.\<close>

definition slot :: "acct \<Rightarrow> u256 \<Rightarrow> u256" where
  "slot v k = (case a_storage v k of None \<Rightarrow> 0 | Some x \<Rightarrow> x)"

text \<open>The coins held by a set of accounts; an account that does not exist holds none.\<close>

definition balance_of :: "acct option \<Rightarrow> nat" where
  "balance_of v = (case v of None \<Rightarrow> 0 | Some a \<Rightarrow> unat (a_balance a))"

definition coins :: "(u256 \<Rightarrow> acct option) \<Rightarrow> u256 set \<Rightarrow> nat" where
  "coins w A = (\<Sum>a \<in> A. balance_of (w a))"

text \<open>
  Through a reference to an account that exists, every method returns normally and changes the view
  as given; a method that reads leaves the world itself unchanged.
\<close>

locale ledger =
  fixes ops :: "'g gs_ops"
    and view :: "'g \<Rightarrow> u256 \<Rightarrow> acct option"
  assumes get_address: "view g a = Some v \<Longrightarrow> acc_get_address ops a g = (Inr (a_address v), g)"
    and get_balance: "view g a = Some v \<Longrightarrow> acc_get_balance ops a g = (Inr (a_balance v), g)"
    and set_balance: "view g a = Some v \<Longrightarrow>
      \<exists>g'. acc_set_balance ops a b g = (Inr (), g') \<and> view g' = (view g)(a \<mapsto> v\<lparr>a_balance := b\<rparr>)"
begin

text \<open>The three outcomes of a payment between accounts that exist.\<close>

lemma pay_to_poor:
  assumes "view g a = Some v" and "view g b = Some w" and "a_balance v < x"
  shows "pay_to ops a b x g = (Inl (insufficient_funds x (a_address w) (a_address v) (a_balance v)), g)"
  using assms by (simp add: pay_to_def bind_run get_balance get_address)

lemma pay_to_overflow:
  assumes "view g a = Some v" and "view g b = Some w" and "x \<le> a_balance v"
    and "a_balance w + x < a_balance w"
  shows "pay_to ops a b x g = (Inl (pay_overflow x (a_address w) (a_balance w) (a_address v)), g)"
  using assms(1,2,4) leD [OF assms(3)]
  by (simp add: pay_to_def bind_run get_balance [OF assms(1)] get_balance [OF assms(2)]
      get_address [OF assms(1)] get_address [OF assms(2)] Let_def)

lemma pay_to_ok:
  assumes "view g a = Some v" and "view g b = Some w" and "a \<noteq> b" and "x \<le> a_balance v"
    and "a_balance w \<le> a_balance w + x"
  shows "\<exists>g'. pay_to ops a b x g = (Inr (), g') \<and>
    view g' = (view g)(a \<mapsto> v\<lparr>a_balance := a_balance v - x\<rparr>, b \<mapsto> w\<lparr>a_balance := a_balance w + x\<rparr>)"
proof -
  obtain g1 where 1: "acc_set_balance ops a (a_balance v - x) g = (Inr (), g1)"
    "view g1 = (view g)(a \<mapsto> v\<lparr>a_balance := a_balance v - x\<rparr>)"
    using set_balance [OF assms(1)] by blast
  then have "view g1 b = Some w" using assms(2,3) by simp
  then obtain g2 where 2: "acc_set_balance ops b (a_balance w + x) g1 = (Inr (), g2)"
    "view g2 = (view g1)(b \<mapsto> w\<lparr>a_balance := a_balance w + x\<rparr>)"
    using set_balance by blast
  have "pay_to ops a b x g = (Inr (), g2)"
    using leD [OF assms(4)] leD [OF assms(5)] 1(1) 2(1)
    by (simp add: pay_to_def bind_run andthen_run get_balance [OF assms(1)] get_balance [OF assms(2)] Let_def)
  with 1 2 show ?thesis by simp
qed

lemma pay_to_self:
  assumes "view g a = Some v" and "x \<le> a_balance v" and "a_balance v \<le> a_balance v + x"
  shows "\<exists>g'. pay_to ops a a x g = (Inr (), g') \<and>
    view g' = (view g)(a \<mapsto> v\<lparr>a_balance := a_balance v + x\<rparr>)"
proof -
  obtain g1 where 1: "acc_set_balance ops a (a_balance v - x) g = (Inr (), g1)"
    "view g1 = (view g)(a \<mapsto> v\<lparr>a_balance := a_balance v - x\<rparr>)"
    using set_balance [OF assms(1)] by blast
  then have "view g1 a = Some (v\<lparr>a_balance := a_balance v - x\<rparr>)" by simp
  then obtain g2 where 2: "acc_set_balance ops a (a_balance v + x) g1 = (Inr (), g2)"
    "view g2 = (view g1)(a \<mapsto> v\<lparr>a_balance := a_balance v + x\<rparr>)"
    using set_balance [of g1 a _ "a_balance v + x"] by fastforce
  have "pay_to ops a a x g = (Inr (), g2)"
    using leD [OF assms(2)] leD [OF assms(3)] 1(1) 2(1)
    by (simp add: pay_to_def bind_run andthen_run get_balance [OF assms(1)] Let_def)
  with 1 2 show ?thesis by simp
qed

lemma pay_to_conserves:
  assumes "view g a = Some v" and "view g b = Some w" and "a \<noteq> b" and "finite A" and "a \<in> A" and "b \<in> A"
  shows "coins (view (snd (pay_to ops a b x g))) A = coins (view g) A"
proof -
  consider "a_balance v < x" | "x \<le> a_balance v" "a_balance w + x < a_balance w"
    | "x \<le> a_balance v" "a_balance w \<le> a_balance w + x"
    by (meson not_less)
  then show ?thesis
  proof cases
    case 1
    then show ?thesis using pay_to_poor [OF assms(1,2)] by simp
  next
    case 2
    then show ?thesis using pay_to_overflow [OF assms(1,2)] by simp
  next
    case 3
    then obtain g' where g': "pay_to ops a b x g = (Inr (), g')"
      "view g' = (view g)(a \<mapsto> v\<lparr>a_balance := a_balance v - x\<rparr>, b \<mapsto> w\<lparr>a_balance := a_balance w + x\<rparr>)"
      using pay_to_ok [OF assms(1-3)] by blast
    have bal: "unat (a_balance v - x) + unat (a_balance w + x) = unat (a_balance v) + unat (a_balance w)"
    proof -
      have "unat (a_balance v - x) = unat (a_balance v) - unat x" using 3(1) by (simp add: unat_sub)
      moreover have "unat x \<le> unat (a_balance v)" using 3(1) by (simp add: word_le_nat_alt)
      moreover have "unat (a_balance w + x) = unat (a_balance w) + unat x"
        using 3(2) unat_add_lem [of "a_balance w" x] by (simp add: no_olen_add_nat)
      ultimately show ?thesis by simp
    qed
    let ?B = "A - {a, b}"
    have split: "coins f A = balance_of (f a) + balance_of (f b) + coins f ?B" for f
    proof -
      have "A = insert a (insert b ?B)" using assms(5,6) by blast
      then have "coins f A = (\<Sum>c \<in> insert a (insert b ?B). balance_of (f c))" unfolding coins_def by simp
      then show ?thesis using assms(3,4) by (simp add: coins_def)
    qed
    have "coins (view g') ?B = coins (view g) ?B"
      unfolding coins_def g'(2) by (rule sum.cong) auto
    then show ?thesis using split [of "view g'"] split [of "view g"] bal assms(1-3)
      by (simp add: g' balance_of_def)
  qed
qed

end

text \<open>The whole contract.\<close>

locale world = ledger +
  assumes get_old: "view g a = Some v \<Longrightarrow> gs_get ops a g = (Inr a, g)"
    and get_new: "view g a = None \<Longrightarrow>
      \<exists>g'. gs_get ops a g = (Inr a, g') \<and> view g' = (view g)(a \<mapsto> fresh_acct a 0 [])"
    and create_new: "view g a = None \<Longrightarrow>
      \<exists>g'. gs_create ops a b c g = (Inr a, g') \<and> view g' = (view g)(a \<mapsto> fresh_acct a b c)"
    and remove: "\<exists>g'. gs_remove ops a g = (Inr (), g') \<and> view g' = (view g)(a := None)"
    and current_block: "\<exists>blk. gs_get_current_block ops g = (Inr blk, g)"
    and block_hash: "\<exists>h. gs_get_block_hash ops off g = (Inr h, g)"
    and get_nonce: "view g a = Some v \<Longrightarrow> acc_get_nonce ops a g = (Inr (a_nonce v), g)"
    and get_code: "view g a = Some v \<Longrightarrow> acc_get_code ops a g = (Inr (a_code v), g)"
    and has_code: "view g a = Some v \<Longrightarrow> acc_has_code ops a g = (Inr (a_code v \<noteq> []), g)"
    and load: "view g a = Some v \<Longrightarrow> st_load ops a k g = (Inr (slot v k), g)"
    and increment_nonce: "view g a = Some v \<Longrightarrow>
      \<exists>g'. acc_increment_nonce ops a g = (Inr (), g') \<and>
        view g' = (view g)(a \<mapsto> v\<lparr>a_nonce := a_nonce v + 1\<rparr>)"
    and set_code: "view g a = Some v \<Longrightarrow>
      \<exists>g'. acc_set_code ops a c g = (Inr (), g') \<and> view g' = (view g)(a \<mapsto> v\<lparr>a_code := c\<rparr>)"
    and store: "view g a = Some v \<Longrightarrow>
      \<exists>g'. st_store ops a k x g = (Inr (), g') \<and>
        view g' = (view g)(a \<mapsto> v\<lparr>a_storage := (a_storage v)(k \<mapsto> x)\<rparr>)"
    and st_remove: "view g a = Some v \<Longrightarrow>
      \<exists>g'. st_remove ops a k g = (Inr (a_storage v k \<noteq> None), g') \<and>
        view g' = (view g)(a \<mapsto> v\<lparr>a_storage := (a_storage v)(k := None)\<rparr>)"

end
