(* ===== verification/SimpleState.thy ===== *)
theory SimpleState
  imports World
begin

text \<open>
  The in-memory world of \<open>eEVM/src/simple\<close>: \<open>SimpleAccount\<close>, \<open>SimpleStorage\<close> and
  \<open>SimpleGlobalState\<close>, whose \<open>std::map\<close>s are partial maps.  The methods are collected in
  \<open>simple_ops\<close>, which is shown to meet the contract \<open>world\<close>, so that every lemma of the
  contract holds for it.  A method called through a reference to an erased account is undefined.
\<close>

record SimpleAccount =
  sa_address :: u256
  sa_balance :: u256
  sa_code :: bytes
  sa_nonce :: u64

type_synonym SimpleStorage = "u256 \<rightharpoonup> u256"

record SimpleGlobalState =
  currentBlock :: Block
  accounts :: "u256 \<rightharpoonup> SimpleAccount \<times> SimpleStorage"

section \<open>Accounts\<close>

definition new_SimpleAccount :: "u256 \<Rightarrow> u256 \<Rightarrow> bytes \<Rightarrow> SimpleAccount" where
  "new_SimpleAccount a b c = \<lparr>sa_address = a, sa_balance = b, sa_code = c, sa_nonce = 0\<rparr>"

definition sa_increment_nonce :: "SimpleAccount \<Rightarrow> SimpleAccount" where
  "sa_increment_nonce a = a\<lparr>sa_nonce := sa_nonce a + 1\<rparr>"

definition sa_has_code :: "SimpleAccount \<Rightarrow> bool" where
  "sa_has_code a \<longleftrightarrow> sa_code a \<noteq> []"

definition SimpleAccount_eq :: "SimpleAccount \<Rightarrow> SimpleAccount \<Rightarrow> bool" where
  "SimpleAccount_eq a b \<longleftrightarrow> sa_address a = sa_address b \<and> sa_balance a = sa_balance b \<and>
    sa_nonce a = sa_nonce b \<and> sa_code a = sa_code b"

section \<open>Storage\<close>

definition ss_store :: "u256 \<Rightarrow> u256 \<Rightarrow> SimpleStorage \<Rightarrow> SimpleStorage" where
  "ss_store key v s = s(key \<mapsto> v)"

definition ss_load :: "u256 \<Rightarrow> SimpleStorage \<Rightarrow> u256" where
  "ss_load key s = (case s key of None \<Rightarrow> 0 | Some v \<Rightarrow> v)"

definition ss_exists :: "u256 \<Rightarrow> SimpleStorage \<Rightarrow> bool" where
  "ss_exists key s \<longleftrightarrow> s key \<noteq> None"

definition ss_remove :: "u256 \<Rightarrow> SimpleStorage \<Rightarrow> bool \<times> SimpleStorage" where
  "ss_remove key s = (if s key = None then (False, s) else (True, s(key := None)))"

section \<open>The global state\<close>

definition sgs_remove :: "u256 \<Rightarrow> (SimpleGlobalState, unit) act" where
  "sgs_remove addr = upd (\<lambda>g. g\<lparr>accounts := (accounts g)(addr := None)\<rparr>)"

definition sgs_insert :: "SimpleAccount \<times> SimpleStorage \<Rightarrow> (SimpleGlobalState, unit) act" where
  "sgs_insert p = (\<lambda>g.
    if accounts g (sa_address (fst p)) = None
    then (Inr (), g\<lparr>accounts := (accounts g)(sa_address (fst p) \<mapsto> p)\<rparr>)
    else (Inl (AssertionFailure ''ib.second''), g))"

text \<open>
  \<open>create\<close> ends with a call of \<open>get\<close>, which finds the account just inserted; so the branch
  of \<open>get\<close> that calls \<open>create\<close> again is not reached.
\<close>

definition sgs_find :: "u256 \<Rightarrow> (SimpleGlobalState, u256) act \<Rightarrow> (SimpleGlobalState, u256) act" where
  "sgs_find addr otherwise = (\<lambda>g. if accounts g addr \<noteq> None then (Inr addr, g) else otherwise g)"

definition sgs_create :: "u256 \<Rightarrow> u256 \<Rightarrow> bytes \<Rightarrow> (SimpleGlobalState, u256) act" where
  "sgs_create addr balance code =
    andthen (sgs_insert (new_SimpleAccount addr balance code, Map.empty))
      (sgs_find addr (raise (UndefinedBehaviour ''endless recursion of get and create'')))"

definition sgs_get :: "u256 \<Rightarrow> (SimpleGlobalState, u256) act" where
  "sgs_get addr = sgs_find addr (sgs_create addr 0 [])"

definition sgs_exists :: "u256 \<Rightarrow> SimpleGlobalState \<Rightarrow> bool" where
  "sgs_exists addr g \<longleftrightarrow> accounts g addr \<noteq> None"

definition sgs_num_accounts :: "SimpleGlobalState \<Rightarrow> nat" where
  "sgs_num_accounts g = card (dom (accounts g))"

definition sgs_get_block_hash :: "byte \<Rightarrow> (SimpleGlobalState, u256) act" where
  "sgs_get_block_hash offset = ret 0"

definition SimpleGlobalState_eq :: "SimpleGlobalState \<Rightarrow> SimpleGlobalState \<Rightarrow> bool" where
  "SimpleGlobalState_eq l r \<longleftrightarrow> accounts l = accounts r \<and> Block_eq (currentBlock l) (currentBlock r)"

text \<open>Methods of the account and of the storage behind a reference.\<close>

definition on_entry ::
  "u256 \<Rightarrow> (SimpleAccount \<times> SimpleStorage \<Rightarrow> 'a \<times> (SimpleAccount \<times> SimpleStorage)) \<Rightarrow>
    (SimpleGlobalState, 'a) act" where
  "on_entry r f = (\<lambda>g. case accounts g r of
      None \<Rightarrow> (Inl (UndefinedBehaviour ''dangling account reference''), g)
    | Some p \<Rightarrow> (case f p of (x, p') \<Rightarrow> (Inr x, g\<lparr>accounts := (accounts g)(r \<mapsto> p')\<rparr>)))"

definition ask_entry ::
  "u256 \<Rightarrow> (SimpleAccount \<times> SimpleStorage \<Rightarrow> 'a) \<Rightarrow> (SimpleGlobalState, 'a) act" where
  "ask_entry r f = (\<lambda>g. case accounts g r of
      None \<Rightarrow> (Inl (UndefinedBehaviour ''dangling account reference''), g)
    | Some p \<Rightarrow> (Inr (f p), g))"

definition simple_ops :: "SimpleGlobalState gs_ops" where
  "simple_ops =
    \<lparr>gs_remove = sgs_remove,
     gs_get = sgs_get,
     gs_create = sgs_create,
     gs_get_current_block = reads currentBlock,
     gs_get_block_hash = sgs_get_block_hash,
     acc_get_address = (\<lambda>r. ask_entry r (\<lambda>(a, s). sa_address a)),
     acc_get_balance = (\<lambda>r. ask_entry r (\<lambda>(a, s). sa_balance a)),
     acc_set_balance = (\<lambda>r b. on_entry r (\<lambda>(a, s). ((), a\<lparr>sa_balance := b\<rparr>, s))),
     acc_get_nonce = (\<lambda>r. ask_entry r (\<lambda>(a, s). sa_nonce a)),
     acc_increment_nonce = (\<lambda>r. on_entry r (\<lambda>(a, s). ((), sa_increment_nonce a, s))),
     acc_get_code = (\<lambda>r. ask_entry r (\<lambda>(a, s). sa_code a)),
     acc_has_code = (\<lambda>r. ask_entry r (\<lambda>(a, s). sa_has_code a)),
     acc_set_code = (\<lambda>r c. on_entry r (\<lambda>(a, s). ((), a\<lparr>sa_code := c\<rparr>, s))),
     st_store = (\<lambda>r k v. on_entry r (\<lambda>(a, s). ((), a, ss_store k v s))),
     st_load = (\<lambda>r k. ask_entry r (\<lambda>(a, s). ss_load k s)),
     st_remove = (\<lambda>r k. on_entry r (\<lambda>(a, s). case ss_remove k s of (x, s') \<Rightarrow> (x, a, s')))\<rparr>"

text \<open>A small world, for evaluation.\<close>

definition example_block :: Block where
  "example_block = \<lparr>blk_number = 7, blk_gas_limit = 1000, blk_timestamp = 5, blk_coinbase = 9,
    blk_prev_randao = 0, blk_chain_id = 1, blk_base_fee = 0\<rparr>"

definition example_state :: SimpleGlobalState where
  "example_state = \<lparr>currentBlock = example_block,
    accounts = [1 \<mapsto> (new_SimpleAccount 1 10 [], Map.empty), 2 \<mapsto> (new_SimpleAccount 2 5 [], Map.empty)]\<rparr>"

section \<open>The contract\<close>

definition simple_acct :: "SimpleAccount \<times> SimpleStorage \<Rightarrow> acct" where
  "simple_acct p = (case p of (a, s) \<Rightarrow>
    \<lparr>a_address = sa_address a, a_balance = sa_balance a, a_nonce = sa_nonce a,
     a_code = sa_code a, a_storage = s\<rparr>)"

definition simple_view :: "SimpleGlobalState \<Rightarrow> u256 \<Rightarrow> acct option" where
  "simple_view g = (\<lambda>a. map_option simple_acct (accounts g a))"

lemma simple_view_upd:
  "simple_view (g\<lparr>accounts := (accounts g)(a \<mapsto> p)\<rparr>) = (simple_view g)(a \<mapsto> simple_acct p)"
  by (simp add: simple_view_def fun_eq_iff)

lemma simple_view_Some:
  assumes "simple_view g a = Some v"
  obtains acc s where "accounts g a = Some (acc, s)" and "v = simple_acct (acc, s)"
  using assms by (auto simp: simple_view_def)

lemma simple_view_None: "simple_view g a = None \<longleftrightarrow> accounts g a = None"
  by (simp add: simple_view_def)

lemma simple_acct_new: "simple_acct (new_SimpleAccount a b c, Map.empty) = fresh_acct a b c"
  by (simp add: simple_acct_def new_SimpleAccount_def fresh_acct_def)

lemma sgs_create_new:
  "accounts g a = None \<Longrightarrow>
    sgs_create a b c g = (Inr a, g\<lparr>accounts := (accounts g)(a \<mapsto> (new_SimpleAccount a b c, Map.empty))\<rparr>)"
  by (simp add: sgs_create_def andthen_run sgs_insert_def sgs_find_def new_SimpleAccount_def)

lemma on_entry_Some:
  "accounts g r = Some p \<Longrightarrow>
    on_entry r f g = (Inr (fst (f p)), g\<lparr>accounts := (accounts g)(r \<mapsto> snd (f p))\<rparr>)"
  by (simp add: on_entry_def split: prod.split)

lemma ask_entry_Some: "accounts g r = Some p \<Longrightarrow> ask_entry r f g = (Inr (f p), g)"
  by (simp add: ask_entry_def)

lemmas simple_run = simple_ops_def on_entry_Some ask_entry_Some simple_view_upd simple_acct_def

interpretation simple: world simple_ops simple_view
proof unfold_locales
  fix g a v assume "simple_view g a = Some v"
  then show "gs_get simple_ops a g = (Inr a, g)"
    by (elim simple_view_Some) (simp add: simple_ops_def sgs_get_def sgs_find_def)
next
  fix g a assume "simple_view g a = None"
  then have a: "accounts g a = None" by (simp add: simple_view_None)
  then show "\<exists>g'. gs_get simple_ops a g = (Inr a, g') \<and> simple_view g' = (simple_view g)(a \<mapsto> fresh_acct a 0 [])"
    by (simp add: simple_ops_def sgs_get_def sgs_find_def sgs_create_new simple_view_upd simple_acct_new)
  show "\<exists>g'. gs_create simple_ops a b c g = (Inr a, g') \<and> simple_view g' = (simple_view g)(a \<mapsto> fresh_acct a b c)"
    for b c using a by (simp add: simple_ops_def sgs_create_new simple_view_upd simple_acct_new)
next
  fix g a
  show "\<exists>g'. gs_remove simple_ops a g = (Inr (), g') \<and> simple_view g' = (simple_view g)(a := None)"
    by (simp add: simple_ops_def sgs_remove_def simple_view_def fun_eq_iff)
next
  fix g show "\<exists>blk. gs_get_current_block simple_ops g = (Inr blk, g)" by (simp add: simple_ops_def)
next
  fix off g show "\<exists>h. gs_get_block_hash simple_ops off g = (Inr h, g)"
    by (simp add: simple_ops_def sgs_get_block_hash_def)
next
  fix g a v assume v: "simple_view g a = Some v"
  then obtain acc s where e: "accounts g a = Some (acc, s)" "v = simple_acct (acc, s)"
    by (elim simple_view_Some)
  show "acc_get_address simple_ops a g = (Inr (a_address v), g)" using e by (simp add: simple_run)
  show "acc_get_balance simple_ops a g = (Inr (a_balance v), g)" using e by (simp add: simple_run)
  show "acc_get_nonce simple_ops a g = (Inr (a_nonce v), g)" using e by (simp add: simple_run)
  show "acc_get_code simple_ops a g = (Inr (a_code v), g)" using e by (simp add: simple_run)
  show "acc_has_code simple_ops a g = (Inr (a_code v \<noteq> []), g)"
    using e by (simp add: simple_run sa_has_code_def)
  show "st_load simple_ops a k g = (Inr (slot v k), g)" for k using e by (simp add: simple_run ss_load_def slot_def)
  show "\<exists>g'. acc_set_balance simple_ops a b g = (Inr (), g') \<and>
      simple_view g' = (simple_view g)(a \<mapsto> v\<lparr>a_balance := b\<rparr>)" for b
    using e by (simp add: simple_run)
  show "\<exists>g'. acc_increment_nonce simple_ops a g = (Inr (), g') \<and>
      simple_view g' = (simple_view g)(a \<mapsto> v\<lparr>a_nonce := a_nonce v + 1\<rparr>)"
    using e by (simp add: simple_run sa_increment_nonce_def)
  show "\<exists>g'. acc_set_code simple_ops a c g = (Inr (), g') \<and>
      simple_view g' = (simple_view g)(a \<mapsto> v\<lparr>a_code := c\<rparr>)" for c
    using e by (simp add: simple_run)
  show "\<exists>g'. st_store simple_ops a k x g = (Inr (), g') \<and>
      simple_view g' = (simple_view g)(a \<mapsto> v\<lparr>a_storage := (a_storage v)(k \<mapsto> x)\<rparr>)" for k x
    using e by (simp add: simple_run ss_store_def)
  show "\<exists>g'. st_remove simple_ops a k g = (Inr (a_storage v k \<noteq> None), g') \<and>
      simple_view g' = (simple_view g)(a \<mapsto> v\<lparr>a_storage := (a_storage v)(k := None)\<rparr>)" for k
    using e by (auto simp: simple_run ss_remove_def fun_eq_iff)
qed

section \<open>Properties\<close>

text \<open>
  Claim C27.  A payment between two different accounts of the in-memory world neither creates nor
  destroys coins, whether it succeeds or throws.
\<close>

theorem pay_to_conserves_coins:
  assumes "sgs_exists a g" and "sgs_exists b g" and "a \<noteq> b" and "finite A" and "a \<in> A" and "b \<in> A"
  shows "coins (simple_view (snd (pay_to simple_ops a b x g))) A = coins (simple_view g) A"
proof -
  obtain v w where "simple_view g a = Some v" "simple_view g b = Some w"
    using assms(1,2) by (auto simp: sgs_exists_def simple_view_def)
  then show ?thesis using assms(3-6) by (rule simple.pay_to_conserves)
qed

theorem pay_to_conserves_coins_witness:
  "coins (simple_view (snd (pay_to simple_ops 1 2 3 example_state))) {1, 2} =
    coins (simple_view example_state) {1, 2}"
  by (rule pay_to_conserves_coins) (simp_all add: sgs_exists_def example_state_def)

text \<open>
  A payment of an account to itself creates coins: the balance grows by the amount, because
  the reduced balance is overwritten with the balance read before plus the amount.
\<close>

lemma pay_to_self_mints:
  assumes "accounts g a = Some (acc, s)" and "x \<le> sa_balance acc" and "unat (sa_balance acc) + unat x < 2 ^ 256"
  shows "\<exists>g'. pay_to simple_ops a a x g = (Inr (), g') \<and>
    simple_view g' = (simple_view g)(a \<mapsto> (simple_acct (acc, s))\<lparr>a_balance := sa_balance acc + x\<rparr>)"
proof -
  have v: "simple_view g a = Some (simple_acct (acc, s))" by (simp add: simple_view_def assms(1))
  have "sa_balance acc \<le> sa_balance acc + x" using assms(3) by (simp add: no_olen_add_nat)
  then show ?thesis using simple.pay_to_self [OF v, of x] assms(2) by (simp add: simple_acct_def)
qed

text \<open>
  Storage keeps what is stored: after a store, the slot of the account reads as the stored
  value, or as zero when it was removed, and every other slot of every account reads as before.
\<close>

lemma storage_read_back:
  assumes "sgs_exists a g" and "sgs_exists b g"
  shows "fst (bind (st_store simple_ops a k x) (\<lambda>_. st_load simple_ops b j) g) =
      (if a = b \<and> j = k then Inr x else fst (st_load simple_ops b j g)) \<and>
    fst (bind (st_remove simple_ops a k) (\<lambda>_. st_load simple_ops b j) g) =
      (if a = b \<and> j = k then Inr 0 else fst (st_load simple_ops b j g))"
proof -
  obtain v w where v: "simple_view g a = Some v" and w: "simple_view g b = Some w"
    using assms by (auto simp: sgs_exists_def simple_view_def)
  obtain g1 where 1: "st_store simple_ops a k x g = (Inr (), g1)"
    "simple_view g1 = (simple_view g)(a \<mapsto> v\<lparr>a_storage := (a_storage v)(k := Some x)\<rparr>)"
    using simple.store [OF v] by blast
  obtain g2 r where 2: "st_remove simple_ops a k g = (Inr r, g2)"
    "simple_view g2 = (simple_view g)(a \<mapsto> v\<lparr>a_storage := (a_storage v)(k := None)\<rparr>)"
    using simple.st_remove [OF v] by blast
  have slot: "fst (st_load simple_ops b j g') = (if a = b \<and> j = k then Inr (case y of None \<Rightarrow> 0 | Some z \<Rightarrow> z) else fst (st_load simple_ops b j g))"
    if "simple_view g' = (simple_view g)(a \<mapsto> v\<lparr>a_storage := (a_storage v)(k := y)\<rparr>)" for g' y
  proof -
    have "\<exists>w'. simple_view g' b = Some w' \<and> slot w' j = (if a = b \<and> j = k then (case y of None \<Rightarrow> 0 | Some z \<Rightarrow> z) else slot w j)"
      using that v w by (auto simp: slot_def)
    then show ?thesis using w by (auto simp: simple.load)
  qed
  show ?thesis using slot [OF 1(2)] slot [OF 2(2)] 1(1) 2(1) by (simp add: bind_run)
qed

end
