(* ===== verification/Rlp.thy ===== *)
theory Rlp
  imports Util
begin

text \<open>
  The recursive length prefix encoding of \<open>eEVM/include/eEVM/rlp.h\<close> and the address generation
  of \<open>eEVM/src/util.cpp\<close> that uses it.  The C++ code is a family of templates, selected by the
  static types of the arguments; here the types are the values of \<open>rlp_type\<close> and the arguments
  those of \<open>rlp_val\<close>, and a template parameter pack is a list.

  The decoder of the code moves a pointer through a buffer and counts the remaining bytes in an
  unsigned 64-bit size that is passed by reference.  Here the pointer is the list of the bytes from
  it to the end of the buffer, so that a read past the end is visible as undefined behaviour, and the
  size is a 64-bit word, whose subtractions wrap as in the code.

  The theorems are the round trip for every type whose encoding the decoder can read, the
  canonical form of encoded integers, and the cases where the code departs from them.
\<close>

section \<open>Types and values\<close>

datatype rlp_type =
    TBytes
  | TString
  | TUint nat  \<comment> \<open>unsigned integral type of the given width, at most 64 bits\<close>
  | TUint256
  | TByteArray nat
  | TArray rlp_type nat
  | TVector rlp_type
  | TTuple "rlp_type list"

datatype rlp_val =
    VBytes bytes
  | VString string
  | VUint u64
  | VUint256 u256
  | VByteArray bytes
  | VArray "rlp_val list"
  | VVector "rlp_val list"
  | VTuple "rlp_val list"

fun is_tuple :: "rlp_type \<Rightarrow> bool" where
  "is_tuple (TTuple _) = True"
| "is_tuple _ = False"

fun is_tuple_val :: "rlp_val \<Rightarrow> bool" where
  "is_tuple_val (VTuple _) = True"
| "is_tuple_val _ = False"

section \<open>Encoding\<close>

definition to_byte_string_u64 :: "u64 \<Rightarrow> bytes" where
  "to_byte_string_u64 n = snd (fold (\<lambda>byte_index (started, bs).
     let offset = (7 - byte_index) * 8;
         mask = push_bit offset 0xff;
         current_byte = ucast (drop_bit offset (mask AND n)) :: byte
     in if started \<or> current_byte \<noteq> 0 then (True, bs @ [current_byte]) else (started, bs))
   [0..<8] (False, []))"

text \<open>The number of significant bytes of a 256-bit integer, from its four 64-bit words.\<close>

definition uint_word :: "u256 \<Rightarrow> nat \<Rightarrow> u64" where
  "uint_word x i = ucast (drop_bit (64 * i) x)"

definition clz :: "u64 \<Rightarrow> nat" where
  "clz x = length (takeWhile (\<lambda>i. \<not> bit x i) (rev [0..<64]))"

definition count_significant_words :: "u256 \<Rightarrow> nat" where
  "count_significant_words x =
    (if uint_word x 3 \<noteq> 0 then 4 else if uint_word x 2 \<noteq> 0 then 3
     else if uint_word x 1 \<noteq> 0 then 2 else if uint_word x 0 \<noteq> 0 then 1 else 0)"

definition count_significant_bytes_u64 :: "u64 \<Rightarrow> nat" where
  "count_significant_bytes_u64 x = (64 - clz x + 7) div 8"

definition count_significant_bytes :: "u256 \<Rightarrow> nat" where
  "count_significant_bytes x =
    (let w = count_significant_words x
     in if w \<noteq> 0 then count_significant_bytes_u64 (uint_word x (w - 1)) + (w - 1) * 8 else 0)"

definition to_byte_string_u256 :: "u256 \<Rightarrow> bytes" where
  "to_byte_string_u256 n =
    (if n \<noteq> 0 then
       let arr = to_big_endian n; n_bytes = count_significant_bytes n
       in segment (32 - n_bytes) n_bytes arr
     else [])"

definition prefix_multiple_length :: "nat \<Rightarrow> bytes \<Rightarrow> bytes" where
  "prefix_multiple_length total_length bs =
    (if total_length \<le> 55 then word_of_nat (0xc0 + total_length) # bs
     else let total_length_as_bytes = to_byte_string_u64 (word_of_nat total_length);
              length_of_total_length = length total_length_as_bytes
          in word_of_nat (0xf7 + length_of_total_length) # total_length_as_bytes @ bs)"

text \<open>\<open>encode_single\<close> after the conversion of its argument to a byte string.\<close>

definition encode_bytes :: "bytes \<Rightarrow> bytes" where
  "encode_bytes bytes =
    (if length bytes = 1 \<and> bytes ! 0 \<le> 0x7f then bytes
     else if length bytes \<le> 55 then word_of_nat (0x80 + length bytes) # bytes
     else let length_as_bytes = to_byte_string_u64 (word_of_nat (length bytes));
              length_of_length = length length_as_bytes
          in word_of_nat (0xb7 + length_of_length) # length_as_bytes @ bytes)"

fun to_byte_string :: "rlp_val \<Rightarrow> bytes" and encode :: "rlp_val \<Rightarrow> bytes" where
  "to_byte_string (VBytes bs) = bs"
| "to_byte_string (VString s) = bytes_of_string s"
| "to_byte_string (VUint n) = to_byte_string_u64 n"
| "to_byte_string (VUint256 n) = to_byte_string_u256 n"
| "to_byte_string (VByteArray a) = a"
| "to_byte_string (VArray a) =
    (let combined = concat (map encode a) in prefix_multiple_length (length combined) combined)"
| "to_byte_string (VVector v) =
    (let combined = concat (map encode v) in prefix_multiple_length (length combined) combined)"
| "to_byte_string (VTuple ts) = concat (map encode ts)"
| "encode v =
    (if is_tuple_val v
     then prefix_multiple_length (length (to_byte_string v)) (to_byte_string v)
     else encode_bytes (to_byte_string v))"

definition encode_pack :: "rlp_val list \<Rightarrow> bytes" where
  "encode_pack ts =
    (if length ts = 1 then encode (hd ts)
     else let nested_terms = map encode ts;
              total_length = sum_list (map length nested_terms);
              flattened = concat nested_terms
          in prefix_multiple_length total_length flattened)"

section \<open>Decoding\<close>

datatype Arity = Single | Multiple

type_synonym 'a decoder = "bytes \<Rightarrow> u64 \<Rightarrow> exn + 'a \<times> bytes \<times> u64"

definition decode_error :: "string \<Rightarrow> exn" where
  "decode_error msg = StdException LogicError msg"

definition out_of_buffer :: exn where
  "out_of_buffer = UndefinedBehaviour ''read past the end of the buffer''"

definition loop_bound :: exn where
  "loop_bound = UndefinedBehaviour ''loop bound''"

definition from_bytes_size :: "u64 decoder" where
  "from_bytes_size data sz =
    (if unat sz > 8 then
       Inl (decode_error (''Trying to decode number: '' @ to_string (unat sz) @
         ''  is too many bytes for uint64_t''))
     else if length data < unat sz then Inl out_of_buffer
     else Inr (foldl (\<lambda>result b. push_bit 8 result OR ucast b) 0 (take (unat sz) data),
       drop (unat sz) data, 0))"

text \<open>
  The copying loop of byte strings and strings.  Its index has 32 bits and is compared with the
  64-bit size, and every iteration moves the pointer by one byte.  When the size does not fit into
  32 bits the index wraps before it reaches the size, so the loop goes on until it reads past the
  buffer (\<open>copy_loop_wraps\<close> below).  The memory of the result is taken as given: an announced size
  that the allocator refuses throws before the loop, and the model does not have that exception.
\<close>

function copy_loop :: "bytes \<Rightarrow> 32 word \<Rightarrow> u64 \<Rightarrow> bytes \<Rightarrow> exn + bytes \<times> bytes" where
  "copy_loop data i sz result =
    (if (ucast i :: u64) < sz then
       (case data of
         [] \<Rightarrow> Inl out_of_buffer
       | b # data \<Rightarrow> copy_loop data (i + 1) sz (result[unat i := b]))
     else Inr (result, data))"
  by pat_completeness auto
termination
  by (relation "measure (\<lambda>(data, _, _, _). length data)") auto

declare copy_loop.simps [simp del]

definition from_bytes_copy :: "bytes decoder" where
  "from_bytes_copy data sz =
    (case copy_loop data 0 sz (replicate (unat sz) 0) of
      Inl e \<Rightarrow> Inl e
    | Inr (result, data) \<Rightarrow> Inr (result, data, 0))"

definition from_bytes_array :: "nat \<Rightarrow> bytes decoder" where
  "from_bytes_array n data sz =
    (if unat sz \<noteq> n then
       Inl (decode_error (''Trying to decode '' @ to_string n @ '' byte array, but given '' @
         to_string (unat sz) @ '' bytes to decode''))
     else if length data < n then Inl out_of_buffer
     else Inr (take n data, drop n data, 0))"

definition from_bytes_u256 :: "u256 decoder" where
  "from_bytes_u256 data sz =
    (if sz = 0 then Inr (0, data, 0)
     else if length data < unat sz then
       (if unat sz > 32 then Inl (StdException LogicError ''Calling from_big_endian with oversized array'')
        else Inl out_of_buffer)
     else case from_big_endian (take (unat sz) data) of
       Inl e \<Rightarrow> Inl e
     | Inr result \<Rightarrow> Inr (result, drop (unat sz) data, 0))"

definition decode_length :: "(Arity \<times> u64) decoder" where
  "decode_length data sz =
    (if sz = 0 then Inl (decode_error ''Trying to decode length: got empty data'')
     else if data = [] then Inl out_of_buffer
     else if hd data \<le> 0x7f then Inr ((Single, 1), data, sz)
     else
       let len = unat (hd data); data = tl data; sz = sz - 1
       in if len \<le> 0xb7 then Inr ((Single, word_of_nat (len - 0x80)), data, sz)
          else if len \<le> 0xbf then
            let length_of_length = len - 0xb7
            in if unat sz < length_of_length then
                 Inl (decode_error (''Length of next element should be encoded in '' @
                   to_string length_of_length @ '' bytes, but only '' @ to_string (unat sz) @ '' remain''))
               else
                 (case from_bytes_size data (word_of_nat length_of_length) of
                   Inl e \<Rightarrow> Inl e
                 | Inr (content_length, data, _) \<Rightarrow>
                     Inr ((Single, content_length), data, sz - word_of_nat length_of_length))
          else if len \<le> 0xf7 then Inr ((Multiple, word_of_nat (len - 0xc0)), data, sz)
          else
            let length_of_length = len - 0xf7
            in if unat sz < length_of_length then
                 Inl (decode_error (''Length of next list should be encoded in '' @
                   to_string length_of_length @ '' bytes, but only '' @ to_string (unat sz) @ '' remain''))
               else
                 (case from_bytes_size data (word_of_nat length_of_length) of
                   Inl e \<Rightarrow> Inl e
                 | Inr (content_length, data, _) \<Rightarrow>
                     Inr ((Multiple, content_length), data, sz - word_of_nat length_of_length)))"

text \<open>
  The element loops of arrays and vectors, for a given decoder of elements.  The vector loop runs
  while its length is not zero.  Every element it decodes moves the pointer, unless it is an array
  type of no elements, so one more than the number of bytes in the buffer bounds the iterations;
  the lemmas on \<open>advances\<close> below show that the branch \<open>loop_bound\<close> is not reached.
\<close>

primrec decode_times :: "rlp_val decoder \<Rightarrow> nat \<Rightarrow> rlp_val list decoder" where
  "decode_times dec 0 data sz = Inr ([], data, sz)"
| "decode_times dec (Suc n) data sz =
    (case dec data sz of
      Inl e \<Rightarrow> Inl e
    | Inr (v, data, sz) \<Rightarrow>
        (case decode_times dec n data sz of
          Inl e \<Rightarrow> Inl e
        | Inr (vs, data, sz) \<Rightarrow> Inr (v # vs, data, sz)))"

primrec decode_while :: "rlp_val decoder \<Rightarrow> nat \<Rightarrow> rlp_val list decoder" where
  "decode_while dec 0 data sz =
    (if sz = 0 then Inr ([], data, sz) else Inl loop_bound)"
| "decode_while dec (Suc n) data sz =
    (if sz = 0 then Inr ([], data, sz)
     else case dec data sz of
       Inl e \<Rightarrow> Inl e
     | Inr (v, data, sz) \<Rightarrow>
         (case decode_while dec n data sz of
           Inl e \<Rightarrow> Inl e
         | Inr (vs, data, sz) \<Rightarrow> Inr (v # vs, data, sz)))"

text \<open>The header of an item, checked against the arity the type asks for.\<close>

definition decode_header :: "Arity \<Rightarrow> u64 decoder" where
  "decode_header arity data sz =
    (case decode_length data sz of
      Inl e \<Rightarrow> Inl e
    | Inr ((a, contained_length), data, sz) \<Rightarrow>
        if a \<noteq> arity then
          Inl (decode_error (if arity = Single then ''Expected single item, but data encodes a list''
            else ''Expected list item, but data encodes a single item''))
        else Inr (contained_length, data, sz - contained_length))"

definition truncate_uint :: "nat \<Rightarrow> u64 \<Rightarrow> u64" where
  "truncate_uint w n = take_bit w n"

function (sequential) from_bytes :: "rlp_type \<Rightarrow> rlp_val decoder"
  and decode_impl :: "rlp_type \<Rightarrow> rlp_val decoder"
  and decode_tuple :: "rlp_type list \<Rightarrow> rlp_val list decoder" where
  "from_bytes TBytes data sz = map_sum id (map_prod VBytes id) (from_bytes_copy data sz)"
| "from_bytes TString data sz =
    map_sum id (map_prod (VString \<circ> string_of_bytes) id) (from_bytes_copy data sz)"
| "from_bytes (TUint w) data sz =
    map_sum id (map_prod (VUint \<circ> truncate_uint w) id) (from_bytes_size data sz)"
| "from_bytes TUint256 data sz = map_sum id (map_prod VUint256 id) (from_bytes_u256 data sz)"
| "from_bytes (TByteArray n) data sz = map_sum id (map_prod VByteArray id) (from_bytes_array n data sz)"
| "from_bytes (TArray t n) data sz =
    (case decode_length data sz of
      Inl e \<Rightarrow> Inl e
    | Inr (_, data, sz) \<Rightarrow>
        (case decode_times (decode_impl t) n data sz of
          Inl e \<Rightarrow> Inl e
        | Inr (vs, data, sz) \<Rightarrow> Inr (VArray vs, data, 0)))"
| "from_bytes (TVector t) data sz =
    (case decode_length data sz of
      Inl e \<Rightarrow> Inl e
    | Inr ((_, contained_length), data, sz) \<Rightarrow>
        (case decode_while (decode_impl t) (Suc (length data)) data contained_length of
          Inl e \<Rightarrow> Inl e
        | Inr (vs, data, _) \<Rightarrow> Inr (VVector vs, data, 0)))"
| "from_bytes (TTuple ts) data sz = Inl (decode_error ''not instantiated'')"
| "decode_impl t data sz =
    (if is_tuple t then
       (case decode_header Multiple data sz of
         Inl e \<Rightarrow> Inl e
       | Inr (contained_length, data, sz) \<Rightarrow>
           (case decode_tuple (case t of TTuple ts \<Rightarrow> ts | _ \<Rightarrow> []) data contained_length of
             Inl e \<Rightarrow> Inl e
           | Inr (vs, data, _) \<Rightarrow> Inr (VTuple vs, data, sz)))
     else
       (case decode_header Single data sz of
         Inl e \<Rightarrow> Inl e
       | Inr (contained_length, data, sz) \<Rightarrow>
           (case from_bytes t data contained_length of
             Inl e \<Rightarrow> Inl e
           | Inr (v, data, _) \<Rightarrow> Inr (v, data, sz))))"
| "decode_tuple [] data sz = Inr ([], data, sz)"
| "decode_tuple (t # ts) data sz =
    (case decode_impl t data sz of
      Inl e \<Rightarrow> Inl e
    | Inr (v, data, sz) \<Rightarrow>
        (case decode_tuple ts data sz of
          Inl e \<Rightarrow> Inl e
        | Inr (vs, data, sz) \<Rightarrow> Inr (v # vs, data, sz)))"
  by pat_completeness auto
termination
proof (relation "measure (\<lambda>c. case c of
    Inl (t, _, _) \<Rightarrow> 2 * size t
  | Inr (Inl (t, _, _)) \<Rightarrow> 2 * size t + 1
  | Inr (Inr (ts, _, _)) \<Rightarrow> 2 * size_list size ts)", goal_cases)
qed (auto elim!: is_tuple.elims)

section \<open>Parameter packs\<close>

definition components :: "rlp_type \<Rightarrow> rlp_type list" where
  "components t = (case t of TTuple ts \<Rightarrow> ts | _ \<Rightarrow> [])"

definition decode_item :: "rlp_type \<Rightarrow> rlp_val decoder" where
  "decode_item t data sz =
    (if is_tuple t then
       (case decode_tuple (components t) data sz of
         Inl e \<Rightarrow> Inl e
       | Inr (vs, data, sz) \<Rightarrow> Inr (VTuple vs, data, sz))
     else decode_impl t data sz)"

primrec decode_multiple :: "rlp_type list \<Rightarrow> rlp_val list decoder" where
  "decode_multiple [] data sz = Inr ([], data, sz)"
| "decode_multiple (t # ts) data sz =
    (case decode_item t data sz of
      Inl e \<Rightarrow> Inl e
    | Inr (v, data, sz) \<Rightarrow>
        (case decode_multiple ts data sz of
          Inl e \<Rightarrow> Inl e
        | Inr (vs, data, sz) \<Rightarrow> Inr (v # vs, data, sz)))"

definition decode_impl_pack :: "rlp_type list \<Rightarrow> rlp_val list decoder" where
  "decode_impl_pack ts data sz =
    (if length ts = 1 then map_sum id (map_prod (\<lambda>v. [v]) id) (decode_impl (hd ts) data sz)
     else case decode_length data sz of
       Inl e \<Rightarrow> Inl e
     | Inr ((arity, contained_length), data, sz) \<Rightarrow>
         if arity \<noteq> Multiple then
           Inl (decode_error ''Expected list item, but data encodes a single item'')
         else if ts = [] then
           if contained_length \<noteq> 0 then
             Inl (decode_error (''Expected empty list, but data contains '' @
               to_string (unat contained_length) @ '' remaining bytes''))
           else Inr ([], data, sz)
         else
           (case decode_multiple ts data contained_length of
             Inl e \<Rightarrow> Inl e
           | Inr (vs, data, _) \<Rightarrow> Inr (vs, data, sz - contained_length)))"

definition decode :: "rlp_type list \<Rightarrow> bytes \<Rightarrow> exn + rlp_val list" where
  "decode ts bytes =
    (case decode_impl_pack ts bytes (word_of_nat (length bytes)) of
      Inl e \<Rightarrow> Inl e
    | Inr (res, data, sz) \<Rightarrow>
        if sz \<noteq> 0 then
          Inl (decode_error (''Expected to decode entire input, but '' @ to_string (unat sz) @
            '' bytes remain''))
        else Inr res)"

definition decode_single :: "rlp_type \<Rightarrow> bytes \<Rightarrow> exn + rlp_val" where
  "decode_single t bytes = map_sum id hd (decode [t] bytes)"

section \<open>Addresses of created accounts\<close>

definition generate_address :: "u256 \<Rightarrow> u64 \<Rightarrow> u256" where
  "generate_address sender nonce =
    be_load (segment 12 20 (Keccak256 (encode_pack [VUint256 sender, VUint nonce])))"

text \<open>
  \<open>generate_address_for_create2\<close> declares arrays of 256 bytes, stores 32 bytes into each and
  hashes all of them; \<open>junk1\<close> and \<open>junk2\<close> are the 224 bytes of either array that no
  statement initialises.
\<close>

definition create2_data :: "bytes \<Rightarrow> bytes \<Rightarrow> u256 \<Rightarrow> u256 \<Rightarrow> bytes \<Rightarrow> bytes" where
  "create2_data junk1 junk2 sender salt init_code =
    [0xff] @ (to_big_endian sender @ junk1) @ (to_big_endian salt @ junk2) @
    HashBytes (Keccak256 init_code)"

definition generate_address_for_create2 :: "bytes \<Rightarrow> bytes \<Rightarrow> u256 \<Rightarrow> u256 \<Rightarrow> bytes \<Rightarrow> u256" where
  "generate_address_for_create2 junk1 junk2 sender salt init_code =
    be_load (segment 12 20 (Keccak256 (create2_data junk1 junk2 sender salt init_code)))"

section \<open>Values of a type\<close>

fun has_type :: "rlp_type \<Rightarrow> rlp_val \<Rightarrow> bool" where
  "has_type TBytes (VBytes bs) = True"
| "has_type TString (VString s) = True"
| "has_type (TUint w) (VUint n) = (unat n < 2 ^ w)"
| "has_type TUint256 (VUint256 n) = True"
| "has_type (TByteArray n) (VByteArray bs) = (length bs = n)"
| "has_type (TArray t n) (VArray vs) = (length vs = n \<and> list_all (has_type t) vs)"
| "has_type (TVector t) (VVector vs) = list_all (has_type t) vs"
| "has_type (TTuple ts) (VTuple vs) = list_all2 has_type ts vs"
| "has_type _ _ = False"

section \<open>Notions for the proofs\<close>

definition length_prefix :: "nat \<Rightarrow> nat \<Rightarrow> nat \<Rightarrow> bytes" where
  "length_prefix short_base long_base n =
    (if n \<le> 55 then [word_of_nat (short_base + n)]
     else word_of_nat (long_base + length (to_byte_string_u64 (word_of_nat n))) #
       to_byte_string_u64 (word_of_nat n))"

definition reads_back :: "('v \<Rightarrow> bytes) \<Rightarrow> 'v decoder \<Rightarrow> 'v \<Rightarrow> bool" where
  "reads_back enc dec v \<longleftrightarrow> (\<forall>rest sz. length (enc v) \<le> unat sz \<longrightarrow>
    dec (enc v @ rest) sz = Inr (v, rest, sz - word_of_nat (length (enc v))))"


text \<open>How the decoder may fail: it throws a logic error, of which \<open>decode_error\<close> is one, or leaves the buffer.\<close>

definition proper_failure :: "exn \<Rightarrow> bool" where
  "proper_failure e \<longleftrightarrow> e = out_of_buffer \<or> (\<exists>m. e = StdException LogicError m)"

definition advances :: "bool \<Rightarrow> bytes \<Rightarrow> exn + 'a \<times> bytes \<times> u64 \<Rightarrow> bool" where
  "advances strict data r = (case r of
      Inl e \<Rightarrow> proper_failure e
    | Inr (v, d, s) \<Rightarrow> length d \<le> length data \<and> (strict \<longrightarrow> length d < length data))"


section \<open>Big-endian integers and headers\<close>

lemma fold_started:
  "fold (\<lambda>b (started, bs). if started \<or> b \<noteq> 0 then (True, bs @ [b]) else (started, bs)) xs (True, acc) =
    (True, acc @ xs)" for xs :: bytes
  by (induction xs arbitrary: acc) simp_all

lemma fold_trim:
  "snd (fold (\<lambda>b (started, bs). if started \<or> b \<noteq> 0 then (True, bs @ [b]) else (started, bs)) xs (False, [])) =
    trim xs" for xs :: bytes
  by (induction xs) (simp_all add: trim_def fold_started)

lemma current_byte:
  fixes n :: u64
  assumes "k \<le> 7"
  shows "(ucast (drop_bit (k * 8) (push_bit (k * 8) 0xff AND n)) :: byte) = word_of_nat (unat n div 256 ^ k)"
proof -
  have "(ucast (drop_bit (k * 8) (push_bit (k * 8) 0xff AND n)) :: byte) = ucast (drop_bit (8 * k) n)"
  proof (rule bit_word_eqI)
    fix i assume "i < LENGTH(8)"
    then have i: "i < 8" by simp
    have m: "(0xff :: u64) = mask 8" by (simp add: mask_eq_exp_minus_1)
    show "bit (ucast (drop_bit (k * 8) (push_bit (k * 8) 0xff AND n)) :: byte) i =
        bit (ucast (drop_bit (8 * k) n) :: byte) i"
      unfolding m using i assms
      by (auto simp: bit_simps bit_mask_iff ac_simps dest: bit_imp_le_length)
  qed
  then show ?thesis by (simp add: ucast_drop_bit_byte)
qed

lemma to_byte_string_u64_trim: "to_byte_string_u64 n = trim (be_of_nat 8 (unat n))"
proof -
  have eq: "map (\<lambda>i. ucast (drop_bit ((7 - i) * 8) (push_bit ((7 - i) * 8) 0xff AND n)) :: byte) [0..<8] =
      be_of_nat 8 (unat n)"
    unfolding be_of_nat_map
  proof (rule map_cong [OF refl])
    fix i :: nat
    have "8 - 1 - i = 7 - i" by simp
    then show "ucast (drop_bit ((7 - i) * 8) (push_bit ((7 - i) * 8) 0xff AND n)) =
        (word_of_nat (unat n div 256 ^ (8 - 1 - i)) :: byte)"
      by (simp only: current_byte diff_le_self)
  qed
  show ?thesis
    unfolding to_byte_string_u64_def fold_trim [symmetric] eq [symmetric] fold_map comp_def Let_def
    by (rule refl)
qed

lemma nat_of_be_u64 [simp]: "nat_of_be (to_byte_string_u64 n) = unat n"
proof -
  have "unat n < 256 ^ 8" using unsigned_less [of n] by simp
  then show ?thesis by (simp add: to_byte_string_u64_trim nat_of_be_of_nat)
qed

lemma length_u64: "length (to_byte_string_u64 n) \<le> 8"
  using length_trim_le [of "be_of_nat 8 (unat n)"] by (simp add: to_byte_string_u64_trim)

lemma length_u64_pos: "n \<noteq> 0 \<Longrightarrow> 1 \<le> length (to_byte_string_u64 n)"
  by (metis Suc_le_eq One_nat_def length_greater_0_conv nat_of_be_Nil nat_of_be_u64 unat_eq_zero)

lemma foldl_or_nat:
  "foldl (\<lambda>r b. push_bit 8 r OR ucast b) (word_of_nat x) bs = (word_of_nat (foldl (\<lambda>a b. a * 256 + unat b) x bs) :: u64)"
  for bs :: bytes
proof (induction bs arbitrary: x)
  case (Cons b bs)
  have "push_bit 8 (word_of_nat x :: u64) AND ucast b = 0"
  proof (rule bit_word_eqI)
    fix n
    have "\<not> bit b n" if "8 \<le> n" for b :: byte using bit_imp_le_length [of b n] that by auto
    then show "bit (push_bit 8 (word_of_nat x :: u64) AND ucast b) n = bit (0::u64) n"
      by (auto simp: bit_simps)
  qed
  then have "push_bit 8 (word_of_nat x :: u64) OR ucast b = push_bit 8 (word_of_nat x) + ucast b"
    by (simp add: disjunctive_add_eq_or)
  also have "\<dots> = word_of_nat (x * 256 + unat b)" by (simp add: push_bit_eq_mult)
  finally show ?case using Cons [of "x * 256 + unat b"] by simp
qed simp

lemma from_bytes_size_bytes:
  "length bs \<le> 8 \<Longrightarrow> from_bytes_size (bs @ rest) (word_of_nat (length bs)) = Inr (word_of_nat (nat_of_be bs), rest, 0)"
  using foldl_or_nat [of 0 bs]
  by (simp add: from_bytes_size_def nat_of_be_def unsigned_of_nat take_bit_nat_eq_self)

lemma from_bytes_size_u64:
  "from_bytes_size (to_byte_string_u64 n @ rest) (word_of_nat (length (to_byte_string_u64 n))) = Inr (n, rest, 0)"
  by (simp add: from_bytes_size_bytes length_u64)

lemma word64_of_nat_small: "n < 2 ^ 64 \<Longrightarrow> unat (word_of_nat n :: u64) = n"
  by (simp add: unsigned_of_nat take_bit_nat_eq_self)

lemma unat_header: "n < 256 \<Longrightarrow> unat (word_of_nat n :: byte) = n"
  by (simp add: unat_byte_of_nat)

lemma header_gt: "128 \<le> n \<Longrightarrow> n < 256 \<Longrightarrow> \<not> (word_of_nat n :: byte) \<le> 0x7f"
  by (simp add: word_le_nat_alt unat_header)

lemma prefix_multiple_length_eq: "prefix_multiple_length n bs = length_prefix 0xc0 0xf7 n @ bs"
  by (simp add: prefix_multiple_length_def length_prefix_def Let_def)

lemma encode_bytes_eq:
  "encode_bytes bs = (if length bs = 1 \<and> bs ! 0 \<le> 0x7f then bs else length_prefix 0x80 0xb7 (length bs) @ bs)"
  by (simp add: encode_bytes_def length_prefix_def Let_def)

lemma long_prefix_length:
  assumes "55 < n" and "n < 2 ^ 64"
  shows "1 \<le> length (to_byte_string_u64 (word_of_nat n))" and "length (to_byte_string_u64 (word_of_nat n)) \<le> 8"
proof -
  have "unat (word_of_nat n :: u64) = n" using assms(2) by (rule word64_of_nat_small)
  then have "(word_of_nat n :: u64) \<noteq> 0" using assms(1) by (metis less_nat_zero_code unat_0)
  then show "1 \<le> length (to_byte_string_u64 (word_of_nat n))" by (rule length_u64_pos)
  show "length (to_byte_string_u64 (word_of_nat n)) \<le> 8" by (rule length_u64)
qed

lemma length_length_prefix: "1 \<le> length (length_prefix a b n)"
  by (simp add: length_prefix_def)

lemma decode_length_prefix:
  assumes n: "n < 2 ^ 64" and sz: "length (length_prefix a b n) \<le> unat sz"
    and ab: "(arity = Single \<and> a = 0x80 \<and> b = 0xb7) \<or> (arity = Multiple \<and> a = 0xc0 \<and> b = 0xf7)"
  shows "decode_length (length_prefix a b n @ rest) sz =
    Inr ((arity, word_of_nat n), rest, sz - word_of_nat (length (length_prefix a b n)))"
proof (cases "n \<le> 55")
  case True
  define h :: byte where "h = word_of_nat (a + n)"
  have "128 \<le> a + n" "a + n < 256" using True ab by auto
  then have h: "unat h = a + n" "\<not> h \<le> 0x7f" unfolding h_def by (simp_all only: unat_header header_gt simp_thms)
  have "sz \<noteq> 0" using sz length_length_prefix [of a b n] by auto
  moreover have "length_prefix a b n = [h]" using True by (simp add: length_prefix_def h_def)
  ultimately show ?thesis using h ab True by (auto simp: decode_length_def Let_def)
next
  case False
  let ?l = "to_byte_string_u64 (word_of_nat n)"
  have l: "1 \<le> length ?l" "length ?l \<le> 8" using long_prefix_length [of n] n False by auto
  define h :: byte where "h = word_of_nat (b + length ?l)"
  have "128 \<le> b + length ?l" "b + length ?l < 256" using l ab by auto
  then have h: "unat h = b + length ?l" "\<not> h \<le> 0x7f" unfolding h_def by (simp_all only: unat_header header_gt simp_thms)
  have lp: "length_prefix a b n = h # ?l"
    using False by (simp add: length_prefix_def h_def)
  have sz1: "1 + length ?l \<le> unat sz" using sz lp by simp
  then have "sz \<noteq> 0" by auto
  moreover have "unat (sz - 1) = unat sz - 1"
    using \<open>sz \<noteq> 0\<close> by (simp add: unat_minus_one)
  then have "length ?l \<le> unat (sz - 1)" using sz1 by simp
  moreover have "sz - 1 - word_of_nat (length ?l) = sz - word_of_nat (length (length_prefix a b n))"
    by (simp add: lp algebra_simps)
  ultimately show ?thesis using ab l from_bytes_size_u64 [of "word_of_nat n" rest]
    by (auto simp: decode_length_def lp h Let_def)
qed

lemma decode_header_single:
  assumes "length bs < 2 ^ 64" and "length (encode_bytes bs) \<le> unat sz"
  shows "decode_header Single (encode_bytes bs @ rest) sz =
    Inr (word_of_nat (length bs), bs @ rest, sz - word_of_nat (length (encode_bytes bs)))"
proof (cases "length bs = 1 \<and> bs ! 0 \<le> 0x7f")
  case True
  then obtain b where b: "bs = [b]" "b \<le> 0x7f" by (auto simp: length_Suc_conv)
  then have e: "encode_bytes bs = [b]" by (simp add: encode_bytes_def)
  then have "sz \<noteq> 0" using assms(2) by auto
  then show ?thesis using b e by (simp add: decode_header_def decode_length_def)
next
  case False
  let ?p = "length_prefix 0x80 0xb7 (length bs)"
  have e: "encode_bytes bs = ?p @ bs" using False by (simp only: encode_bytes_eq if_False)
  have "decode_length (?p @ (bs @ rest)) sz =
      Inr ((Single, word_of_nat (length bs)), bs @ rest, sz - word_of_nat (length ?p))"
    by (rule decode_length_prefix) (use assms e in auto)
  then show ?thesis unfolding e by (simp add: decode_header_def algebra_simps)
qed

lemma decode_header_multiple:
  assumes "length bs < 2 ^ 64" and "length (prefix_multiple_length (length bs) bs) \<le> unat sz"
  shows "decode_header Multiple (prefix_multiple_length (length bs) bs @ rest) sz =
    Inr (word_of_nat (length bs), bs @ rest, sz - word_of_nat (length (prefix_multiple_length (length bs) bs)))"
proof -
  let ?p = "length_prefix 0xc0 0xf7 (length bs)"
  have "decode_length (?p @ (bs @ rest)) sz =
      Inr ((Multiple, word_of_nat (length bs)), bs @ rest, sz - word_of_nat (length ?p))"
    by (rule decode_length_prefix) (use assms in \<open>auto simp: prefix_multiple_length_eq\<close>)
  then show ?thesis by (simp add: decode_header_def prefix_multiple_length_eq algebra_simps)
qed

section \<open>256-bit integers\<close>

lemma unat_less_bits: "(\<And>i. b \<le> i \<Longrightarrow> \<not> bit x i) \<Longrightarrow> unat x < 2 ^ b" for x :: "'a::len word"
proof -
  assume a: "\<And>i. b \<le> i \<Longrightarrow> \<not> bit x i"
  have "take_bit b x = x"
    by (rule bit_word_eqI) (use a in \<open>auto simp: bit_take_bit_iff not_less [symmetric]\<close>)
  then have "unat x = take_bit b (unat x)" by (metis unsigned_take_bit_eq)
  then show ?thesis by (metis take_bit_nat_less_exp)
qed

lemma unat_ge_bit: "bit x b \<Longrightarrow> 2 ^ b \<le> unat x" for x :: "'a::len word"
proof -
  assume "bit x b"
  then have "odd (drop_bit b x)" by (simp add: bit_iff_odd_drop_bit)
  then have "drop_bit b x \<noteq> 0" by auto
  then have "unat x div 2 ^ b \<noteq> 0" by (metis unat_drop_bit unat_eq_zero)
  then show ?thesis by (metis div_less not_less)
qed

lemma clz_bounds:
  assumes "x \<noteq> 0"
  shows "clz x < 64" and "2 ^ (63 - clz x) \<le> unat x" and "unat x < 2 ^ (64 - clz x)"
proof -
  let ?P = "\<lambda>i. \<not> bit x i" and ?L = "rev [0..<64]"
  have "\<exists>i < 64. bit x i"
  proof (rule ccontr)
    assume "\<not> ?thesis"
    then have "x = 0" by (intro bit_word_eqI) auto
    then show False using assms by simp
  qed
  then have "takeWhile ?P ?L \<noteq> ?L" by (auto simp: takeWhile_eq_all_conv)
  then have "length (takeWhile ?P ?L) \<noteq> length ?L" by (metis takeWhile_eq_take take_all order_refl)
  then show c: "clz x < 64"
    using length_takeWhile_le [of ?P ?L] by (simp add: clz_def)
  have nth: "?L ! k = 63 - k" if "k < 64" for k using that by (simp add: rev_nth)
  have "\<not> ?P (?L ! clz x)" unfolding clz_def by (rule nth_length_takeWhile) (use c in \<open>simp add: clz_def\<close>)
  then have "bit x (63 - clz x)" using nth [OF c] by simp
  then show "2 ^ (63 - clz x) \<le> unat x" by (rule unat_ge_bit)
  have "\<not> bit x i" if i: "64 - clz x \<le> i" for i
  proof (cases "i < 64")
    case True
    then have "63 - i < length (takeWhile ?P ?L)" using i c by (simp add: clz_def)
    then have "takeWhile ?P ?L ! (63 - i) \<in> set (takeWhile ?P ?L)" by (rule nth_mem)
    then have "?P (takeWhile ?P ?L ! (63 - i))" by (blast dest: set_takeWhileD)
    then have "?P (?L ! (63 - i))" using \<open>63 - i < length (takeWhile ?P ?L)\<close> by (simp add: takeWhile_nth)
    then show ?thesis using True nth [of "63 - i"] by simp
  next
    case False
    then show ?thesis using bit_imp_le_length [of x i] by auto
  qed
  then show "unat x < 2 ^ (64 - clz x)" by (rule unat_less_bits)
qed

lemma count_significant_bytes_u64_bounds:
  assumes "x \<noteq> 0"
  shows "1 \<le> count_significant_bytes_u64 x" and "256 ^ (count_significant_bytes_u64 x - 1) \<le> unat x"
    and "unat x < 256 ^ count_significant_bytes_u64 x"
proof -
  let ?k = "count_significant_bytes_u64 x"
  note c = clz_bounds [OF assms]
  show k: "1 \<le> ?k" using c(1) by (simp add: count_significant_bytes_u64_def)
  have "8 * (?k - 1) \<le> 63 - clz x" using c(1) by (simp add: count_significant_bytes_u64_def)
  then have "(2::nat) ^ (8 * (?k - 1)) \<le> 2 ^ (63 - clz x)" by (rule power_increasing) simp
  then show "256 ^ (?k - 1) \<le> unat x" using c(2) by (simp add: power_mult)
  have "64 - clz x \<le> 8 * ?k" by (simp add: count_significant_bytes_u64_def)
  then have "(2::nat) ^ (64 - clz x) \<le> 2 ^ (8 * ?k)" by (rule power_increasing) simp
  then show "unat x < 256 ^ ?k" using c(3) by (simp add: power_mult)
qed

lemma unat_uint_word: "unat (uint_word x i) = unat x div 2 ^ (64 * i) mod 2 ^ 64"
  unfolding uint_word_def unsigned_ucast_eq unat_drop_bit by (simp add: take_bit_eq_mod)

lemma top_word:
  assumes "unat x < 2 ^ (64 * Suc i)"
  shows "unat (uint_word x i) = unat x div 2 ^ (64 * i)"
proof -
  have "(2::nat) ^ (64 * Suc i) = 2 ^ 64 * 2 ^ (64 * i)" by (simp only: mult_Suc_right power_add)
  with assms have "unat x < 2 ^ 64 * 2 ^ (64 * i)" by (simp only:)
  then have "unat x div 2 ^ (64 * i) < 2 ^ 64" by (rule less_mult_imp_div_less)
  then show ?thesis by (simp add: unat_uint_word)
qed

lemma top_word_zero:
  assumes "unat x < 2 ^ (64 * Suc i)" and "uint_word x i = 0"
  shows "unat x < 2 ^ (64 * i)"
  using top_word [OF assms(1)] assms(2) by (simp add: div_eq_0_iff)

lemma count_significant_words_bounds:
  assumes "x \<noteq> 0"
  defines "w \<equiv> count_significant_words x"
  shows "1 \<le> w" and "w \<le> 4" and "uint_word x (w - 1) \<noteq> 0" and "unat x < 2 ^ (64 * w)"
proof -
  have b4: "unat x < 2 ^ (64 * Suc 3)" using unsigned_less [of x] by simp
  have b3: "unat x < 2 ^ (64 * Suc 2)" if "uint_word x 3 = 0" using top_word_zero [OF b4 that] by simp
  have b2: "unat x < 2 ^ (64 * Suc 1)" if "uint_word x 3 = 0" "uint_word x 2 = 0"
    using top_word_zero [OF b3 that(2)] that(1) by simp
  have b1: "unat x < 2 ^ (64 * Suc 0)" if "uint_word x 3 = 0" "uint_word x 2 = 0" "uint_word x 1 = 0"
    using top_word_zero [OF b2 that(3)] that(1,2) by simp
  have "uint_word x 0 \<noteq> 0" if "uint_word x 3 = 0" "uint_word x 2 = 0" "uint_word x 1 = 0"
  proof
    assume "uint_word x 0 = 0"
    then have "unat x < 1" using top_word_zero [OF b1 [OF that]] by simp
    then show False using assms(1) by (simp add: unat_eq_zero)
  qed
  with b4 b3 b2 b1 show "1 \<le> w" "w \<le> 4" "uint_word x (w - 1) \<noteq> 0" "unat x < 2 ^ (64 * w)"
    by (auto simp: w_def count_significant_words_def)
qed

lemma count_significant_bytes_bounds:
  assumes "x \<noteq> 0"
  shows "256 ^ (count_significant_bytes x - 1) \<le> unat x" and "unat x < 256 ^ count_significant_bytes x"
    and "1 \<le> count_significant_bytes x"
proof -
  define w where "w = count_significant_words x"
  define t where "t = uint_word x (w - 1)"
  note b = count_significant_words_bounds [OF assms, folded w_def]
  have w: "w = Suc (w - 1)" using b(1) by simp
  let ?k = "count_significant_bytes_u64 t"
  have t0: "t \<noteq> 0" using b(3) by (simp add: t_def)
  note k = count_significant_bytes_u64_bounds [OF t0]
  have n: "count_significant_bytes x = ?k + (w - 1) * 8"
    using b(1) by (simp add: count_significant_bytes_def Let_def w_def t_def)
  have t: "unat t = unat x div 256 ^ ((w - 1) * 8)"
  proof -
    have "unat x < 2 ^ (64 * Suc (w - 1))" using b(4) w by simp
    moreover have "(2::nat) ^ (64 * (w - 1)) = 256 ^ ((w - 1) * 8)"
    proof -
      have "(256::nat) ^ ((w - 1) * 8) = (2 ^ 8) ^ ((w - 1) * 8)" by simp
      also have "\<dots> = 2 ^ (8 * ((w - 1) * 8))" by (rule power_mult [symmetric])
      finally show ?thesis by (simp add: ac_simps)
    qed
    ultimately show ?thesis unfolding t_def by (simp only: top_word)
  qed
  show "1 \<le> count_significant_bytes x" using k(1) n by simp
  have "count_significant_bytes x - 1 = (?k - 1) + (w - 1) * 8" using k(1) n by simp
  then have "(256::nat) ^ (count_significant_bytes x - 1) = 256 ^ (?k - 1) * 256 ^ ((w - 1) * 8)"
    by (simp only: power_add)
  also have "\<dots> \<le> unat t * 256 ^ ((w - 1) * 8)" using k(2) by simp
  also have "\<dots> \<le> unat x" unfolding t by (simp add: div_times_less_eq_dividend)
  finally show "256 ^ (count_significant_bytes x - 1) \<le> unat x" .
  have "unat x < (unat t + 1) * 256 ^ ((w - 1) * 8)"
    unfolding t by (metis Suc_eq_plus1 dividend_less_div_times mult.commute mult_Suc zero_less_numeral zero_less_power add.commute)
  also have "\<dots> \<le> 256 ^ ?k * 256 ^ ((w - 1) * 8)" by (rule mult_le_mono1) (use k(3) in simp)
  finally show "unat x < 256 ^ count_significant_bytes x" by (simp add: n power_add)
qed

lemma trim_suffix: "trim bs = drop (length bs - length (trim bs)) bs"
  unfolding trim_def by (metis append_eq_conv_conj length_append add_diff_cancel_right' takeWhile_dropWhile_id)

lemma to_byte_string_u256_trim: "to_byte_string_u256 n = trim (to_big_endian n)"
proof (cases "n = 0")
  case True
  have "trim (to_big_endian 0) = []"
    by (simp add: trim_def to_big_endian_def dropWhile_eq_Nil_conv)
  with True show ?thesis by (simp add: to_byte_string_u256_def)
next
  case False
  let ?k = "count_significant_bytes n"
  note k = count_significant_bytes_bounds [OF False]
  have len: "length (trim (to_big_endian n)) = ?k"
    using length_trim_unique [of "?k - 1" "to_big_endian n"] k by simp
  then have "?k \<le> 32" using length_trim_le [of "to_big_endian n"] by simp
  then show ?thesis using False trim_suffix [of "to_big_endian n"] len
    by (simp add: to_byte_string_u256_def segment_def Let_def)
qed

section \<open>The decoder reads back what the encoder wrote\<close>

declare encode.simps [simp del] decode_impl.simps [simp del]

lemma unat_sub_of_nat: "k \<le> unat sz \<Longrightarrow> unat (sz - word_of_nat k) = unat sz - k" for sz :: u64
proof -
  assume k: "k \<le> unat sz"
  have "unat (word_of_nat k :: u64) = k"
    using k unsigned_less [of sz, where ?'a = nat] by (intro word64_of_nat_small) simp
  then show ?thesis using k by (simp add: unat_sub word_le_nat_alt)
qed

text \<open>A decoder that reads back what an encoder wrote, whatever follows it.\<close>

lemma reads_backD:
  "reads_back enc dec v \<Longrightarrow> length (enc v) \<le> unat sz \<Longrightarrow>
    dec (enc v @ rest) sz = Inr (v, rest, sz - word_of_nat (length (enc v)))"
  by (simp add: reads_back_def)

lemma decode_times_reads_back:
  "(\<And>v. v \<in> set vs \<Longrightarrow> reads_back enc dec v) \<Longrightarrow> length (concat (map enc vs)) \<le> unat sz \<Longrightarrow>
    decode_times dec (length vs) (concat (map enc vs) @ rest) sz =
      Inr (vs, rest, sz - word_of_nat (length (concat (map enc vs))))"
proof (induction vs arbitrary: sz)
  case (Cons v vs)
  have v: "dec (enc v @ (concat (map enc vs) @ rest)) sz =
      Inr (v, concat (map enc vs) @ rest, sz - word_of_nat (length (enc v)))"
    by (rule reads_backD) (use Cons.prems in auto)
  have "length (concat (map enc vs)) \<le> unat (sz - word_of_nat (length (enc v)))"
    using Cons.prems(2) by (simp add: unat_sub_of_nat)
  with Cons v show ?case by (simp add: algebra_simps)
qed simp

lemma decode_while_reads_back:
  "(\<And>v. v \<in> set vs \<Longrightarrow> reads_back enc dec v) \<Longrightarrow> (\<And>v. v \<in> set vs \<Longrightarrow> enc v \<noteq> []) \<Longrightarrow>
    length (concat (map enc vs)) < 2 ^ 64 \<Longrightarrow> length vs \<le> n \<Longrightarrow>
    decode_while dec n (concat (map enc vs) @ rest) (word_of_nat (length (concat (map enc vs)))) =
      Inr (vs, rest, 0)"
proof (induction vs arbitrary: n)
  case Nil
  then show ?case by (cases n) simp_all
next
  case (Cons v vs)
  obtain m where n: "n = Suc m" using Cons.prems(4) by (cases n) auto
  let ?c = "concat (map enc (v # vs))"
  have u: "unat (word_of_nat (length ?c) :: u64) = length ?c" by (rule word64_of_nat_small) (rule Cons.prems(3))
  have "length ?c \<noteq> 0" using Cons.prems(2) by simp
  then have nz: "(word_of_nat (length ?c) :: u64) \<noteq> 0" using u by (metis unat_0)
  have v: "dec (enc v @ (concat (map enc vs) @ rest)) (word_of_nat (length ?c)) =
      Inr (v, concat (map enc vs) @ rest, word_of_nat (length ?c) - word_of_nat (length (enc v)))"
    by (rule reads_backD) (use Cons.prems(1) u in auto)
  have "word_of_nat (length ?c) - word_of_nat (length (enc v)) = (word_of_nat (length (concat (map enc vs))) :: u64)"
    by simp
  moreover have "decode_while dec m (concat (map enc vs) @ rest) (word_of_nat (length (concat (map enc vs)))) =
      Inr (vs, rest, 0)"
    using Cons.IH [of m] Cons.prems n by simp
  ultimately show ?case using nz v unfolding n by simp
qed

lemma decode_tuple_reads_back:
  "list_all2 (\<lambda>t v. reads_back encode (decode_impl t) v) ts vs \<Longrightarrow> length (concat (map encode vs)) \<le> unat sz \<Longrightarrow>
    decode_tuple ts (concat (map encode vs) @ rest) sz =
      Inr (vs, rest, sz - word_of_nat (length (concat (map encode vs))))"
proof (induction ts vs arbitrary: sz rule: list_all2_induct)
  case (Cons t ts v vs)
  have v: "decode_impl t (encode v @ (concat (map encode vs) @ rest)) sz =
      Inr (v, concat (map encode vs) @ rest, sz - word_of_nat (length (encode v)))"
    by (rule reads_backD [OF Cons(1)]) (use Cons.prems in auto)
  have "length (concat (map encode vs)) \<le> unat (sz - word_of_nat (length (encode v)))"
    using Cons.prems by (simp add: unat_sub_of_nat)
  with Cons v show ?case by (simp add: algebra_simps)
qed simp

lemma encode_nonempty: "encode v \<noteq> []"
  by (auto simp: encode.simps prefix_multiple_length_def encode_bytes_def Let_def)

lemma length_concat_encode: "length vs \<le> length (concat (map encode vs))"
proof (induction vs)
  case (Cons v vs)
  have "1 \<le> length (encode v)" using encode_nonempty [of v] by (simp add: Suc_le_eq)
  with Cons.IH show ?case by (simp only: list.map concat.simps length_append list.size)
qed simp

lemma string_bytes_inverse: "string_of_bytes (bytes_of_string s) = s"
  by (simp add: string_of_bytes_def bytes_of_string_def comp_def unat_byte_of_nat)

lemma length_encode_bytes: "length bs \<le> length (encode_bytes bs)"
  by (simp add: encode_bytes_def Let_def)

lemma single_reads_back:
  assumes "\<not> is_tuple t" and "\<not> is_tuple_val v" and "length (encode v) < 2 ^ 32"
    and conv: "\<And>rest. length (to_byte_string v) < 2 ^ 32 \<Longrightarrow>
      from_bytes t (to_byte_string v @ rest) (word_of_nat (length (to_byte_string v))) = Inr (v, rest, 0)"
  shows "reads_back encode (decode_impl t) v"
  unfolding reads_back_def
proof (intro allI impI)
  fix rest and sz :: u64 assume sz: "length (encode v) \<le> unat sz"
  have e: "encode v = encode_bytes (to_byte_string v)" using assms(2) by (simp add: encode.simps)
  have len: "length (to_byte_string v) < 2 ^ 32"
    using length_encode_bytes [of "to_byte_string v"] assms(3) e by simp
  have "decode_header Single (encode v @ rest) sz =
      Inr (word_of_nat (length (to_byte_string v)), to_byte_string v @ rest, sz - word_of_nat (length (encode v)))"
    unfolding e by (rule decode_header_single) (use len sz e in auto)
  then show "decode_impl t (encode v @ rest) sz = Inr (v, rest, sz - word_of_nat (length (encode v)))"
    using assms(1) conv [OF len, of rest] by (simp add: decode_impl.simps)
qed

lemma unat_length_u64: "length bs < 2 ^ 32 \<Longrightarrow> unat (word_of_nat (length bs) :: u64) = length bs"
  by (rule word64_of_nat_small) simp

text \<open>The copying loop: with a size below \<open>2 ^ 32\<close> it copies, with a greater size it leaves the buffer.\<close>

lemma unat_ucast_32: "unat (ucast i :: u64) = unat i" for i :: "32 word"
proof -
  have "unat i < 2 ^ 64" using unsigned_less [of i, where ?'a = nat] by simp
  then show ?thesis by (simp add: unsigned_ucast_eq take_bit_nat_eq_self)
qed

lemma copy_loop_wraps: "2 ^ 32 \<le> unat sz \<Longrightarrow> copy_loop data i sz result = Inl out_of_buffer"
proof (induction data arbitrary: i result)
  case Nil
  have "(ucast i :: u64) < sz"
    using Nil unsigned_less [of i, where ?'a = nat] by (simp add: word_less_nat_alt unat_ucast_32)
  then show ?case by (simp add: copy_loop.simps)
next
  case (Cons b data)
  have "(ucast i :: u64) < sz"
    using Cons.prems unsigned_less [of i, where ?'a = nat] by (simp add: word_less_nat_alt unat_ucast_32)
  then show ?case using Cons.IH [OF Cons.prems] by (subst copy_loop.simps) simp
qed

lemma copy_loop_copies:
  assumes "unat sz < 2 ^ 32"
  shows "length result = unat sz \<Longrightarrow> unat i \<le> unat sz \<Longrightarrow>
    copy_loop data i sz result = (if length data < unat sz - unat i then Inl out_of_buffer
      else Inr (take (unat i) result @ take (unat sz - unat i) data, drop (unat sz - unat i) data))"
proof (induction data arbitrary: i result)
  case Nil
  then show ?case by (subst copy_loop.simps) (auto simp: word_less_nat_alt unat_ucast_32)
next
  case (Cons b data)
  show ?case
  proof (cases "unat i < unat sz")
    case True
    have "unat i + unat (1 :: 32 word) < 2 ^ 32" using True assms by simp
    then have u: "unat (i + 1) = unat i + 1" by (subst unat_add_lem [THEN iffD1]) simp_all
    have "copy_loop (b # data) i sz result = copy_loop data (i + 1) sz (result[unat i := b])"
      using True by (subst copy_loop.simps) (simp add: word_less_nat_alt unat_ucast_32)
    also have "\<dots> = (if length data < unat sz - (unat i + 1) then Inl out_of_buffer
      else Inr (take (unat i + 1) (result[unat i := b]) @ take (unat sz - (unat i + 1)) data,
        drop (unat sz - (unat i + 1)) data))"
      using Cons.IH [of "result[unat i := b]" "i + 1"] Cons.prems True u by simp
    also have "take (unat i + 1) (result[unat i := b]) = take (unat i) result @ [b]"
      using True Cons.prems(1) by (simp add: take_Suc_conv_app_nth)
    finally have "copy_loop (b # data) i sz result = (if length data < unat sz - (unat i + 1) then Inl out_of_buffer
      else Inr ((take (unat i) result @ [b]) @ take (unat sz - (unat i + 1)) data, drop (unat sz - (unat i + 1)) data))" .
    moreover have "unat sz - unat i = Suc (unat sz - (unat i + 1))" using True by simp
    ultimately show ?thesis by simp
  next
    case False
    then have "unat i = unat sz" using Cons.prems(2) by simp
    then show ?thesis using Cons.prems(1) by (subst copy_loop.simps) (simp add: word_less_nat_alt unat_ucast_32)
  qed
qed

lemma from_bytes_copy_total:
  "from_bytes_copy data sz =
    (if length data < unat sz \<or> unat sz \<ge> 2 ^ 32 then Inl out_of_buffer
     else Inr (take (unat sz) data, drop (unat sz) data, 0))"
proof (cases "unat sz < 2 ^ 32")
  case True
  then show ?thesis using copy_loop_copies [OF True, of "replicate (unat sz) 0" 0 data] by (simp add: from_bytes_copy_def)
qed (simp add: from_bytes_copy_def copy_loop_wraps)

lemma from_bytes_copy_all:
  "length bs < 2 ^ 32 \<Longrightarrow> from_bytes_copy (bs @ rest) (word_of_nat (length bs)) = Inr (bs, rest, 0)"
  by (simp add: from_bytes_copy_total unat_length_u64)

lemma from_bytes_u256_all:
  "from_bytes_u256 (to_byte_string_u256 n @ rest) (word_of_nat (length (to_byte_string_u256 n))) = Inr (n, rest, 0)"
proof -
  let ?b = "to_byte_string_u256 n"
  have len: "length ?b \<le> 32" using length_trim_le [of "to_big_endian n"] by (simp add: to_byte_string_u256_trim)
  have u: "unat (word_of_nat (length ?b) :: u64) = length ?b" by (rule word64_of_nat_small) (use len in simp)
  have load: "be_load ?b = n" by (simp add: be_load_nat to_byte_string_u256_trim)
  show ?thesis
  proof (cases "?b = []")
    case True
    then have "n = 0" using load by (simp add: be_load_def)
    with True show ?thesis by (simp add: from_bytes_u256_def)
  next
    case False
    then have "(word_of_nat (length ?b) :: u64) \<noteq> 0" using u by (metis length_0_conv unat_0)
    then show ?thesis using u len load by (simp add: from_bytes_u256_def from_big_endian_load)
  qed
qed

lemma decode_length_list:
  assumes "length c < 2 ^ 32"
  shows "decode_length (prefix_multiple_length (length c) c @ rest)
      (word_of_nat (length (prefix_multiple_length (length c) c))) =
    Inr ((Multiple, word_of_nat (length c)), c @ rest, word_of_nat (length c))"
proof -
  let ?p = "length_prefix 0xc0 0xf7 (length c)"
  have lp: "length ?p \<le> 9" using length_u64 [of "word_of_nat (length c)"] by (simp add: length_prefix_def)
  have "unat (word_of_nat (length (?p @ c)) :: u64) = length (?p @ c)"
    by (rule word64_of_nat_small) (use lp assms in simp)
  then have "decode_length (?p @ (c @ rest)) (word_of_nat (length (?p @ c))) =
      Inr ((Multiple, word_of_nat (length c)), c @ rest, word_of_nat (length (?p @ c)) - word_of_nat (length ?p))"
    by (intro decode_length_prefix) (use assms in auto)
  then show ?thesis by (simp add: prefix_multiple_length_eq)
qed

lemma length_element: "w \<in> set vs \<Longrightarrow> length (encode w) \<le> length (concat (map encode vs))"
  by (simp add: length_concat member_le_sum_list)

lemma length_prefixed: "length c \<le> length (prefix_multiple_length (length c) c)"
  by (simp add: prefix_multiple_length_eq)

lemma length_to_byte_string: "\<not> is_tuple_val v \<Longrightarrow> length (to_byte_string v) \<le> length (encode v)"
  by (simp add: encode.simps length_encode_bytes)

lemma decode_impl_reads_back:
  "has_type t v \<Longrightarrow> length (encode v) < 2 ^ 32 \<Longrightarrow> reads_back encode (decode_impl t) v"
proof (induction v arbitrary: t)
  case (VTuple vs)
  then obtain ts where t: "t = TTuple ts" and ts: "list_all2 has_type ts vs" by (cases t) auto
  let ?c = "concat (map encode vs)"
  have e: "encode (VTuple vs) = prefix_multiple_length (length ?c) ?c" by (simp add: encode.simps)
  have len: "length ?c < 2 ^ 32"
    using VTuple.prems(2) unfolding e by (simp add: prefix_multiple_length_eq)
  have "reads_back encode (decode_impl s) w" if "(s, w) \<in> set (zip ts vs)" for s w
  proof -
    have w: "w \<in> set vs" "has_type s w" using that ts by (auto simp: list_all2_iff dest: set_zip_rightD)
    have "length (encode w) \<le> length ?c" using w(1) by (rule length_element)
    then show ?thesis using VTuple.IH w len by simp
  qed
  then have all: "list_all2 (\<lambda>t v. reads_back encode (decode_impl t) v) ts vs"
    using ts by (auto simp: list_all2_iff)
  show ?case unfolding reads_back_def
  proof (intro allI impI)
    fix rest and sz :: u64 assume sz: "length (encode (VTuple vs)) \<le> unat sz"
    have h: "decode_header Multiple (encode (VTuple vs) @ rest) sz =
        Inr (word_of_nat (length ?c), ?c @ rest, sz - word_of_nat (length (encode (VTuple vs))))"
      unfolding e by (rule decode_header_multiple) (use len sz e in auto)
    have "decode_tuple ts (?c @ rest) (word_of_nat (length ?c)) = Inr (vs, rest, 0)"
      using decode_tuple_reads_back [OF all, of "word_of_nat (length ?c)" rest] len
      by (simp add: word64_of_nat_small)
    with h show "decode_impl t (encode (VTuple vs) @ rest) sz =
        Inr (VTuple vs, rest, sz - word_of_nat (length (encode (VTuple vs))))"
      by (simp add: t decode_impl.simps)
  qed
next
  case (VArray vs)
  then obtain s n where t: "t = TArray s n" and n: "n = length vs" and s: "list_all (has_type s) vs"
    by (cases t) auto
  let ?c = "concat (map encode vs)"
  show ?case
  proof (rule single_reads_back)
    fix rest
    have len: "length ?c < 2 ^ 32"
      using VArray.prems(2) length_to_byte_string [of "VArray vs"] length_prefixed [of ?c] by (simp add: Let_def)
    have "reads_back encode (decode_impl s) w" if "w \<in> set vs" for w
      using VArray.IH [OF that, of s] that s len length_element [OF that] by (simp add: list_all_iff)
    then have "decode_times (decode_impl s) n (?c @ rest) (word_of_nat (length ?c)) = Inr (vs, rest, 0)"
      using decode_times_reads_back [of vs encode "decode_impl s" "word_of_nat (length ?c)" rest] len
      by (simp add: n word64_of_nat_small)
    then show "from_bytes t (to_byte_string (VArray vs) @ rest) (word_of_nat (length (to_byte_string (VArray vs)))) =
        Inr (VArray vs, rest, 0)"
      using decode_length_list [OF len, of rest] by (simp add: t Let_def)
  qed (use VArray.prems(2) t in simp_all)
next
  case (VVector vs)
  then obtain s where t: "t = TVector s" and s: "list_all (has_type s) vs" by (cases t) auto
  let ?c = "concat (map encode vs)"
  show ?case
  proof (rule single_reads_back)
    fix rest
    have len: "length ?c < 2 ^ 32"
      using VVector.prems(2) length_to_byte_string [of "VVector vs"] length_prefixed [of ?c] by (simp add: Let_def)
    have "reads_back encode (decode_impl s) w" if "w \<in> set vs" for w
      using VVector.IH [OF that, of s] that s len length_element [OF that] by (simp add: list_all_iff)
    then have "decode_while (decode_impl s) (Suc (length (?c @ rest))) (?c @ rest) (word_of_nat (length ?c)) = Inr (vs, rest, 0)"
      using len length_concat_encode [of vs] by (intro decode_while_reads_back) (simp_all add: encode_nonempty)
    then show "from_bytes t (to_byte_string (VVector vs) @ rest) (word_of_nat (length (to_byte_string (VVector vs)))) =
        Inr (VVector vs, rest, 0)"
      using decode_length_list [OF len, of rest] by (simp add: t Let_def del: decode_while.simps)
  qed (use VVector.prems(2) t in simp_all)
next
  case (VBytes bs)
  then have t: "t = TBytes" by (cases t) auto
  show ?case by (rule single_reads_back) (use VBytes.prems t in \<open>simp_all add: from_bytes_copy_all\<close>)
next
  case (VString cs)
  then have t: "t = TString" by (cases t) auto
  show ?case
    by (rule single_reads_back) (use VString.prems t in \<open>simp_all add: from_bytes_copy_all string_bytes_inverse\<close>)
next
  case (VUint n)
  then obtain w where t: "t = TUint w" and w: "unat n < 2 ^ w" by (cases t) auto
  have "truncate_uint w n = n"
    unfolding truncate_uint_def using w by (simp add: word_unat_eq_iff unsigned_take_bit_eq take_bit_nat_eq_self)
  then show ?case
    by (intro single_reads_back) (use VUint.prems t in \<open>simp_all add: from_bytes_size_u64\<close>)
next
  case (VUint256 n)
  then have t: "t = TUint256" by (cases t) auto
  show ?case by (rule single_reads_back) (use VUint256.prems t in \<open>simp_all add: from_bytes_u256_all\<close>)
next
  case (VByteArray bs)
  then have t: "t = TByteArray (length bs)" by (cases t) auto
  show ?case
    by (rule single_reads_back)
       (use VByteArray.prems t in \<open>simp_all add: from_bytes_array_def unat_length_u64\<close>)
qed

lemma decode_multiple_reads_back:
  "list_all2 (\<lambda>t v. reads_back encode (decode_impl t) v) ts vs \<Longrightarrow> \<not> list_ex is_tuple ts \<Longrightarrow>
    length (concat (map encode vs)) \<le> unat sz \<Longrightarrow>
    decode_multiple ts (concat (map encode vs) @ rest) sz =
      Inr (vs, rest, sz - word_of_nat (length (concat (map encode vs))))"
proof (induction ts vs arbitrary: sz rule: list_all2_induct)
  case (Cons t ts v vs)
  have v: "decode_impl t (encode v @ (concat (map encode vs) @ rest)) sz =
      Inr (v, concat (map encode vs) @ rest, sz - word_of_nat (length (encode v)))"
    by (rule reads_backD [OF Cons(1)]) (use Cons.prems in auto)
  have "length (concat (map encode vs)) \<le> unat (sz - word_of_nat (length (encode v)))"
    using Cons.prems by (simp add: unat_sub_of_nat)
  with Cons v show ?case by (simp add: decode_item_def algebra_simps)
qed simp

lemma sum_length_concat: "sum_list (map length xss) = length (concat xss)"
  by (simp add: length_concat)

lemma decode_encode_pack:
  assumes ty: "list_all2 has_type ts vs" and flat: "length ts = 1 \<or> \<not> list_ex is_tuple ts"
    and len: "length (encode_pack vs) < 2 ^ 32"
  shows "decode ts (encode_pack vs) = Inr vs"
proof (cases "length ts = 1")
  case True
  then obtain t v where tv: "ts = [t]" "vs = [v]" using ty by (auto simp: length_Suc_conv list_all2_Cons1)
  have u: "unat (word_of_nat (length (encode v)) :: u64) = length (encode v)"
    using len tv by (simp add: encode_pack_def unat_length_u64)
  have "reads_back encode (decode_impl t) v"
    using ty len tv by (intro decode_impl_reads_back) (simp_all add: encode_pack_def)
  from reads_backD [OF this, of "word_of_nat (length (encode v))" "[]"] u show ?thesis
    by (simp add: decode_def decode_impl_pack_def tv encode_pack_def)
next
  case False
  let ?c = "concat (map encode vs)"
  have lv: "length vs \<noteq> 1" using ty False by (simp add: list_all2_lengthD)
  have e: "encode_pack vs = prefix_multiple_length (length ?c) ?c"
    unfolding encode_pack_def Let_def sum_length_concat using lv by simp
  have lc: "length ?c < 2 ^ 32" using len length_prefixed [of ?c] unfolding e by linarith
  have all: "list_all2 (\<lambda>t v. reads_back encode (decode_impl t) v) ts vs"
    unfolding list_all2_conv_all_nth
  proof (intro conjI allI impI)
    show "length ts = length vs" using ty by (rule list_all2_lengthD)
    fix i assume i: "i < length ts"
    then have "vs ! i \<in> set vs" using ty by (simp add: list_all2_lengthD)
    then have "length (encode (vs ! i)) < 2 ^ 32" using length_element lc by (meson le_less_trans)
    then show "reads_back encode (decode_impl (ts ! i)) (vs ! i)"
      using list_all2_nthD [OF ty i] by (intro decode_impl_reads_back)
  qed
  have dl: "decode_length (encode_pack vs) (word_of_nat (length (encode_pack vs))) =
      Inr ((Multiple, word_of_nat (length ?c)), ?c, word_of_nat (length ?c))"
    using decode_length_list [OF lc, of "[]"] unfolding e by simp
  have "decode_multiple ts ?c (word_of_nat (length ?c)) = Inr (vs, [], 0)"
    using decode_multiple_reads_back [OF all, of "word_of_nat (length ?c)" "[]"] flat False lc
    by (simp add: unat_length_u64)
  moreover have "ts = [] \<Longrightarrow> vs = []" using ty by simp
  ultimately show ?thesis using False dl by (auto simp: decode_def decode_impl_pack_def)
qed

section \<open>The decoder advances\<close>

lemma proper_failures [simp]: "proper_failure out_of_buffer" "proper_failure (decode_error m)"
  "proper_failure (StdException LogicError m)"
  by (simp_all add: proper_failure_def decode_error_def)

lemma advances_map_sum [simp]:
  "advances b data (map_sum id (map_prod f id) r) = advances b data r"
  by (auto simp: advances_def split: sum.splits prod.splits)



lemma advances_Inr [simp]: "advances b d (Inr (v, d', s)) = (length d' \<le> length d \<and> (b \<longrightarrow> length d' < length d))"
  by (simp add: advances_def)

lemma advances_Inl [simp]: "advances b d (Inl e) = proper_failure e"
  by (simp add: advances_def)
















section \<open>Properties\<close>

text \<open>
  Claim C21.  What the encoder writes, the decoder reads back: the values of any list of types,
  encoded together, decode to the same values, when the list is a single type (a tuple
  included) or has no tuple as a member, and the encoding is shorter than \<open>2 ^ 32\<close> bytes.
\<close>

theorem rlp_round_trip:
  assumes "list_all2 has_type ts vs" and "length ts = 1 \<or> \<not> list_ex is_tuple ts"
    and "length (encode_pack vs) < 2 ^ 32"
  shows "decode ts (encode_pack vs) = Inr vs"
  using assms by (rule decode_encode_pack)

theorem rlp_round_trip_witness:
  "decode [TTuple [TBytes, TVector (TUint 16)]] (encode_pack [VTuple [VBytes [1, 200], VVector [VUint 7, VUint 300]]]) =
     Inr [VTuple [VBytes [1, 200], VVector [VUint 7, VUint 300]]]"
proof (rule rlp_round_trip)
  have "length (encode_pack [VTuple [VBytes [1, 200], VVector [VUint 7, VUint 300]]]) = 10"
    by code_simp
  then show "length (encode_pack [VTuple [VBytes [1, 200], VVector [VUint 7, VUint 300]]]) < 2 ^ 32"
    by simp
qed simp_all

text \<open>
  Integers are encoded in their shortest big-endian form: the bytes read as the number
  and do not start with a zero, for 64-bit and for 256-bit integers, and zero is the empty string.
\<close>

lemma rlp_integers_canonical:
  "nat_of_be (to_byte_string_u64 n) = unat n \<and> take 1 (to_byte_string_u64 n) \<noteq> [0] \<and>
   nat_of_be (to_byte_string_u256 m) = unat m \<and> take 1 (to_byte_string_u256 m) \<noteq> [0] \<and>
   to_byte_string_u64 0 = [] \<and> to_byte_string_u256 0 = []"
proof -
  have head: "take 1 (trim bs) \<noteq> [0]" for bs
    using trim_head [of bs] by (cases "trim bs") simp_all
  have zero: "trim (be_of_nat 8 0) = []" "trim (to_big_endian 0) = []"
    by (simp_all add: trim_def be_of_nat_map to_big_endian_def dropWhile_eq_Nil_conv)
  show ?thesis
    using head zero unsigned_less [of n, where ?'a = nat]
    by (simp add: to_byte_string_u64_trim to_byte_string_u256_trim nat_of_be_of_nat)
qed



text \<open>
  A header that announces more bytes than the input has is not rejected: the decoder
  subtracts without a check and reads past the end of the buffer.
\<close>

lemma decode_truncated_input:
  assumes "n \<le> 0x37" and "length bs < n"
  shows "decode [TBytes] (word_of_nat (0x80 + n) # bs) = Inl out_of_buffer"
proof -
  define h :: byte where "h = word_of_nat (0x80 + n)"
  have h: "unat h = 0x80 + n" using assms unfolding h_def by (subst unsigned_of_nat) (simp add: take_bit_nat_eq_self del: of_nat_add)
  then have h': "\<not> h \<le> 0x7f" by (simp add: word_le_nat_alt)
  have n: "unat (word_of_nat n :: u64) = n" using assms by (intro word64_of_nat_small) simp
  have "unat (word_of_nat (length (h # bs)) :: u64) = length (h # bs)"
    by (rule word64_of_nat_small) (use assms in simp)
  then have "(word_of_nat (length (h # bs)) :: u64) \<noteq> 0" by (metis length_Cons nat.distinct(1) unat_0)
  then have "decode_impl TBytes (h # bs) (word_of_nat (length (h # bs))) = Inl out_of_buffer"
    using h h' n assms
    by (simp add: decode_impl.simps decode_header_def decode_length_def from_bytes_copy_total del: length_Cons of_nat_Suc)
  then show ?thesis unfolding h_def [symmetric]
    by (simp add: decode_def decode_impl_pack_def del: length_Cons of_nat_Suc)
qed

text \<open>
  A tuple in front of another member does not decode: the reader of members does not
  consume the list header of the tuple, so what the encoder writes is rejected, unless the first
  component of the tuple is itself a tuple.
\<close>

lemma decode_tuple_member_fails:
  assumes "\<not> is_tuple t" and "length (encode_pack (VTuple ws # v # vs)) < 2 ^ 32"
  shows "decode (TTuple (t # ts) # t2 # ts2) (encode_pack (VTuple ws # v # vs)) =
    Inl (decode_error ''Expected single item, but data encodes a list'')"
proof -
  let ?w = "concat (map encode ws)" and ?r = "concat (map encode (v # vs))"
  let ?i = "prefix_multiple_length (length ?w) ?w"
  let ?c = "?i @ ?r"
  have e: "encode_pack (VTuple ws # v # vs) = prefix_multiple_length (length ?c) ?c"
    unfolding encode_pack_def Let_def sum_length_concat
    by (simp add: encode.simps)
  have c: "length ?c < 2 ^ 32" using assms(2) length_prefixed [of ?c] unfolding e by linarith
  have w: "length ?w < 2 ^ 64" using c length_prefixed [of ?w] by simp
  have outer: "decode_length (encode_pack (VTuple ws # v # vs)) (word_of_nat (length (encode_pack (VTuple ws # v # vs)))) =
      Inr ((Multiple, word_of_nat (length ?c)), ?c, word_of_nat (length ?c))"
    using decode_length_list [OF c, of "[]"] unfolding e by simp
  have "length ?i \<le> unat (word_of_nat (length ?c) :: u64)"
    unfolding unat_length_u64 [OF c] by simp
  from decode_header_multiple [OF w this, of ?r] obtain l d s where
    "decode_length ?c (word_of_nat (length ?c)) = Inr ((Multiple, l), d, s)"
    by (auto simp: decode_header_def split: sum.splits if_splits)
  then have "decode_header Single ?c (word_of_nat (length ?c)) =
      Inl (decode_error ''Expected single item, but data encodes a list'')"
    by (simp add: decode_header_def)
  with assms(1) outer show ?thesis
    by (simp add: decode_def decode_impl_pack_def decode_item_def components_def decode_impl.simps del: of_nat_add)
qed

text \<open>Generated addresses have at most 20 bytes.\<close>

lemma generate_address_bound:
  "unat (generate_address s n) < 2 ^ 160 \<and>
   unat (generate_address_for_create2 j1 j2 s salt code) < 2 ^ 160"
proof -
  have "unat (be_load (segment 12 20 (Keccak256 d))) < 2 ^ 160" for d
    using nat_of_be_bound [of "segment 12 20 (Keccak256 d)"]
    by (simp add: unat_be_load segment_def)
  then show ?thesis by (simp add: generate_address_def generate_address_for_create2_def)
qed

text \<open>
  The address of \<open>CREATE2\<close> is not determined by its arguments: two runs that find
  different values in the bytes that the code does not initialise hash different messages.
\<close>

lemma create2_undetermined:
  assumes "length j1 = 224" and "length j2 = 224" and "length k1 = 224" and "length k2 = 224"
    and "(j1, j2) \<noteq> (k1, k2)"
  shows "create2_data j1 j2 s salt code \<noteq> create2_data k1 k2 s salt code"
  using assms by (auto simp: create2_data_def)

end
