(* ===== verification/Opcodes.thy ===== *)
theory Opcodes
  imports Prelude
begin

text \<open>
  The opcodes of \<open>include/eEVM/opcode.h\<close>.  The enumeration has the underlying type
  \<open>uint8_t\<close> and the interpreter casts any byte of a program to it, so an opcode is a byte;
  every enumerator is a constant with the prefix \<open>OP_\<close>.  The collection \<open>opcodes\<close>
  evaluates them.
\<close>

named_theorems opcodes \<open>values of the opcodes\<close>

section \<open>Stop and Arithmetic Operations\<close>

definition OP_STOP :: byte where [opcodes]:
  "OP_STOP = 0x00"

definition OP_ADD :: byte where [opcodes]:
  "OP_ADD = 0x01"

definition OP_MUL :: byte where [opcodes]:
  "OP_MUL = 0x02"

definition OP_SUB :: byte where [opcodes]:
  "OP_SUB = 0x03"

definition OP_DIV :: byte where [opcodes]:
  "OP_DIV = 0x04"

definition OP_SDIV :: byte where [opcodes]:
  "OP_SDIV = 0x05"

definition OP_MOD :: byte where [opcodes]:
  "OP_MOD = 0x06"

definition OP_SMOD :: byte where [opcodes]:
  "OP_SMOD = 0x07"

definition OP_ADDMOD :: byte where [opcodes]:
  "OP_ADDMOD = 0x08"

definition OP_MULMOD :: byte where [opcodes]:
  "OP_MULMOD = 0x09"

definition OP_EXP :: byte where [opcodes]:
  "OP_EXP = 0x0a"

definition OP_SIGNEXTEND :: byte where [opcodes]:
  "OP_SIGNEXTEND = 0x0b"

section \<open>Comparison & Bitwise Logic Operations\<close>

definition OP_LT :: byte where [opcodes]:
  "OP_LT = 0x10"

definition OP_GT :: byte where [opcodes]:
  "OP_GT = 0x11"

definition OP_SLT :: byte where [opcodes]:
  "OP_SLT = 0x12"

definition OP_SGT :: byte where [opcodes]:
  "OP_SGT = 0x13"

definition OP_EQ :: byte where [opcodes]:
  "OP_EQ = 0x14"

definition OP_ISZERO :: byte where [opcodes]:
  "OP_ISZERO = 0x15"

definition OP_AND :: byte where [opcodes]:
  "OP_AND = 0x16"

definition OP_OR :: byte where [opcodes]:
  "OP_OR = 0x17"

definition OP_XOR :: byte where [opcodes]:
  "OP_XOR = 0x18"

definition OP_NOT :: byte where [opcodes]:
  "OP_NOT = 0x19"

definition OP_BYTE :: byte where [opcodes]:
  "OP_BYTE = 0x1a"

definition OP_SHL :: byte where [opcodes]:
  "OP_SHL = 0x1b"

definition OP_SHR :: byte where [opcodes]:
  "OP_SHR = 0x1c"

definition OP_SAR :: byte where [opcodes]:
  "OP_SAR = 0x1d"

section \<open>SHA3\<close>

definition OP_SHA3 :: byte where [opcodes]:
  "OP_SHA3 = 0x20"

section \<open>Environmental Information\<close>

definition OP_ADDRESS :: byte where [opcodes]:
  "OP_ADDRESS = 0x30"

definition OP_BALANCE :: byte where [opcodes]:
  "OP_BALANCE = 0x31"

definition OP_ORIGIN :: byte where [opcodes]:
  "OP_ORIGIN = 0x32"

definition OP_CALLER :: byte where [opcodes]:
  "OP_CALLER = 0x33"

definition OP_CALLVALUE :: byte where [opcodes]:
  "OP_CALLVALUE = 0x34"

definition OP_CALLDATALOAD :: byte where [opcodes]:
  "OP_CALLDATALOAD = 0x35"

definition OP_CALLDATASIZE :: byte where [opcodes]:
  "OP_CALLDATASIZE = 0x36"

definition OP_CALLDATACOPY :: byte where [opcodes]:
  "OP_CALLDATACOPY = 0x37"

definition OP_CODESIZE :: byte where [opcodes]:
  "OP_CODESIZE = 0x38"

definition OP_CODECOPY :: byte where [opcodes]:
  "OP_CODECOPY = 0x39"

definition OP_GASPRICE :: byte where [opcodes]:
  "OP_GASPRICE = 0x3a"

definition OP_EXTCODESIZE :: byte where [opcodes]:
  "OP_EXTCODESIZE = 0x3b"

definition OP_EXTCODECOPY :: byte where [opcodes]:
  "OP_EXTCODECOPY = 0x3c"

definition OP_RETURNDATASIZE :: byte where [opcodes]:
  "OP_RETURNDATASIZE = 0x3d"

definition OP_RETURNDATACOPY :: byte where [opcodes]:
  "OP_RETURNDATACOPY = 0x3e"

definition OP_EXTCODEHASH :: byte where [opcodes]:
  "OP_EXTCODEHASH = 0x3f"

section \<open>Block Information\<close>

definition OP_BLOCKHASH :: byte where [opcodes]:
  "OP_BLOCKHASH = 0x40"

definition OP_COINBASE :: byte where [opcodes]:
  "OP_COINBASE = 0x41"

definition OP_TIMESTAMP :: byte where [opcodes]:
  "OP_TIMESTAMP = 0x42"

definition OP_NUMBER :: byte where [opcodes]:
  "OP_NUMBER = 0x43"

definition OP_PREVRANDAO :: byte where [opcodes]:
  "OP_PREVRANDAO = 0x44"

definition OP_GASLIMIT :: byte where [opcodes]:
  "OP_GASLIMIT = 0x45"

definition OP_CHAINID :: byte where [opcodes]:
  "OP_CHAINID = 0x46"

definition OP_SELFBALANCE :: byte where [opcodes]:
  "OP_SELFBALANCE = 0x47"

definition OP_BASEFEE :: byte where [opcodes]:
  "OP_BASEFEE = 0x48"

section \<open>Stack, Memory, Storage and Flow Operations\<close>

definition OP_POP :: byte where [opcodes]:
  "OP_POP = 0x50"

definition OP_MLOAD :: byte where [opcodes]:
  "OP_MLOAD = 0x51"

definition OP_MSTORE :: byte where [opcodes]:
  "OP_MSTORE = 0x52"

definition OP_MSTORE8 :: byte where [opcodes]:
  "OP_MSTORE8 = 0x53"

definition OP_SLOAD :: byte where [opcodes]:
  "OP_SLOAD = 0x54"

definition OP_SSTORE :: byte where [opcodes]:
  "OP_SSTORE = 0x55"

definition OP_JUMP :: byte where [opcodes]:
  "OP_JUMP = 0x56"

definition OP_JUMPI :: byte where [opcodes]:
  "OP_JUMPI = 0x57"

definition OP_PC :: byte where [opcodes]:
  "OP_PC = 0x58"

definition OP_MSIZE :: byte where [opcodes]:
  "OP_MSIZE = 0x59"

definition OP_GAS :: byte where [opcodes]:
  "OP_GAS = 0x5a"

definition OP_JUMPDEST :: byte where [opcodes]:
  "OP_JUMPDEST = 0x5b"

definition OP_PUSH0 :: byte where [opcodes]:
  "OP_PUSH0 = 0x5f"

section \<open>Push Operations\<close>

definition OP_PUSH1 :: byte where [opcodes]:
  "OP_PUSH1 = 0x60"

definition OP_PUSH2 :: byte where [opcodes]:
  "OP_PUSH2 = 0x61"

definition OP_PUSH3 :: byte where [opcodes]:
  "OP_PUSH3 = 0x62"

definition OP_PUSH4 :: byte where [opcodes]:
  "OP_PUSH4 = 0x63"

definition OP_PUSH5 :: byte where [opcodes]:
  "OP_PUSH5 = 0x64"

definition OP_PUSH6 :: byte where [opcodes]:
  "OP_PUSH6 = 0x65"

definition OP_PUSH7 :: byte where [opcodes]:
  "OP_PUSH7 = 0x66"

definition OP_PUSH8 :: byte where [opcodes]:
  "OP_PUSH8 = 0x67"

definition OP_PUSH9 :: byte where [opcodes]:
  "OP_PUSH9 = 0x68"

definition OP_PUSH10 :: byte where [opcodes]:
  "OP_PUSH10 = 0x69"

definition OP_PUSH11 :: byte where [opcodes]:
  "OP_PUSH11 = 0x6a"

definition OP_PUSH12 :: byte where [opcodes]:
  "OP_PUSH12 = 0x6b"

definition OP_PUSH13 :: byte where [opcodes]:
  "OP_PUSH13 = 0x6c"

definition OP_PUSH14 :: byte where [opcodes]:
  "OP_PUSH14 = 0x6d"

definition OP_PUSH15 :: byte where [opcodes]:
  "OP_PUSH15 = 0x6e"

definition OP_PUSH16 :: byte where [opcodes]:
  "OP_PUSH16 = 0x6f"

definition OP_PUSH17 :: byte where [opcodes]:
  "OP_PUSH17 = 0x70"

definition OP_PUSH18 :: byte where [opcodes]:
  "OP_PUSH18 = 0x71"

definition OP_PUSH19 :: byte where [opcodes]:
  "OP_PUSH19 = 0x72"

definition OP_PUSH20 :: byte where [opcodes]:
  "OP_PUSH20 = 0x73"

definition OP_PUSH21 :: byte where [opcodes]:
  "OP_PUSH21 = 0x74"

definition OP_PUSH22 :: byte where [opcodes]:
  "OP_PUSH22 = 0x75"

definition OP_PUSH23 :: byte where [opcodes]:
  "OP_PUSH23 = 0x76"

definition OP_PUSH24 :: byte where [opcodes]:
  "OP_PUSH24 = 0x77"

definition OP_PUSH25 :: byte where [opcodes]:
  "OP_PUSH25 = 0x78"

definition OP_PUSH26 :: byte where [opcodes]:
  "OP_PUSH26 = 0x79"

definition OP_PUSH27 :: byte where [opcodes]:
  "OP_PUSH27 = 0x7a"

definition OP_PUSH28 :: byte where [opcodes]:
  "OP_PUSH28 = 0x7b"

definition OP_PUSH29 :: byte where [opcodes]:
  "OP_PUSH29 = 0x7c"

definition OP_PUSH30 :: byte where [opcodes]:
  "OP_PUSH30 = 0x7d"

definition OP_PUSH31 :: byte where [opcodes]:
  "OP_PUSH31 = 0x7e"

definition OP_PUSH32 :: byte where [opcodes]:
  "OP_PUSH32 = 0x7f"

section \<open>Duplication Operation\<close>

definition OP_DUP1 :: byte where [opcodes]:
  "OP_DUP1 = 0x80"

definition OP_DUP2 :: byte where [opcodes]:
  "OP_DUP2 = 0x81"

definition OP_DUP3 :: byte where [opcodes]:
  "OP_DUP3 = 0x82"

definition OP_DUP4 :: byte where [opcodes]:
  "OP_DUP4 = 0x83"

definition OP_DUP5 :: byte where [opcodes]:
  "OP_DUP5 = 0x84"

definition OP_DUP6 :: byte where [opcodes]:
  "OP_DUP6 = 0x85"

definition OP_DUP7 :: byte where [opcodes]:
  "OP_DUP7 = 0x86"

definition OP_DUP8 :: byte where [opcodes]:
  "OP_DUP8 = 0x87"

definition OP_DUP9 :: byte where [opcodes]:
  "OP_DUP9 = 0x88"

definition OP_DUP10 :: byte where [opcodes]:
  "OP_DUP10 = 0x89"

definition OP_DUP11 :: byte where [opcodes]:
  "OP_DUP11 = 0x8a"

definition OP_DUP12 :: byte where [opcodes]:
  "OP_DUP12 = 0x8b"

definition OP_DUP13 :: byte where [opcodes]:
  "OP_DUP13 = 0x8c"

definition OP_DUP14 :: byte where [opcodes]:
  "OP_DUP14 = 0x8d"

definition OP_DUP15 :: byte where [opcodes]:
  "OP_DUP15 = 0x8e"

definition OP_DUP16 :: byte where [opcodes]:
  "OP_DUP16 = 0x8f"

section \<open>Exchange Operation\<close>

definition OP_SWAP1 :: byte where [opcodes]:
  "OP_SWAP1 = 0x90"

definition OP_SWAP2 :: byte where [opcodes]:
  "OP_SWAP2 = 0x91"

definition OP_SWAP3 :: byte where [opcodes]:
  "OP_SWAP3 = 0x92"

definition OP_SWAP4 :: byte where [opcodes]:
  "OP_SWAP4 = 0x93"

definition OP_SWAP5 :: byte where [opcodes]:
  "OP_SWAP5 = 0x94"

definition OP_SWAP6 :: byte where [opcodes]:
  "OP_SWAP6 = 0x95"

definition OP_SWAP7 :: byte where [opcodes]:
  "OP_SWAP7 = 0x96"

definition OP_SWAP8 :: byte where [opcodes]:
  "OP_SWAP8 = 0x97"

definition OP_SWAP9 :: byte where [opcodes]:
  "OP_SWAP9 = 0x98"

definition OP_SWAP10 :: byte where [opcodes]:
  "OP_SWAP10 = 0x99"

definition OP_SWAP11 :: byte where [opcodes]:
  "OP_SWAP11 = 0x9a"

definition OP_SWAP12 :: byte where [opcodes]:
  "OP_SWAP12 = 0x9b"

definition OP_SWAP13 :: byte where [opcodes]:
  "OP_SWAP13 = 0x9c"

definition OP_SWAP14 :: byte where [opcodes]:
  "OP_SWAP14 = 0x9d"

definition OP_SWAP15 :: byte where [opcodes]:
  "OP_SWAP15 = 0x9e"

definition OP_SWAP16 :: byte where [opcodes]:
  "OP_SWAP16 = 0x9f"

section \<open>Logging Operations\<close>

definition OP_LOG0 :: byte where [opcodes]:
  "OP_LOG0 = 0xa0"

definition OP_LOG1 :: byte where [opcodes]:
  "OP_LOG1 = 0xa1"

definition OP_LOG2 :: byte where [opcodes]:
  "OP_LOG2 = 0xa2"

definition OP_LOG3 :: byte where [opcodes]:
  "OP_LOG3 = 0xa3"

definition OP_LOG4 :: byte where [opcodes]:
  "OP_LOG4 = 0xa4"

section \<open>System operations\<close>

definition OP_CREATE :: byte where [opcodes]:
  "OP_CREATE = 0xf0"

definition OP_CALL :: byte where [opcodes]:
  "OP_CALL = 0xf1"

definition OP_CALLCODE :: byte where [opcodes]:
  "OP_CALLCODE = 0xf2"

definition OP_RETURN :: byte where [opcodes]:
  "OP_RETURN = 0xf3"

definition OP_DELEGATECALL :: byte where [opcodes]:
  "OP_DELEGATECALL = 0xf4"

definition OP_CREATE2 :: byte where [opcodes]:
  "OP_CREATE2 = 0xf5"

definition OP_STATICCALL :: byte where [opcodes]:
  "OP_STATICCALL = 0xfa"

definition OP_REVERT :: byte where [opcodes]:
  "OP_REVERT = 0xfd"

definition OP_INVALID :: byte where [opcodes]:
  "OP_INVALID = 0xfe"

definition OP_SELFDESTRUCT :: byte where [opcodes]:
  "OP_SELFDESTRUCT = 0xff"

end
