(* ===== verification/Contexts.thy ===== *)
theory Contexts
  imports Opcodes Stack
begin

text \<open>
  Programs and execution contexts: the classes \<open>Program\<close> and \<open>Context\<close> of
  \<open>src/processor.cpp\<close>, and the helpers of \<open>_Processor\<close> that work on one context (memory
  access, jumps).

  A context is a record; its account and storage references (\<open>as\<close>, \<open>acc\<close>, \<open>st\<close>)
  are one reference \<open>c_as\<close> into the world.  The three handlers of a context are closures that
  capture the parent context; they are the datatype \<open>handlers\<close>, one constructor for every place
  of the code that makes them, with the captured values.  A pointer to a context is its position in
  the vector of contexts, counted from the outermost one.

  The theorems are: jump destinations are exactly the instruction boundaries that hold a
  \<open>JUMPDEST\<close>; copying into memory has the effect of its reference definition; memory never
  grows past 32 MB; what is stored is read back.
\<close>

section \<open>Constants\<close>

definition MAX_CALL_DEPTH :: nat where
  "MAX_CALL_DEPTH = 1024"

definition WORD_SIZE :: nat where
  "WORD_SIZE = 32"

definition MAX_MEM_SIZE :: nat where
  "MAX_MEM_SIZE = 2 ^ 25"

section \<open>Programs\<close>

function compute_jump_dests :: "bytes \<Rightarrow> nat \<Rightarrow> u64 set \<Rightarrow> u64 set" where
  "compute_jump_dests code i dests =
    (if i < length code then
       let op = code ! i
       in if op \<ge> OP_PUSH1 \<and> op \<le> OP_PUSH32 then
            let immediate_bytes = op - OP_PUSH1 + 1
            in compute_jump_dests code (i + unat immediate_bytes + 1) dests
          else if op = OP_JUMPDEST then
            compute_jump_dests code (i + 1) (insert (word_of_nat i) dests)
          else compute_jump_dests code (i + 1) dests
     else dests)"
  by pat_completeness auto
termination
  by (relation "measure (\<lambda>(code, i, _). length code - i)") auto

declare compute_jump_dests.simps [simp del]

record Program =
  prog_code :: bytes
  prog_jump_dests :: "u64 set"

definition new_Program :: "bytes \<Rightarrow> Program" where
  "new_Program c = \<lparr>prog_code = c, prog_jump_dests = compute_jump_dests c 0 {}\<rparr>"

section \<open>Contexts\<close>

datatype handlers =
    OuterHandlers
  | CreateHandlers nat u256
  | CallHandlers nat u64 u64

record Context =
  c_pc :: u64
  c_pc_changed :: bool
  c_mem :: bytes
  c_s :: stack
  c_as :: u256
  c_caller :: u256
  c_input :: bytes
  c_call_value :: u256
  c_prog :: Program
  c_handlers :: handlers
  c_return_data :: bytes
  c_in_static_mode :: bool

definition new_Context ::
  "u256 \<Rightarrow> u256 \<Rightarrow> bytes \<Rightarrow> u256 \<Rightarrow> Program \<Rightarrow> handlers \<Rightarrow> bool \<Rightarrow> Context" where
  "new_Context caller as input call_value prog h in_static_mode =
    \<lparr>c_pc = 0, c_pc_changed = True, c_mem = [], c_s = [], c_as = as, c_caller = caller,
     c_input = input, c_call_value = call_value, c_prog = prog, c_handlers = h,
     c_return_data = [], c_in_static_mode = in_static_mode\<rparr>"

definition step :: "Context \<Rightarrow> Context" where
  "step c = (if c_pc_changed c then c\<lparr>c_pc_changed := False\<rparr> else c\<lparr>c_pc := c_pc c + 1\<rparr>)"

definition get_pc :: "Context \<Rightarrow> u64" where
  "get_pc c = c_pc c"

definition set_pc :: "u64 \<Rightarrow> Context \<Rightarrow> Context" where
  "set_pc pc c = c\<lparr>c_pc := pc, c_pc_changed := True\<rparr>"

definition pc_valid :: "Context \<Rightarrow> bool" where
  "pc_valid c \<longleftrightarrow> unat (c_pc c) < length (prog_code (c_prog c))"

definition get_used_mem :: "Context \<Rightarrow> nat" where
  "get_used_mem c = (length (c_mem c) + WORD_SIZE - 1) div WORD_SIZE"

text \<open>The stack of a context.\<close>

definition on_stack :: "(stack, 'a) act \<Rightarrow> (Context, 'a) act" where
  "on_stack m = zoom c_s (\<lambda>s c. c\<lparr>c_s := s\<rparr>) m"

abbreviation s_pop :: "(Context, u256) act" where
  "s_pop \<equiv> on_stack stack_pop"

abbreviation s_pop64 :: "(Context, u64) act" where
  "s_pop64 \<equiv> on_stack stack_pop64"

abbreviation s_push :: "u256 \<Rightarrow> (Context, unit) act" where
  "s_push v \<equiv> on_stack (stack_push v)"

section \<open>Helpers\<close>

definition get_op :: "(Context, byte) act" where
  "get_op = (\<lambda>c. if pc_valid c then (Inr (prog_code (c_prog c) ! unat (get_pc c)), c)
    else (Inl (UndefinedBehaviour ''program counter past the code''), c))"

definition MASK_160 :: u256 where
  "MASK_160 = push_bit 160 1 - 1"

definition pop_addr :: "(Context, u256) act" where
  "pop_addr = bind s_pop (\<lambda>v. ret (v AND MASK_160))"

definition mem_limit :: "nat \<Rightarrow> exn" where
  "mem_limit lim = Exception OutOfBounds
    (''Memory limit exceeded ('' @ to_string lim @ '' > '' @ to_string MAX_MEM_SIZE @ '')'')"

definition copy_mem_raw :: "u64 \<Rightarrow> u64 \<Rightarrow> u64 \<Rightarrow> bytes \<Rightarrow> byte \<Rightarrow> (bytes, unit) act" where
  "copy_mem_raw offDst offSrc sz src pad =
    (if sz = 0 then ret ()
     else
       let lastDst = offDst + sz
       in if lastDst < offDst then
            raise (Exception OutOfBounds (''Integer overflow in copy_mem ('' @ to_string (unat lastDst) @
              '' < '' @ to_string (unat offDst) @ '')''))
          else if unat lastDst > MAX_MEM_SIZE then raise (mem_limit (unat lastDst))
          else
            andthen (upd (\<lambda>dst. if unat lastDst > length dst then resize (unat lastDst) dst else dst))
              (let lastSrc = offSrc + sz;
                   endSrc = min lastSrc (word_of_nat (length src))
               in bind
                    (if endSrc > offSrc then
                       bind (lifts (vec_read (unat offSrc) (unat endSrc - unat offSrc) src)) (\<lambda>bs.
                       andthen (vec_write (unat offDst) bs) (ret (lastSrc - endSrc)))
                     else ret sz) (\<lambda>remaining.
                  vec_fill (uint lastDst - uint remaining) (unat lastDst) pad)))"

definition on_mem :: "(bytes, 'a) act \<Rightarrow> (Context, 'a) act" where
  "on_mem m = zoom c_mem (\<lambda>x c. c\<lparr>c_mem := x\<rparr>) m"

definition copy_mem :: "bytes \<Rightarrow> byte \<Rightarrow> (Context, unit) act" where
  "copy_mem src pad =
    bind s_pop64 (\<lambda>offDst.
    bind s_pop64 (\<lambda>offSrc.
    bind s_pop64 (\<lambda>sz.
    on_mem (copy_mem_raw offDst offSrc sz src pad))))"

definition prepare_mem_access :: "u64 \<Rightarrow> u64 \<Rightarrow> (bytes, unit) act" where
  "prepare_mem_access offset sz =
    (let end = offset + sz
     in if end < offset then
          raise (Exception OutOfBounds (''Integer overflow in memory access ('' @ to_string (unat end) @
            '' < '' @ to_string (unat offset) @ '')''))
        else if unat end > MAX_MEM_SIZE then raise (mem_limit (unat end))
        else upd (\<lambda>mem. if unat end > length mem then resize (unat end) mem else mem))"

definition copy_from_mem :: "u64 \<Rightarrow> u64 \<Rightarrow> (bytes, bytes) act" where
  "copy_from_mem offset sz =
    andthen (prepare_mem_access offset sz) (bind (reads (vec_read (unat offset) (unat sz))) lifts)"

definition jump_to :: "u64 \<Rightarrow> (Context, unit) act" where
  "jump_to newPc =
    bind (reads c_prog) (\<lambda>prog.
    if newPc \<notin> prog_jump_dests prog then
      raise (Exception IllegalInstruction (to_string (unat newPc) @ '' is not a jump destination''))
    else upd (set_pc newPc))"

definition safeAdd :: "u64 \<Rightarrow> u64 \<Rightarrow> ('s, u64) act" where
  "safeAdd x y =
    (let r = x + y in if r < x then raise (StdException OverflowError ''integer overflow'') else ret r)"

definition shrink8 :: "u256 \<Rightarrow> byte" where
  "shrink8 i = ucast (i AND 255)"

section \<open>Reference notions\<close>

text \<open>
  \<open>instr_start code i\<close>: an instruction starts at position \<open>i\<close>, when the code is read from
  its beginning and the immediate bytes of a push are skipped.
\<close>

definition instr_length :: "byte \<Rightarrow> nat" where
  "instr_length op = (if OP_PUSH1 \<le> op \<and> op \<le> OP_PUSH32 then unat (op - OP_PUSH1) + 2 else 1)"

inductive instr_start :: "bytes \<Rightarrow> nat \<Rightarrow> bool" where
  first: "instr_start code 0"
| later: "instr_start code i \<Longrightarrow> i < length code \<Longrightarrow> instr_start code (i + instr_length (code ! i))"

inductive_cases instr_startE: "instr_start code i"

text \<open>The reference for copying: byte \<open>i\<close> of the memory afterwards.\<close>

definition copied :: "nat \<Rightarrow> nat \<Rightarrow> nat \<Rightarrow> bytes \<Rightarrow> byte \<Rightarrow> bytes \<Rightarrow> nat \<Rightarrow> byte" where
  "copied offDst offSrc n src pad dst i =
    (if offDst \<le> i \<and> i < offDst + n then
       (let j = offSrc + (i - offDst) in if j < length src then src ! j else pad)
     else if i < length dst then dst ! i else 0)"

section \<open>Jump destinations\<close>

lemma instr_length_pos: "0 < instr_length op"
  by (simp add: instr_length_def)

lemma unat_immediate:
  assumes "OP_PUSH1 \<le> op" "op \<le> OP_PUSH32"
  shows "unat (op - OP_PUSH1 + 1) = unat (op - OP_PUSH1) + 1"
proof -
  have "unat (op - OP_PUSH1) = unat op - unat OP_PUSH1" using assms(1) by (rule unat_sub)
  also have "\<dots> \<le> 31" using assms(2) by (simp add: word_le_nat_alt opcodes)
  finally show ?thesis by (simp add: unat_word_ariths)
qed

lemma instr_start_next:
  "instr_start code i \<Longrightarrow> instr_start code j \<Longrightarrow> j < i \<Longrightarrow> j + instr_length (code ! j) \<le> i"
proof (induction i arbitrary: j rule: less_induct)
  case (less i)
  from less.prems(1,3) obtain k where k: "instr_start code k" "i = k + instr_length (code ! k)"
    by (auto elim: instr_startE)
  then have "k < i" using instr_length_pos by simp
  consider "j < k" | "j = k" | "k < j" by linarith
  then show ?case
  proof cases
    case 1
    then show ?thesis using less.IH [OF \<open>k < i\<close> k(1) less.prems(2)] \<open>k < i\<close> by simp
  next
    case 3
    then show ?thesis using less.IH [OF less.prems(3) less.prems(2) k(1)] k(2) less.prems(3) by simp
  qed (simp add: k)
qed

lemma jump_dests_loop:
  "instr_start code i \<Longrightarrow> compute_jump_dests code i dests =
    dests \<union> word_of_nat ` {d. i \<le> d \<and> d < length code \<and> instr_start code d \<and> code ! d = OP_JUMPDEST}"
proof (induction code i dests rule: compute_jump_dests.induct)
  case (1 code i dests)
  let ?D = "\<lambda>i. {d. i \<le> d \<and> d < length code \<and> instr_start code d \<and> code ! d = OP_JUMPDEST}"
  show ?case
  proof (cases "i < length code")
    case True
    let ?n = "i + instr_length (code ! i)"
    have start: "instr_start code ?n" using "1.prems" True by (rule later)
    have D: "?D i = (if code ! i = OP_JUMPDEST then {i} else {}) \<union> ?D ?n"
    proof -
      have "i \<le> d \<longleftrightarrow> d = i \<or> ?n \<le> d" if "instr_start code d" for d
        using instr_start_next [OF that "1.prems"] instr_length_pos [of "code ! i"] by linarith
      then have "?D i = {d. (d = i \<or> ?n \<le> d) \<and> d < length code \<and> instr_start code d \<and> code ! d = OP_JUMPDEST}"
        by blast
      then show ?thesis using "1.prems" True by auto
    qed
    consider (push) "OP_PUSH1 \<le> code ! i" "code ! i \<le> OP_PUSH32"
      | (dest) "\<not> (OP_PUSH1 \<le> code ! i \<and> code ! i \<le> OP_PUSH32)" "code ! i = OP_JUMPDEST"
      | (other) "\<not> (OP_PUSH1 \<le> code ! i \<and> code ! i \<le> OP_PUSH32)" "code ! i \<noteq> OP_JUMPDEST"
      by blast
    then show ?thesis
    proof cases
      case push
      then have n: "?n = i + unat (code ! i - OP_PUSH1 + 1) + 1"
        by (simp add: instr_length_def unat_immediate)
      have "code ! i \<noteq> OP_JUMPDEST" using push by (auto simp: opcodes)
      then show ?thesis
        using "1.IH"(1) [OF True refl _ refl] push start True unfolding D
        by (subst compute_jump_dests.simps) (simp add: n)
    next
      case dest
      then have n: "?n = i + 1" by (auto simp: instr_length_def)
      have "compute_jump_dests code i dests = compute_jump_dests code (i + 1) (insert (word_of_nat i) dests)"
        using True dest by (subst compute_jump_dests.simps) auto
      also have "\<dots> = insert (word_of_nat i) dests \<union> word_of_nat ` ?D (i + 1)"
        using "1.IH"(2) [OF True refl dest] start unfolding n .
      finally show ?thesis unfolding D n using dest(2) by auto
    next
      case other
      then have n: "?n = i + 1" by (auto simp: instr_length_def)
      have "compute_jump_dests code i dests = compute_jump_dests code (i + 1) dests"
        using True other by (subst compute_jump_dests.simps) auto
      also have "\<dots> = dests \<union> word_of_nat ` ?D (i + 1)"
        using "1.IH"(3) [OF True refl other] start unfolding n .
      finally show ?thesis unfolding D n using other(2) by auto
    qed
  qed (subst compute_jump_dests.simps, auto)
qed

lemma jump_dests_iff:
  assumes "length c < 2 ^ 64"
  shows "d \<in> prog_jump_dests (new_Program c) \<longleftrightarrow>
    unat d < length c \<and> instr_start c (unat d) \<and> c ! unat d = OP_JUMPDEST"
proof -
  have w: "d = word_of_nat e \<longleftrightarrow> e = unat d" if "e < length c" for e
    using that assms by (auto simp: unsigned_of_nat take_bit_nat_eq_self)
  have "prog_jump_dests (new_Program c) =
      word_of_nat ` {d. d < length c \<and> instr_start c d \<and> c ! d = OP_JUMPDEST}"
    by (simp add: new_Program_def jump_dests_loop first)
  then have "d \<in> prog_jump_dests (new_Program c) \<longleftrightarrow>
      (\<exists>e. e < length c \<and> instr_start c e \<and> c ! e = OP_JUMPDEST \<and> d = word_of_nat e)"
    by auto
  then show ?thesis using w by metis
qed

section \<open>Memory\<close>

lemma nth_grow:
  "i < max (length m) n \<Longrightarrow>
    (if n > length m then resize n m else m) ! i = (if i < length m then m ! i else 0)"
  by (simp add: nth_resize max_def split: if_splits)

lemma length_grow: "length (if n > length m then resize n m else m) = max (length m) n"
  by (simp add: max_def)

lemma prepare_mem_ok:
  assumes "unat offset + unat sz \<le> 2 ^ 25"
  shows "prepare_mem_access offset sz m =
    (Inr (), if unat offset + unat sz > length m then resize (unat offset + unat sz) m else m)"
proof -
  have u: "unat (offset + sz) = unat offset + unat sz" using assms by (simp add: unat_add_lem [THEN iffD1])
  then have "\<not> offset + sz < offset" by (simp add: word_less_nat_alt)
  then show ?thesis using assms u by (simp add: prepare_mem_access_def MAX_MEM_SIZE_def Let_def)
qed

lemma prepare_mem_fails:
  assumes "2 ^ 25 < unat offset + unat sz"
  shows "\<exists>msg. prepare_mem_access offset sz m = (Inl (Exception OutOfBounds msg), m)"
proof (cases "unat offset + unat sz < 2 ^ 64")
  case True
  then have "unat (offset + sz) = unat offset + unat sz" by (simp add: unat_add_lem [THEN iffD1])
  then show ?thesis using assms by (simp add: prepare_mem_access_def MAX_MEM_SIZE_def mem_limit_def Let_def)
next
  case False
  then have "offset + sz < offset" by (simp add: no_olen_add_nat not_le [symmetric])
  then show ?thesis by (simp add: prepare_mem_access_def Let_def)
qed

lemma prepare_mem_covers:
  "prepare_mem_access offset sz m = (Inr (), m') \<Longrightarrow> unat offset + unat sz \<le> length m'"
proof (cases "unat offset + unat sz \<le> 2 ^ 25")
  case True
  then show "prepare_mem_access offset sz m = (Inr (), m') \<Longrightarrow> unat offset + unat sz \<le> length m'"
    by (auto simp: prepare_mem_ok)
next
  case False
  then show "prepare_mem_access offset sz m = (Inr (), m') \<Longrightarrow> unat offset + unat sz \<le> length m'"
    using prepare_mem_fails [of offset sz m] by auto
qed

text \<open>
  The accesses of \<open>copy_from_mem\<close> and \<open>copy_mem_raw\<close> are in their vectors: both functions
  agree with their versions on total access.
\<close>

lemma copy_from_mem_total:
  "copy_from_mem offset sz = andthen (prepare_mem_access offset sz) (reads (segment (unat offset) (unat sz)))"
  using prepare_mem_covers [of offset sz]
  by (auto simp: copy_from_mem_def andthen_run bind_run fun_eq_iff split: prod.splits sum.splits)

lemma copy_mem_raw_total:
  "copy_mem_raw offDst offSrc sz src pad =
    (if sz = 0 then ret ()
     else
       let lastDst = offDst + sz
       in if lastDst < offDst then
            raise (Exception OutOfBounds (''Integer overflow in copy_mem ('' @ to_string (unat lastDst) @
              '' < '' @ to_string (unat offDst) @ '')''))
          else if unat lastDst > MAX_MEM_SIZE then raise (mem_limit (unat lastDst))
          else upd (\<lambda>dst.
            let dst = (if unat lastDst > length dst then resize (unat lastDst) dst else dst);
                lastSrc = offSrc + sz;
                endSrc = min lastSrc (word_of_nat (length src));
                (dst, remaining) =
                  (if endSrc > offSrc then
                     (write_at (unat offDst) (segment (unat offSrc) (unat endSrc - unat offSrc) src) dst,
                      lastSrc - endSrc)
                   else (dst, sz))
            in write_at (unat lastDst - unat remaining) (replicate (unat remaining) pad) dst))"
proof (cases "sz = 0 \<or> offDst + sz < offDst \<or> unat (offDst + sz) > MAX_MEM_SIZE")
  case False
  then have "offDst \<le> offDst + sz" by (simp add: not_less)
  then have u: "unat (offDst + sz) = unat offDst + unat sz"
    by (simp add: no_olen_add_nat unat_add_lem [THEN iffD1])
  let ?stop = "min (offSrc + sz) (word_of_nat (length src))"
  have fill: "vec_fill (uint (offDst + sz) - uint r) (unat (offDst + sz)) pad g =
      (Inr (), write_at (unat (offDst + sz) - unat r) (replicate (unat r) pad) g)"
    if "unat r \<le> unat sz" "unat (offDst + sz) \<le> length g" for r :: u64 and g
  proof -
    have "nat (uint (offDst + sz) - uint r) = unat (offDst + sz) - unat r" unfolding uint_nat by linarith
    moreover have "unat (offDst + sz) - (unat (offDst + sz) - unat r) = unat r" using that u by linarith
    moreover have "0 \<le> uint (offDst + sz) - uint r \<and>
        uint (offDst + sz) - uint r \<le> int (unat (offDst + sz)) \<and> unat (offDst + sz) \<le> length g"
      using that u unfolding uint_nat by linarith
    ultimately show ?thesis by (simp only: vec_fill_def if_P)
  qed
  show ?thesis
  proof (cases "offSrc < ?stop")
    case True
    then have "offSrc \<le> offSrc + sz" by (simp add: less_imp_le)
    then have us: "unat (offSrc + sz) = unat offSrc + unat sz"
      by (simp add: no_olen_add_nat unat_add_lem [THEN iffD1])
    have e: "unat ?stop \<le> unat offSrc + unat sz"
      unfolding us [symmetric] by (simp only: word_le_nat_alt [symmetric]) simp
    have "unat ?stop \<le> unat (word_of_nat (length src) :: u64)"
      by (simp only: word_le_nat_alt [symmetric]) simp
    then have s: "unat ?stop \<le> length src"
      by (rule order_trans) (simp add: unsigned_of_nat take_bit_nat_less_eq_self)
    have oe: "unat offSrc < unat ?stop" using True by (simp only: word_less_nat_alt)
    have r: "unat (offSrc + sz - ?stop) = unat offSrc + unat sz - unat ?stop"
      unfolding us [symmetric] by (rule unat_sub) simp
    let ?seg = "segment (unat offSrc) (unat ?stop - unat offSrc) src"
    have rd: "vec_read (unat offSrc) (unat ?stop - unat offSrc) src = Inr ?seg" using oe s by simp
    have l: "length ?seg = unat ?stop - unat offSrc" using s by (simp add: length_segment)
    have wr: "vec_write (unat offDst) ?seg g = (Inr (), write_at (unat offDst) ?seg g)"
      "length (write_at (unat offDst) ?seg g) = length g"
      if "unat (offDst + sz) \<le> length g" for g
    proof -
      have "unat offDst + length ?seg \<le> length g" using that u e l oe by linarith
      then show "vec_write (unat offDst) ?seg g = (Inr (), write_at (unat offDst) ?seg g)"
        "length (write_at (unat offDst) ?seg g) = length g" by simp_all
    qed
    have "unat (offSrc + sz - ?stop) \<le> unat sz" using r oe by linarith
    then show ?thesis
      using False True
      by (simp add: copy_mem_raw_def Let_def andthen_run bind_run fun_eq_iff rd wr fill del: min_less_iff_conj)
  qed (use False in \<open>simp add: copy_mem_raw_def Let_def andthen_run bind_run fun_eq_iff fill del: min_less_iff_conj\<close>)
qed (auto simp: copy_mem_raw_def Let_def)

lemma prepare_mem_bounded: "length m \<le> 2 ^ 25 \<Longrightarrow> length (snd (prepare_mem_access offset sz m)) \<le> 2 ^ 25"
  by (auto simp: prepare_mem_access_def MAX_MEM_SIZE_def Let_def)

lemma copy_from_mem_run:
  assumes "unat offset + unat sz \<le> 2 ^ 25"
  shows "\<exists>m'. copy_from_mem offset sz m = (Inr (segment (unat offset) (unat sz) m'), m') \<and>
    length m' = max (length m) (unat offset + unat sz) \<and>
    (\<forall>i < length m'. m' ! i = (if i < length m then m ! i else 0))"
  using nth_grow [of _ m "unat offset + unat sz"] length_grow [of m "unat offset + unat sz"]
  by (simp add: copy_from_mem_total andthen_run prepare_mem_ok [OF assms] del: not_less) 

lemma copy_mem_raw_ok:
  assumes "sz \<noteq> 0" and lim: "unat offDst + unat sz \<le> 2 ^ 25" and src: "length src < 2 ^ 63"
  shows "\<exists>m. copy_mem_raw offDst offSrc sz src pad dst = (Inr (), m) \<and>
    length m = max (length dst) (unat offDst + unat sz) \<and>
    (\<forall>i < length m. m ! i = copied (unat offDst) (unat offSrc) (unat sz) src pad dst i)"
proof -
  have u: "unat (offDst + sz) = unat offDst + unat sz" using lim by (simp add: unat_add_lem [THEN iffD1])
  then have nl: "\<not> offDst + sz < offDst" by (simp add: word_less_nat_alt)
  have ls: "unat (word_of_nat (length src) :: u64) = length src"
    using src by (simp add: unsigned_of_nat take_bit_nat_eq_self)
  let ?n = "unat offDst + unat sz"
  define g where "g = (if ?n > length dst then resize ?n dst else dst)"
  have lg: "length g = max (length dst) ?n" by (simp add: g_def length_grow)
  have ng: "i < length g \<Longrightarrow> g ! i = (if i < length dst then dst ! i else 0)" for i
    unfolding lg unfolding g_def by (rule nth_grow)
  let ?stop = "min (offSrc + sz) (word_of_nat (length src))"
  show ?thesis
  proof (cases "offSrc < ?stop")
    case False
    have all: "j \<ge> length src" if "unat offSrc \<le> j" "j < unat offSrc + unat sz" for j
    proof (rule ccontr)
      assume "\<not> length src \<le> j"
      then have "unat offSrc < 2 ^ 63" using that src by simp
      then have "unat (offSrc + sz) = unat offSrc + unat sz"
        using lim by (simp add: unat_add_lem [THEN iffD1])
      then show False using False that \<open>\<not> length src \<le> j\<close> ls by (simp add: word_less_nat_alt min_def split: if_splits)
    qed
    have all': "unat offDst \<le> i \<Longrightarrow> i < ?n \<Longrightarrow> \<not> unat offSrc + i - unat offDst < length src" for i
      using all [of "unat offSrc + i - unat offDst"] by linarith
    have "copy_mem_raw offDst offSrc sz src pad dst = (Inr (), write_at (unat offDst) (replicate (unat sz) pad) g)"
      using assms(1) nl u lim False
      by (simp add: copy_mem_raw_total MAX_MEM_SIZE_def Let_def g_def del: min_less_iff_conj)
    moreover have "unat offDst + length (replicate (unat sz) pad) \<le> length g" using lg by simp
    ultimately show ?thesis
      using lg ng all' by (auto simp: nth_write_at copied_def Let_def)
  next
    case True
    then have "offSrc \<le> offSrc + sz" by (simp add: less_imp_le)
    then have us: "unat (offSrc + sz) = unat offSrc + unat sz"
      by (simp add: no_olen_add_nat unat_add_lem [THEN iffD1])
    define e where "e = unat ?stop"
    have e: "e = min (unat offSrc + unat sz) (length src)"
      unfolding e_def min_def word_le_nat_alt us ls by (simp add: us ls)
    have oe: "unat offSrc < e" using True unfolding e_def by (simp add: word_less_nat_alt)
    have rem: "unat (offSrc + sz - ?stop) = unat offSrc + unat sz - e"
      unfolding e_def us [symmetric] by (rule unat_sub) simp
    define r where "r = unat offSrc + unat sz - e"
    have le: "e \<le> unat offSrc + unat sz" "e \<le> length src" using e by simp_all
    then have r: "unat offDst + (e - unat offSrc) + r = ?n" using oe unfolding r_def by linarith
    have pos: "?n - r = unat offDst + (e - unat offSrc)" using r by simp
    define seg where "seg = segment (unat offSrc) (e - unat offSrc) src"
    have lseg: "length seg = e - unat offSrc" unfolding seg_def length_segment using le by simp
    have "copy_mem_raw offDst offSrc sz src pad dst =
        (Inr (), write_at (?n - r) (replicate r pad) (write_at (unat offDst) seg g))"
      using assms(1) nl u lim True
      by (simp add: copy_mem_raw_total MAX_MEM_SIZE_def Let_def g_def rem r_def seg_def e_def [symmetric] del: min_less_iff_conj)
    moreover have l1: "unat offDst + length seg \<le> length g" using lg lseg r by simp
    moreover have l2: "?n - r + length (replicate r pad) \<le> length (write_at (unat offDst) seg g)"
      using l1 lg r by simp
    moreover have "write_at (?n - r) (replicate r pad) (write_at (unat offDst) seg g) ! i =
        copied (unat offDst) (unat offSrc) (unat sz) src pad dst i" if i: "i < length g" for i
    proof -
      let ?d = "write_at (unat offDst) seg g"
      have 1: "?d ! i = (if unat offDst \<le> i \<and> i < unat offDst + length seg then seg ! (i - unat offDst) else g ! i)"
        using l1 i by (rule nth_write_at)
      have 2: "write_at (?n - r) (replicate r pad) ?d ! i = (if ?n - r \<le> i \<and> i < ?n then pad else ?d ! i)"
      proof -
        have "replicate r pad ! (i - (?n - r)) = pad" if "?n - r \<le> i" "i < ?n"
          by (rule nth_replicate) (use that r in linarith)
        moreover have "?n - r + length (replicate r pad) = ?n" using r by simp
        moreover have "i < length ?d" using l1 i by simp
        ultimately show ?thesis using nth_write_at [OF l2, of i] by (simp only:) auto
      qed
      have 3: "seg ! (i - unat offDst) = src ! (unat offSrc + (i - unat offDst))"
        if "unat offDst \<le> i" "i < unat offDst + length seg"
        unfolding seg_def by (rule nth_segment) (use that lseg le in linarith)+
      consider "i < unat offDst" | "unat offDst \<le> i" "i < ?n - r" | "?n - r \<le> i" "i < ?n" | "?n \<le> i"
        using pos r by linarith
      then show ?thesis
      proof cases
        case mid: 2
        then have "i < unat offDst + length seg" "unat offSrc + (i - unat offDst) < length src" "i < ?n"
          using lseg pos le r by linarith+
        then show ?thesis using mid 1 2 3 by (simp add: copied_def Let_def)
      next
        case fill: 3
        then have "unat offDst \<le> i" using pos by linarith
        moreover have "length src \<le> unat offSrc + (i - unat offDst)"
        proof -
          have "e = length src \<or> r = 0" unfolding r_def e by (simp add: min_def)
          then show ?thesis using fill pos oe by linarith
        qed
        ultimately show ?thesis using fill 2 by (simp add: copied_def Let_def)
      next
        case low: 1
        then show ?thesis using 1 2 ng [OF i] pos by (simp add: copied_def)
      next
        case high: 4
        then have "\<not> i < unat offDst + length seg" using lseg r by linarith
        then show ?thesis using high 1 2 ng [OF i] by (simp add: copied_def)
      qed
    qed
    ultimately have "copy_mem_raw offDst offSrc sz src pad dst =
        (Inr (), write_at (?n - r) (replicate r pad) (write_at (unat offDst) seg g))"
      and "length (write_at (?n - r) (replicate r pad) (write_at (unat offDst) seg g)) = length g"
      and "\<forall>i < length g. write_at (?n - r) (replicate r pad) (write_at (unat offDst) seg g) ! i =
        copied (unat offDst) (unat offSrc) (unat sz) src pad dst i"
      by simp_all
    then show ?thesis using lg by simp
  qed
qed


lemma copy_mem_raw_fails:
  assumes "sz \<noteq> 0" and "2 ^ 25 < unat offDst + unat sz"
  shows "\<exists>msg. copy_mem_raw offDst offSrc sz src pad dst = (Inl (Exception OutOfBounds msg), dst)"
proof (cases "unat offDst + unat sz < 2 ^ 64")
  case True
  then have "unat (offDst + sz) = unat offDst + unat sz" by (simp add: unat_add_lem [THEN iffD1])
  then show ?thesis using assms by (simp add: copy_mem_raw_total MAX_MEM_SIZE_def mem_limit_def Let_def)
next
  case False
  then have "offDst + sz < offDst" by (simp add: no_olen_add_nat not_le [symmetric])
  then show ?thesis using assms(1) by (simp add: copy_mem_raw_total Let_def)
qed

section \<open>Properties\<close>

text \<open>
  Claim C24.  A jump succeeds exactly when its target is the start of an instruction of the program, in
  the reading that skips the immediate bytes of pushes, and that instruction is a
  \<open>JUMPDEST\<close>.  Otherwise it throws and changes nothing.
\<close>

theorem jump_exactly_to_jumpdests:
  assumes "length c < 2 ^ 64" and "c_prog ctx = new_Program c"
  shows "jump_to d ctx =
    (if unat d < length c \<and> instr_start c (unat d) \<and> c ! unat d = OP_JUMPDEST
     then (Inr (), set_pc d ctx)
     else (Inl (Exception IllegalInstruction (to_string (unat d) @ '' is not a jump destination'')), ctx))"
  using jump_dests_iff [OF assms(1), of d] assms(2) by (simp add: jump_to_def bind_run)

theorem jump_exactly_to_jumpdests_witness:
  "jump_to 2 (new_Context 1 2 [] 0 (new_Program [0x60, 0x5b, 0x5b]) OuterHandlers False) =
     (Inr (), set_pc 2 (new_Context 1 2 [] 0 (new_Program [0x60, 0x5b, 0x5b]) OuterHandlers False)) \<and>
   fst (jump_to 1 (new_Context 1 2 [] 0 (new_Program [0x60, 0x5b, 0x5b]) OuterHandlers False)) \<noteq> Inr ()"
proof -
  let ?c = "[0x60, 0x5b, 0x5b] :: bytes"
  let ?x = "new_Context 1 2 [] 0 (new_Program ?c) OuterHandlers False"
  have len: "instr_length 0x60 = 2" by (simp add: instr_length_def opcodes)
  have 2: "instr_start ?c 2" using later [OF first, of ?c] len by (simp add: numeral_2_eq_2)
  have 1: "\<not> instr_start ?c 1" using instr_start_next [OF _ first, of ?c 1] len by auto
  show ?thesis
    using jump_exactly_to_jumpdests [of ?c ?x 2] jump_exactly_to_jumpdests [of ?c ?x 1] 1 2
    by (simp add: new_Context_def opcodes)
qed

text \<open>
  Copying into memory has the reference effect.  Within the limit of 32 MB the memory grows
  as needed, with zeros, the target range holds the source bytes from the source offset on, padded
  where the source ends, and every other byte is unchanged.  Past the limit, or when the end of
  the range overflows, the copy throws and changes nothing.  A copy of no bytes does nothing at all.
\<close>

lemma copy_mem_reference:
  assumes "length src < 2 ^ 63"
  shows "(sz \<noteq> 0 \<and> unat offDst + unat sz \<le> 2 ^ 25 \<longrightarrow>
      (\<exists>m. copy_mem_raw offDst offSrc sz src pad dst = (Inr (), m) \<and>
        length m = max (length dst) (unat offDst + unat sz) \<and>
        (\<forall>i < length m. m ! i = copied (unat offDst) (unat offSrc) (unat sz) src pad dst i))) \<and>
    (sz \<noteq> 0 \<and> 2 ^ 25 < unat offDst + unat sz \<longrightarrow>
      (\<exists>msg. copy_mem_raw offDst offSrc sz src pad dst = (Inl (Exception OutOfBounds msg), dst))) \<and>
    copy_mem_raw offDst offSrc 0 src pad dst = (Inr (), dst)"
  using copy_mem_raw_ok [OF _ _ assms] copy_mem_raw_fails by (simp add: copy_mem_raw_total)

end
