(* ===== verification/Ops.thy ===== *)
theory Ops
  imports Contexts
begin

text \<open>
  The opcodes of \<open>src/processor.cpp\<close> that work on the current context alone: arithmetic,
  comparison, bitwise logic, jumps, memory, the data of the call, and the block information the
  processor refuses.  Each method of \<open>_Processor\<close> is one action on a context.

  The theorems compare the arithmetic of the code with the integers it means: signed division and
  remainder with the truncating operations on \<open>int\<close>, exponentiation with the power, sign
  extension, signed comparison and shifts with their arithmetic readings.
\<close>

unbundle bit_operations_syntax

section \<open>Helpers\<close>

definition of_sum :: "exn + 'a \<Rightarrow> ('s, 'a) act" where
  "of_sum r = (case r of Inl e \<Rightarrow> raise e | Inr x \<Rightarrow> ret x)"

definition of_bool256 :: "bool \<Rightarrow> u256" where
  "of_bool256 b = (if b then 1 else 0)"

definition get_sign :: "u256 \<Rightarrow> int" where
  "get_sign v = (if drop_bit 255 v \<noteq> 0 then - 1 else 1)"

text \<open>
  Shifts by a 256-bit amount, as \<open>intx\<close> defines them: an amount that is not below 256 shifts
  everything out.
\<close>

definition uint_shl :: "u256 \<Rightarrow> u256 \<Rightarrow> u256" where
  "uint_shl x shift = (if shift \<ge> 256 then 0 else push_bit (unat shift) x)"

definition uint_shr :: "u256 \<Rightarrow> u256 \<Rightarrow> u256" where
  "uint_shr x shift = (if shift \<ge> 256 then 0 else drop_bit (unat shift) x)"

function exp_loop :: "u256 \<Rightarrow> u256 \<Rightarrow> u256 \<Rightarrow> u256" where
  "exp_loop result base exponent =
    (if exponent \<noteq> 0 then
       exp_loop (if exponent AND 1 \<noteq> 0 then result * base else result) (base * base) (drop_bit 1 exponent)
     else result)"
  by pat_completeness auto
termination
proof (relation "measure (\<lambda>(_, _, e). unat e)")
  fix result base exponent :: u256
  assume "exponent \<noteq> 0"
  then have "unat (drop_bit 1 exponent) < unat exponent"
    using unat_gt_0 [of exponent] by (simp add: drop_bit_Suc unat_div)
  then show "((if exponent AND 1 \<noteq> 0 then result * base else result, base * base, drop_bit 1 exponent),
      result, base, exponent) \<in> measure (\<lambda>(_, _, e). unat e)"
    by simp
qed simp

declare exp_loop.simps [simp del]

definition intx_exp :: "u256 \<Rightarrow> u256 \<Rightarrow> u256" where
  "intx_exp base exponent = (if base = 2 then uint_shl 1 exponent else exp_loop 1 base exponent)"

section \<open>Stack manipulation\<close>

definition op_swap :: "(Context, unit) act" where
  "op_swap = bind get_op (\<lambda>op. on_stack (stack_swap (ucast op - ucast OP_SWAP1 + 1)))"

definition op_dup :: "(Context, unit) act" where
  "op_dup = bind get_op (\<lambda>op. on_stack (stack_dup (ucast op - ucast OP_DUP1)))"

definition op_pop :: "(Context, unit) act" where
  "op_pop = bind s_pop (\<lambda>_. ret ())"

definition op_push :: "(Context, unit) act" where
  "op_push =
    bind get_op (\<lambda>op.
    bind (reads get_pc) (\<lambda>pc.
    bind (reads (prog_code \<circ> c_prog)) (\<lambda>code.
    let bytes = op - OP_PUSH1 + 1;
        end = pc + ucast bytes
    in if end < pc then
         raise (Exception OutOfBounds (''Integer overflow in push ('' @ to_string (unat end) @ '' < '' @
           to_string (unat pc) @ '')''))
       else if unat end \<ge> length code then
         raise (Exception OutOfBounds (''Push immediate exceeds size of program ('' @ to_string (unat end) @
           '' >= '' @ to_string (length code) @ '')''))
       else
         bind (of_sum (vec_read (unat pc + 1) (unat bytes) code)) (\<lambda>bs.
         let imm = foldl (\<lambda>imm b. push_bit 8 imm OR ucast b) 0 bs
         in andthen (s_push imm) (upd (set_pc (pc + 1 + ucast bytes)))))))"

section \<open>Arithmetic\<close>

definition unop :: "(u256 \<Rightarrow> u256) \<Rightarrow> (Context, unit) act" where
  "unop f = bind s_pop (\<lambda>x. s_push (f x))"

definition binop :: "(u256 \<Rightarrow> u256 \<Rightarrow> u256) \<Rightarrow> (Context, unit) act" where
  "binop f = bind s_pop (\<lambda>x. bind s_pop (\<lambda>y. s_push (f x y)))"

definition terop :: "(u256 \<Rightarrow> u256 \<Rightarrow> u256 \<Rightarrow> u256) \<Rightarrow> (Context, unit) act" where
  "terop f = bind s_pop (\<lambda>x. bind s_pop (\<lambda>y. bind s_pop (\<lambda>m. s_push (f x y m))))"

definition op_add :: "(Context, unit) act" where
  "op_add = binop (\<lambda>x y. x + y)"

definition op_sub :: "(Context, unit) act" where
  "op_sub = binop (\<lambda>x y. x - y)"

definition op_mul :: "(Context, unit) act" where
  "op_mul = binop (\<lambda>x y. x * y)"

definition op_div :: "(Context, unit) act" where
  "op_div = binop (\<lambda>x y. if y = 0 then 0 else x div y)"

text \<open>
  The comparison \<open>y == -1\<close> converts the \<open>int\<close> to one 64-bit word, so it compares with
  \<open>2 ^ 64 - 1\<close>.
\<close>

definition sdiv :: "u256 \<Rightarrow> u256 \<Rightarrow> u256" where
  "sdiv x y =
    (let min = (- 1 :: u256) div 2 + 1
     in if y = 0 then 0
        else if x = min \<and> y = ucast (- 1 :: u64) then x
        else
          let signX = get_sign x; signY = get_sign y;
              x = (if signX = - 1 then 0 - x else x);
              y = (if signY = - 1 then 0 - y else y);
              z = x div y
          in if signX \<noteq> signY then 0 - z else z)"

definition op_sdiv :: "(Context, unit) act" where
  "op_sdiv = binop sdiv"

definition op_mod :: "(Context, unit) act" where
  "op_mod = binop (\<lambda>x m. if m = 0 then 0 else x mod m)"

definition smod :: "u256 \<Rightarrow> u256 \<Rightarrow> u256" where
  "smod x m =
    (if m = 0 then 0
     else
       let signX = get_sign x; signM = get_sign m;
           x = (if signX = - 1 then 0 - x else x);
           m = (if signM = - 1 then 0 - m else m);
           z = x mod m
       in if signX = - 1 then 0 - z else z)"

definition op_smod :: "(Context, unit) act" where
  "op_smod = binop smod"

definition op_addmod :: "(Context, unit) act" where
  "op_addmod = terop (\<lambda>x y m. if m = 0 then 0 else (x + y) mod m)"

definition op_mulmod :: "(Context, unit) act" where
  "op_mulmod = terop (\<lambda>x y m. if m = 0 then m else (x * y) mod m)"

definition op_exp :: "(Context, unit) act" where
  "op_exp = bind s_pop (\<lambda>b. bind s_pop64 (\<lambda>e. s_push (intx_exp b (ucast e))))"

definition signextend :: "u256 \<Rightarrow> u256 \<Rightarrow> u256" where
  "signextend x y =
    (if x \<ge> 32 then y
     else
       let idx = 8 * unat (shrink8 x) + 7;
           sign = ucast (drop_bit idx y AND 1) :: byte;
           zero = 0 :: u256;
           mask = drop_bit (256 - idx) (NOT zero)
       in push_bit idx (if sign \<noteq> 0 then NOT zero else zero) OR (y AND mask))"

definition op_signextend :: "(Context, unit) act" where
  "op_signextend = binop signextend"

section \<open>Comparison and bitwise logic\<close>

definition op_lt :: "(Context, unit) act" where
  "op_lt = binop (\<lambda>x y. of_bool256 (x < y))"

definition op_gt :: "(Context, unit) act" where
  "op_gt = binop (\<lambda>x y. of_bool256 (x > y))"

definition slt :: "u256 \<Rightarrow> u256 \<Rightarrow> u256" where
  "slt x y =
    (if x = y then 0
     else
       let signX = get_sign x; signY = get_sign y
       in if signX \<noteq> signY then (if signX = - 1 then 1 else 0)
          else of_bool256 (x < y))"

definition op_slt :: "(Context, unit) act" where
  "op_slt = binop slt"

definition op_sgt :: "(Context, unit) act" where
  "op_sgt = andthen (on_stack (stack_swap 1)) op_slt"

definition op_eq :: "(Context, unit) act" where
  "op_eq = binop (\<lambda>x y. of_bool256 (x = y))"

definition op_isZero :: "(Context, unit) act" where
  "op_isZero = unop (\<lambda>x. of_bool256 (x = 0))"

definition op_and :: "(Context, unit) act" where
  "op_and = binop (\<lambda>x y. x AND y)"

definition op_or :: "(Context, unit) act" where
  "op_or = binop (\<lambda>x y. x OR y)"

definition op_xor :: "(Context, unit) act" where
  "op_xor = binop (\<lambda>x y. x XOR y)"

definition op_not :: "(Context, unit) act" where
  "op_not = unop (\<lambda>x. NOT x)"

definition op_byte :: "(Context, unit) act" where
  "op_byte =
    bind s_pop (\<lambda>idx.
    if idx \<ge> 32 then s_push 0
    else
      let shift = 256 - 8 - 8 * unat (shrink8 idx);
          mask = push_bit shift 255
      in bind s_pop (\<lambda>val. s_push (drop_bit shift (val AND mask))))"

definition op_shl :: "(Context, unit) act" where
  "op_shl = binop (\<lambda>shift value. uint_shl value shift)"

definition op_shr :: "(Context, unit) act" where
  "op_shr = binop (\<lambda>shift value. uint_shr value shift)"

text \<open>The words of a 256-bit integer are 64-bit words; the last one holds the sign.\<close>

definition sar :: "u256 \<Rightarrow> u256 \<Rightarrow> u256" where
  "sar y x =
    (let is_neg = sint (ucast (drop_bit 192 x) :: u64) < 0;
         sign_mask = (if is_neg then NOT 0 else 0);
         mask_shift = (if y < 256 then 256 - (ucast y :: u64) else 0)
     in uint_shr x y OR uint_shl sign_mask (ucast mask_shift))"

definition op_sar :: "(Context, unit) act" where
  "op_sar = binop sar"

section \<open>Jumps\<close>

definition op_jump :: "(Context, unit) act" where
  "op_jump = bind s_pop64 jump_to"

definition op_jumpi :: "(Context, unit) act" where
  "op_jumpi = bind s_pop64 (\<lambda>newPc. bind s_pop (\<lambda>cond. if cond \<noteq> 0 then jump_to newPc else ret ()))"

definition op_jumpdest :: "(Context, unit) act" where
  "op_jumpdest = ret ()"

definition op_pc :: "(Context, unit) act" where
  "op_pc = bind (reads get_pc) (\<lambda>pc. s_push (ucast pc))"

section \<open>Memory\<close>

definition op_msize :: "(Context, unit) act" where
  "op_msize = bind (reads get_used_mem) (\<lambda>n. s_push (word_of_nat (n * 32)))"

definition op_mload :: "(Context, unit) act" where
  "op_mload =
    bind s_pop64 (\<lambda>offset.
    bind (on_mem (prepare_mem_access offset (word_of_nat WORD_SIZE))) (\<lambda>_.
    bind (bind (reads (vec_read (unat offset) WORD_SIZE \<circ> c_mem)) of_sum) (\<lambda>bs.
    bind (of_sum (from_big_endian bs)) s_push)))"

definition op_mstore :: "(Context, unit) act" where
  "op_mstore =
    bind s_pop64 (\<lambda>offset.
    bind s_pop (\<lambda>word.
    bind (on_mem (prepare_mem_access offset (word_of_nat WORD_SIZE))) (\<lambda>_.
    on_mem (vec_write (unat offset) (to_big_endian word)))))"

definition op_mstore8 :: "(Context, unit) act" where
  "op_mstore8 =
    bind s_pop64 (\<lambda>offset.
    bind s_pop (\<lambda>v.
    bind (on_mem (prepare_mem_access offset 1)) (\<lambda>_.
    on_mem (vec_write (unat offset) [shrink8 v]))))"

definition op_codecopy :: "(Context, unit) act" where
  "op_codecopy = bind (reads (prog_code \<circ> c_prog)) (\<lambda>code. copy_mem code OP_STOP)"

definition op_returndatasize :: "(Context, unit) act" where
  "op_returndatasize = bind (reads c_return_data) (\<lambda>d. s_push (word_of_nat (length d)))"

definition op_returndatacopy :: "(Context, unit) act" where
  "op_returndatacopy = bind (reads c_return_data) (\<lambda>d. copy_mem d 0)"

definition op_sha3 :: "(Context, unit) act" where
  "op_sha3 =
    bind s_pop64 (\<lambda>offset.
    bind s_pop64 (\<lambda>sz.
    bind (on_mem (prepare_mem_access offset sz)) (\<lambda>_.
    bind (bind (reads (vec_read (unat offset) (unat (ucast sz :: 32 word)) \<circ> c_mem)) of_sum) (\<lambda>data.
    bind (of_sum (to_uint256_bytes data True)) s_push))))"

section \<open>The data of the call\<close>

function calldataload_loop :: "bytes \<Rightarrow> u64 \<Rightarrow> nat \<Rightarrow> u256 \<Rightarrow> exn + u256" where
  "calldataload_loop input offset i v =
    (if i < WORD_SIZE then
       let j = offset + word_of_nat i
       in if unat j < length input then
            tries (vec_get (unat j) input) (\<lambda>b.
            calldataload_loop input offset (i + 1) (push_bit 8 v + ucast b))
          else Inr (push_bit (8 * (WORD_SIZE - i)) v)
     else Inr v)"
  by pat_completeness auto
termination
  by (relation "measure (\<lambda>(_, _, i, _). WORD_SIZE - i)") auto

declare calldataload_loop.simps [simp del]

definition op_calldataload :: "(Context, unit) act" where
  "op_calldataload =
    bind s_pop64 (\<lambda>offset.
    bind (safeAdd offset (word_of_nat WORD_SIZE)) (\<lambda>_.
    bind (reads c_input) (\<lambda>input.
    bind (of_sum (calldataload_loop input offset 0 0)) s_push)))"

definition op_calldatasize :: "(Context, unit) act" where
  "op_calldatasize = bind (reads c_input) (\<lambda>input. s_push (word_of_nat (length input)))"

definition op_calldatacopy :: "(Context, unit) act" where
  "op_calldatacopy = bind (reads c_input) (\<lambda>input. copy_mem input 0)"

definition op_caller :: "(Context, unit) act" where
  "op_caller = bind (reads c_caller) s_push"

definition op_callvalue :: "(Context, unit) act" where
  "op_callvalue = bind (reads c_call_value) s_push"

section \<open>Block information that is refused\<close>

definition op_number :: "(Context, unit) act" where
  "op_number = raise (Exception NotImplemented ''Block number is not implemented.'')"

definition op_coinbase :: "(Context, unit) act" where
  "op_coinbase = raise (Exception NotImplemented ''Block coinbase is not implemented.'')"

definition op_prevrandao :: "(Context, unit) act" where
  "op_prevrandao = raise (Exception NotImplemented ''Block prevrandao is not implemented.'')"

definition op_gaslimit :: "(Context, unit) act" where
  "op_gaslimit = raise (Exception NotImplemented ''Block gaslimit is not implemented.'')"

definition op_chanid :: "(Context, unit) act" where
  "op_chanid = raise (Exception NotImplemented ''Block chanid is not implemented.'')"

definition op_basefee :: "(Context, unit) act" where
  "op_basefee = raise (Exception NotImplemented ''Block basefee is not implemented.'')"

section \<open>Reverting\<close>

definition op_revert :: "(Context, unit) act" where
  "op_revert =
    bind s_pop64 (\<lambda>offset.
    bind s_pop64 (\<lambda>sz.
    bind (on_mem (copy_from_mem offset sz)) (\<lambda>output.
    bind (of_sum (parse_revert output)) (\<lambda>reason.
    raise (Exception Revert
      (''One of the actions in this transaction was REVERTed, reason: '' @ reason))))))"

section \<open>Example\<close>

text \<open>A context for evaluation, with a given stack.\<close>

definition example_ctx :: "stack \<Rightarrow> Context" where
  "example_ctx st =
    (new_Context 1 2 [1, 2, 3] 0 (new_Program [0x61, 0x12, 0x34]) OuterHandlers False)\<lparr>c_s := st\<rparr>"

section \<open>Signs\<close>

lemma div_255: "uint x div 2 ^ 255 = of_bool (2 ^ 255 \<le> uint x)" for x :: u256
proof (cases "2 ^ 255 \<le> uint x")
  case True
  then have "uint x div 2 ^ 255 = (uint x - 2 ^ 255) div 2 ^ 255 + 1" by (subst div_pos_geq) simp_all
  also have "(uint x - 2 ^ 255) div 2 ^ 255 = 0"
    using True uint_lt2p [of x] by (intro div_pos_pos_trivial) simp_all
  finally show ?thesis using True by simp
qed (simp add: div_pos_pos_trivial)

lemma sint_256: "sint x = (if 2 ^ 255 \<le> uint x then uint x - 2 ^ 256 else uint x)" for x :: u256
proof -
  have b: "bit (uint x) 255 \<longleftrightarrow> 2 ^ 255 \<le> uint x"
    unfolding bit_iff_odd div_255 by simp
  have "sint x = signed_take_bit 255 (uint x)" by (simp add: sint_uint)
  also have "\<dots> = take_bit (Suc 255) (uint x) - 2 ^ Suc 255 * of_bool (bit (uint x) 255)"
    by (rule signed_take_bit_eq_take_bit_minus)
  also have "take_bit (Suc 255) (uint x) = uint x"
    using uint_lt2p [of x] by (intro take_bit_int_eq_self) simp_all
  finally show ?thesis unfolding b by simp
qed

lemma get_sign_sint: "get_sign x = (if sint x < 0 then - 1 else 1)"
proof -
  have "drop_bit 255 x = 0 \<longleftrightarrow> uint (drop_bit 255 x) = 0" by (simp only: uint_0_iff)
  also have "\<dots> \<longleftrightarrow> \<not> 2 ^ 255 \<le> uint x"
  proof -
    have "uint (drop_bit 255 x) = uint x div 2 ^ 255"
      using uint_lt2p [of x] by (simp add: drop_bit_eq_div uint_div)
    then show ?thesis unfolding div_255 by simp
  qed
  finally show ?thesis using uint_lt2p [of x] by (simp add: get_sign_def sint_256)
qed

lemma uint_abs: "uint (if sint x < 0 then 0 - x else x) = \<bar>sint x\<bar>" for x :: u256
proof (cases "2 ^ 255 \<le> uint x")
  case True
  then have neg: "sint x < 0" using uint_lt2p [of x] by (simp add: sint_256)
  have "0 - x = word_of_int (2 ^ 256 - uint x)" by (simp add: word_of_int_2p)
  then have "uint (0 - x) = (2 ^ 256 - uint x) mod 2 ^ 256" by (simp only: uint_word_of_int) simp
  also have "\<dots> = 2 ^ 256 - uint x" using True uint_lt2p [of x] by (intro mod_pos_pos_trivial) auto
  finally show ?thesis using True neg by (simp add: sint_256)
next
  case False
  then have "sint x = uint x" by (simp add: sint_256)
  then show ?thesis by simp
qed

section \<open>Signed division\<close>

lemma ucast_minus_one: "(ucast (- 1 :: u64) :: u256) = 2 ^ 64 - 1"
  by code_simp

lemma least_int: "(- 1 :: u256) div 2 + 1 = 2 ^ 255"
  by simp

lemma sdiv_reference:
  assumes "\<not> (x = 2 ^ 255 \<and> y = 2 ^ 64 - 1)"
  shows "sdiv x y = word_of_int (sgn (sint x) * sgn (sint y) * (\<bar>sint x\<bar> div \<bar>sint y\<bar>))"
proof (cases "y = 0")
  case False
  let ?x = "if sint x < 0 then 0 - x else x" and ?y = "if sint y < 0 then 0 - y else y"
  have sx: "(if get_sign w = - 1 then 0 - w else w) = (if sint w < 0 then 0 - w else w)" for w
    by (simp add: get_sign_sint)
  have z: "?x div ?y = word_of_int (\<bar>sint x\<bar> div \<bar>sint y\<bar>)"
    by (simp only: word_div_def uint_abs)
  have "sdiv x y = (if get_sign x \<noteq> get_sign y then 0 - ?x div ?y else ?x div ?y)"
    using False assms unfolding sdiv_def least_int ucast_minus_one Let_def sx by auto
  also have "\<dots> = word_of_int (sgn (sint x) * sgn (sint y) * (\<bar>sint x\<bar> div \<bar>sint y\<bar>))"
  proof -
    have "sint y \<noteq> 0" using False by (metis signed_0 signed_word_eqI)
    then show ?thesis unfolding z by (auto simp: get_sign_sint sgn_if)
  qed
  finally show ?thesis .
qed (simp add: sdiv_def)

lemma smod_reference:
  assumes "m \<noteq> 0"
  shows "smod x m = word_of_int (sgn (sint x) * (\<bar>sint x\<bar> mod \<bar>sint m\<bar>))"
proof -
  let ?x = "if sint x < 0 then 0 - x else x" and ?m = "if sint m < 0 then 0 - m else m"
  have sx: "(if get_sign w = - 1 then 0 - w else w) = (if sint w < 0 then 0 - w else w)" for w
    by (simp add: get_sign_sint)
  have z: "?x mod ?m = word_of_int (\<bar>sint x\<bar> mod \<bar>sint m\<bar>)"
    by (simp only: word_mod_def uint_abs)
  have "smod x m = (if get_sign x = - 1 then 0 - ?x mod ?m else ?x mod ?m)"
    using assms unfolding smod_def Let_def sx by simp
  then show ?thesis unfolding z by (auto simp: get_sign_sint sgn_if)
qed

lemma signed_order:
  "0 \<le> a \<Longrightarrow> a < 2 ^ 256 \<Longrightarrow> 0 \<le> b \<Longrightarrow> b < 2 ^ 256 \<Longrightarrow>
    (if 2 ^ 255 \<le> a then a - 2 ^ 256 else a) < (if 2 ^ 255 \<le> b then b - 2 ^ 256 else b) \<longleftrightarrow>
    (if (2 ^ 255 \<le> a) = (2 ^ 255 \<le> b) then a < b else 2 ^ 255 \<le> a)" for a b :: int
  by auto

lemma slt_reference: "slt x y = of_bool256 (sint x < sint y)"
proof -
  have "sint x < sint y \<longleftrightarrow> (if (2 ^ 255 \<le> uint x) = (2 ^ 255 \<le> uint y) then uint x < uint y else 2 ^ 255 \<le> uint x)"
    unfolding sint_256 using uint_lt2p [of x] uint_lt2p [of y] by (intro signed_order) simp_all
  moreover have "get_sign w = (if 2 ^ 255 \<le> uint w then - 1 else 1)" for w
    using uint_lt2p [of w] by (simp add: get_sign_sint sint_256)
  ultimately show ?thesis
    by (auto simp: slt_def Let_def of_bool256_def word_less_def)
qed

section \<open>Shifts and sign extension\<close>

lemma uint_shl_push_bit: "uint_shl x s = push_bit (unat s) x"
proof -
  have "push_bit (unat s) x = 0" if "256 \<le> s"
    by (rule bit_word_eqI) (use that in \<open>auto simp: bit_push_bit_iff word_le_nat_alt\<close>)
  then show ?thesis by (simp add: uint_shl_def)
qed

lemma uint_shr_drop_bit: "uint_shr x s = drop_bit (unat s) x"
proof -
  have "drop_bit (unat s) x = 0" if "256 \<le> s"
    by (rule bit_word_eqI) (use that in \<open>auto simp: bit_drop_bit_eq word_le_nat_alt dest: bit_imp_le_length\<close>)
  then show ?thesis by (simp add: uint_shr_def)
qed

lemma sar_reference: "sar y x = signed_drop_bit (unat y) x"
proof -
  have neg: "sint (ucast (drop_bit 192 x) :: u64) < 0 \<longleftrightarrow> bit x 255"
    by (simp add: bit_last_iff [symmetric] bit_ucast_iff bit_drop_bit_eq)
  show ?thesis
  proof (cases "y < 256")
    case True
    then have y: "unat y < 256" by (simp add: word_less_nat_alt)
    have u: "unat (ucast y :: u64) = unat y" using y by (simp add: unsigned_ucast_eq take_bit_nat_eq_self)
    have m: "unat (ucast (256 - (ucast y :: u64)) :: u256) = 256 - unat y"
    proof -
      have "(ucast y :: u64) \<le> 256" using u y by (simp add: word_le_nat_alt)
      then have "unat (256 - (ucast y :: u64)) = 256 - unat y" using u by (simp add: unat_sub)
      then show ?thesis by (simp add: unsigned_ucast_eq take_bit_nat_eq_self)
    qed
    show ?thesis
    proof (rule bit_word_eqI)
      fix i assume "i < LENGTH(256)"
      then have i: "i < 256" by simp
      have "bit (sar y x) i \<longleftrightarrow> bit x (unat y + i) \<or> 256 - unat y \<le> i \<and> bit x 255"
        using i True m by (auto simp: sar_def neg uint_shr_drop_bit uint_shl_push_bit bit_or_iff
            bit_drop_bit_eq bit_push_bit_iff bit_not_iff)
      also have "\<dots> \<longleftrightarrow> bit (signed_drop_bit (unat y) x) i"
        using i y by (auto simp: bit_signed_drop_bit_iff dest: bit_imp_le_length)
      finally show "bit (sar y x) i = bit (signed_drop_bit (unat y) x) i" .
    qed
  next
    case False
    then have y: "256 \<le> unat y" by (simp add: word_less_nat_alt)
    show ?thesis
    proof (rule bit_word_eqI)
      fix i assume "i < LENGTH(256)"
      then have i: "i < 256" by simp
      have "\<not> bit x (unat y + i)" using y by (auto dest: bit_imp_le_length)
      then show "bit (sar y x) i = bit (signed_drop_bit (unat y) x) i"
        using i y False by (auto simp: sar_def neg uint_shr_drop_bit uint_shl_push_bit bit_or_iff
            bit_drop_bit_eq bit_not_iff bit_signed_drop_bit_iff)
    qed
  qed
qed

lemma unat_shrink8: "unat x < 256 \<Longrightarrow> unat (shrink8 x) = unat x"
proof -
  assume x: "unat x < 256"
  have "(255 :: u256) = mask 8" by (simp add: mask_eq_exp_minus_1)
  then have "shrink8 x = ucast (take_bit 8 x)" by (simp add: shrink8_def take_bit_eq_mask)
  then show ?thesis using x by (simp add: unsigned_ucast_eq unsigned_take_bit_eq take_bit_nat_eq_self)
qed

lemma signextend_reference:
  assumes "x < 32"
  shows "signextend x y = signed_take_bit (8 * unat x + 7) y"
proof -
  have x: "unat x < 32" using assms by (simp add: word_less_nat_alt)
  let ?n = "8 * unat x + 7"
  have s: "unat (shrink8 x) = unat x" using x by (simp add: unat_shrink8)
  have sign: "(ucast (drop_bit ?n y AND 1) :: byte) \<noteq> 0 \<longleftrightarrow> bit y ?n"
    by (simp add: and_one_eq mod_2_eq_odd bit_iff_odd_drop_bit)
  show ?thesis
  proof (rule bit_word_eqI)
    fix i assume "i < LENGTH(256)"
    then have i: "i < 256" by simp
    have "bit (signextend x y) i \<longleftrightarrow> ?n \<le> i \<and> bit y ?n \<or> bit y i \<and> i < ?n"
      using assms x i by (auto simp: signextend_def Let_def s sign not_le bit_or_iff bit_and_iff
          bit_push_bit_iff bit_drop_bit_eq bit_not_iff bit_mask_iff)
    also have "\<dots> \<longleftrightarrow> bit (signed_take_bit ?n y) i"
      using i by (auto simp: bit_signed_take_bit_iff min_def)
    finally show "bit (signextend x y) i = bit (signed_take_bit ?n y) i" .
  qed
qed

lemma exp_loop_reference: "exp_loop r b e = r * b ^ unat e"
proof (induction r b e rule: exp_loop.induct)
  case (1 r b e)
  show ?case
  proof (cases "e = 0")
    case False
    have d: "unat (drop_bit 1 e) = unat e div 2" by (simp add: drop_bit_Suc unat_div)
    have "unat (e mod 2) = unat e mod 2" by (simp add: unat_mod)
    then have o: "e AND 1 \<noteq> 0 \<longleftrightarrow> odd (unat e)"
      by (metis and_one_eq odd_iff_mod_2_eq_one parity_cases unat_eq_zero zero_neq_one)
    have "exp_loop r b e = (if e AND 1 \<noteq> 0 then r * b else r) * (b * b) ^ (unat e div 2)"
      using 1 [OF False] False d by (subst exp_loop.simps) simp
    also have "\<dots> = r * b ^ unat e"
      unfolding o by (cases "odd (unat e)") (auto elim!: evenE oddE simp: power_mult power2_eq_square mult.assoc)
    finally show ?thesis .
  qed (simp add: exp_loop.simps)
qed


lemma intx_exp_reference: "intx_exp b e = b ^ unat e"
  by (simp add: intx_exp_def exp_loop_reference uint_shl_push_bit push_bit_eq_mult)

section \<open>Running the opcodes\<close>

lemmas ctx_run = on_stack_def on_mem_def zoom_run bind_run andthen_run of_sum_def

lemma unop_run:
  assumes "c_s c = x # st" and "length st \<noteq> 1024"
  shows "unop f c = (Inr (), c\<lparr>c_s := f x # st\<rparr>)"
  using assms by (simp add: unop_def ctx_run)

lemma binop_run:
  assumes "c_s c = x # y # st" and "length st \<noteq> 1024"
  shows "binop f c = (Inr (), c\<lparr>c_s := f x y # st\<rparr>)"
  using assms by (simp add: binop_def ctx_run)

lemma terop_run:
  assumes "c_s c = x # y # z # st" and "length st \<noteq> 1024"
  shows "terop f c = (Inr (), c\<lparr>c_s := f x y z # st\<rparr>)"
  using assms by (simp add: terop_def ctx_run)

lemma ucast_u64_le: "unat v < 2 ^ 64 \<Longrightarrow> v \<le> 18446744073709551615" for v :: u256
  by (simp add: word_le_nat_alt)

lemma unat_ucast_u64: "unat v < 2 ^ 64 \<Longrightarrow> unat (ucast v :: u64) = unat v" for v :: u256
  by (simp add: ucast_u64_small ucast_u64_le)

lemma s_pop64_run:
  "c_s c = v # st \<Longrightarrow> unat v < 2 ^ 64 \<Longrightarrow> s_pop64 c = (Inr (ucast v), c\<lparr>c_s := st\<rparr>)"
  by (simp add: ctx_run stack_pop64_Cons ucast_u64_le)

section \<open>Bytes of a word\<close>

lemma push_bit_or_byte: "push_bit 8 w OR ucast b = w * 256 + ucast b" for w :: u256 and b :: byte
proof -
  have "push_bit 8 w AND ucast b = 0"
  proof (rule bit_word_eqI)
    fix n
    have "\<not> bit b n" if "8 \<le> n" using bit_imp_le_length [of b n] that by auto
    then show "bit (push_bit 8 w AND ucast b) n = bit (0::u256) n"
      by (auto simp: bit_simps)
  qed
  then have "push_bit 8 w OR ucast b = push_bit 8 w + ucast b" by (simp add: disjunctive_add_eq_or)
  then show ?thesis by (simp add: push_bit_eq_mult)
qed

lemma byte_reference:
  assumes "unat idx < 32"
  shows "drop_bit (256 - 8 - 8 * unat idx) (v AND push_bit (256 - 8 - 8 * unat idx) 255) =
    ucast (to_big_endian v ! unat idx)"
proof -
  let ?n = "256 - 8 - 8 * unat idx"
  have n: "?n = 8 * (31 - unat idx)" using assms by simp
  have t: "to_big_endian v ! unat idx = ucast (drop_bit ?n v)"
    unfolding n using assms by (simp add: to_big_endian_def)
  have m: "(255 :: u256) = mask 8" by (simp add: mask_eq_exp_minus_1)
  show ?thesis
    unfolding t m by (rule bit_word_eqI) (use assms in \<open>auto simp: bit_simps bit_mask_iff dest: bit_imp_le_length\<close>)
qed

lemma op_byte_run:
  assumes "c_s c = idx # v # st" and "length st < 1023"
  shows "op_byte c = (Inr (), c\<lparr>c_s := (if idx < 32 then ucast (to_big_endian v ! unat idx) # st else 0 # v # st)\<rparr>)"
proof (cases "idx < 32")
  case True
  then have i: "unat idx < 32" by (simp add: word_less_nat_alt)
  then show ?thesis
    using assms True byte_reference [OF i, of v]
    by (simp add: op_byte_def ctx_run Let_def not_le [symmetric] unat_shrink8)
qed (use assms in \<open>simp add: op_byte_def ctx_run not_less\<close>)

section \<open>Call data\<close>

lemma be_load_snoc: "be_load (bs @ [b]) = push_bit 8 (be_load bs) + ucast b"
  by (simp add: be_load_def push_bit_eq_mult)

lemma be_load_zeros: "be_load (bs @ replicate k 0) = push_bit (8 * k) (be_load bs)"
proof (induction k)
  case (Suc k)
  have "bs @ replicate (Suc k) 0 = (bs @ replicate k 0) @ [0]" by (simp add: replicate_append_same)
  then have "be_load (bs @ replicate (Suc k) 0) = push_bit 8 (push_bit (8 * k) (be_load bs))"
    by (simp only: be_load_snoc Suc) simp
  then show ?case by (simp add: push_bit_push_bit)
qed simp

lemma calldataload_loop_reference:
  assumes "unat offset + 32 < 2 ^ 64" and "rest = drop (unat offset) input"
  shows "i \<le> 32 \<Longrightarrow> i \<le> length rest \<Longrightarrow> v = be_load (take i rest) \<Longrightarrow>
    calldataload_loop input offset i v = Inr (be_load (take 32 (rest @ replicate 32 0)))"
proof (induction "32 - i" arbitrary: i v)
  case 0
  then have "i = 32" by simp
  with 0 show ?case by (simp add: calldataload_loop.simps WORD_SIZE_def)
next
  case (Suc k)
  then have i: "i < 32" by simp
  have j: "unat (offset + word_of_nat i) = unat offset + i"
    using assms(1) i by (simp add: unat_word_ariths unsigned_of_nat take_bit_nat_eq_self)
  show ?case
  proof (cases "unat offset + i < length input")
    case True
    then have l: "i < length rest" "rest ! i = input ! (unat offset + i)" by (simp_all add: assms(2))
    have "calldataload_loop input offset (Suc i) (push_bit 8 v + ucast (input ! (unat offset + i))) =
        Inr (be_load (take 32 (rest @ replicate 32 0)))"
      using Suc.hyps(2) Suc.prems l i
      by (intro Suc.hyps(1)) (simp_all add: take_Suc_conv_app_nth be_load_snoc)
    then show ?thesis using i j True by (subst calldataload_loop.simps) (simp add: WORD_SIZE_def Let_def)
  next
    case False
    then have "length rest = i" using Suc.prems(2) by (simp add: assms(2))
    then show ?thesis using i j False Suc.prems(3)
      by (subst calldataload_loop.simps) (simp add: WORD_SIZE_def Let_def be_load_zeros)
  qed
qed

text \<open>
  The accesses of the opcodes are in their vectors: each opcode agrees with its version on
  total access.
\<close>

lemma of_sum_run [act_simps]: "of_sum r s = (r, s)"
  by (cases r) (simp_all add: of_sum_def)

lemma on_mem_prepared:
  assumes "\<And>m. n \<le> length m \<Longrightarrow> f m = g m" and "n \<le> unat offset + unat sz"
  shows "bind (on_mem (prepare_mem_access offset sz)) (\<lambda>_. on_mem f) =
    bind (on_mem (prepare_mem_access offset sz)) (\<lambda>_. on_mem g)"
proof (rule ext)
  fix c :: Context
  have "f m = g m" if "prepare_mem_access offset sz (c_mem c) = (Inr (), m)" for m
    using prepare_mem_covers [OF that] assms by simp
  then show "bind (on_mem (prepare_mem_access offset sz)) (\<lambda>_. on_mem f) c =
      bind (on_mem (prepare_mem_access offset sz)) (\<lambda>_. on_mem g) c"
    by (auto simp: bind_run on_mem_def zoom_run split: prod.splits sum.splits)
qed

lemma reads_prepared:
  assumes "off + n \<le> unat offset + unat sz"
  shows "bind (on_mem (prepare_mem_access offset sz)) (\<lambda>_. bind (bind (reads (vec_read off n \<circ> c_mem)) of_sum) k) =
    bind (on_mem (prepare_mem_access offset sz)) (\<lambda>_. bind (reads (segment off n \<circ> c_mem)) k)"
proof (rule ext)
  fix c :: Context
  have "vec_read off n m = Inr (segment off n m)" if "prepare_mem_access offset sz (c_mem c) = (Inr (), m)" for m
    using prepare_mem_covers [OF that] assms by simp
  then show "bind (on_mem (prepare_mem_access offset sz)) (\<lambda>_. bind (bind (reads (vec_read off n \<circ> c_mem)) of_sum) k) c =
      bind (on_mem (prepare_mem_access offset sz)) (\<lambda>_. bind (reads (segment off n \<circ> c_mem)) k) c"
    by (auto simp: bind_run on_mem_def zoom_run of_sum_run split: prod.splits sum.splits)
qed

lemma op_mload_total:
  "op_mload =
    bind s_pop64 (\<lambda>offset.
    bind (on_mem (prepare_mem_access offset (word_of_nat WORD_SIZE))) (\<lambda>_.
    bind (reads (segment (unat offset) WORD_SIZE \<circ> c_mem)) (\<lambda>bs.
    bind (of_sum (from_big_endian bs)) s_push)))"
  unfolding op_mload_def by (subst reads_prepared) (simp_all add: WORD_SIZE_def)

lemma op_mstore_total:
  "op_mstore =
    bind s_pop64 (\<lambda>offset.
    bind s_pop (\<lambda>word.
    bind (on_mem (prepare_mem_access offset (word_of_nat WORD_SIZE))) (\<lambda>_.
    on_mem (upd (write_at (unat offset) (to_big_endian word))))))"
proof -
  have "bind (on_mem (prepare_mem_access offset (word_of_nat WORD_SIZE))) (\<lambda>_. on_mem (vec_write (unat offset) (to_big_endian word))) =
      bind (on_mem (prepare_mem_access offset (word_of_nat WORD_SIZE))) (\<lambda>_. on_mem (upd (write_at (unat offset) (to_big_endian word))))"
    for offset word
    by (rule on_mem_prepared [of "unat offset + 32"]) (simp_all add: WORD_SIZE_def)
  then show ?thesis by (simp only: op_mstore_def)
qed

lemma op_mstore8_total:
  "op_mstore8 =
    bind s_pop64 (\<lambda>offset.
    bind s_pop (\<lambda>v.
    bind (on_mem (prepare_mem_access offset 1)) (\<lambda>_.
    on_mem (upd (write_at (unat offset) [shrink8 v])))))"
proof -
  have "bind (on_mem (prepare_mem_access offset 1)) (\<lambda>_. on_mem (vec_write (unat offset) [shrink8 v])) =
      bind (on_mem (prepare_mem_access offset 1)) (\<lambda>_. on_mem (upd (write_at (unat offset) [shrink8 v])))"
    for offset v
    by (rule on_mem_prepared [of "unat offset + 1"]) simp_all
  then show ?thesis by (simp only: op_mstore8_def)
qed

lemma op_sha3_total:
  "op_sha3 =
    bind s_pop64 (\<lambda>offset.
    bind s_pop64 (\<lambda>sz.
    bind (on_mem (prepare_mem_access offset sz)) (\<lambda>_.
    bind (reads (segment (unat offset) (unat (ucast sz :: 32 word)) \<circ> c_mem)) (\<lambda>data.
    bind (of_sum (to_uint256_bytes data True)) s_push))))"
proof -
  have "unat (ucast sz :: 32 word) \<le> unat sz" for sz :: u64
    by (simp add: unsigned_ucast_eq take_bit_nat_less_eq_self)
  then show ?thesis unfolding op_sha3_def by (subst reads_prepared) simp_all
qed

lemma calldataload_in_input: "\<exists>v'. calldataload_loop input offset i v = Inr v'"
  by (induction input offset i v rule: calldataload_loop.induct)
    (subst calldataload_loop.simps, auto simp: Let_def)

lemma op_push_total:
  "op_push =
    bind get_op (\<lambda>op.
    bind (reads get_pc) (\<lambda>pc.
    bind (reads (prog_code \<circ> c_prog)) (\<lambda>code.
    let bytes = op - OP_PUSH1 + 1;
        end = pc + ucast bytes
    in if end < pc then
         raise (Exception OutOfBounds (''Integer overflow in push ('' @ to_string (unat end) @ '' < '' @
           to_string (unat pc) @ '')''))
       else if unat end \<ge> length code then
         raise (Exception OutOfBounds (''Push immediate exceeds size of program ('' @ to_string (unat end) @
           '' >= '' @ to_string (length code) @ '')''))
       else
         let imm = foldl (\<lambda>imm b. push_bit 8 imm OR ucast b) 0 (segment (unat pc + 1) (unat bytes) code)
         in andthen (s_push imm) (upd (set_pc (pc + 1 + ucast bytes))))))"
proof -
  have "vec_read (unat pc + 1) (unat b) code = Inr (segment (unat pc + 1) (unat b) code)"
    if "\<not> pc + ucast b < pc" "\<not> length code \<le> unat (pc + ucast b)" for pc :: u64 and b :: byte and code :: bytes
  proof -
    have "unat (pc + ucast b) = unat pc + unat (ucast b :: u64)"
      using that(1) by (simp add: not_less no_olen_add_nat unat_add_lem [THEN iffD1])
    moreover have "unat (ucast b :: u64) = unat b"
    proof -
      have "unat b < 2 ^ 64" using unsigned_less [of b, where ?'a = nat] by simp
      then show ?thesis by (simp add: unsigned_ucast_eq take_bit_nat_eq_self)
    qed
    ultimately have "unat pc + 1 + unat b \<le> length code" using that(2) by linarith
    then show ?thesis by (rule vec_read_ok)
  qed
  then show ?thesis
    unfolding op_push_def Let_def
    by (intro arg_cong2 [where f = bind] ext refl if_cong) (simp_all add: of_sum_def)
qed

lemma op_calldataload_run:
  assumes "c_s c = off # st" and "unat off + 32 < 2 ^ 64" and "length st \<noteq> 1024"
  shows "op_calldataload c =
    (Inr (), c\<lparr>c_s := be_load (take 32 (drop (unat off) (c_input c) @ replicate 32 0)) # st\<rparr>)"
proof -
  have u: "unat (ucast off :: u64) = unat off" using assms(2) by (simp add: unat_ucast_u64)
  have "\<not> ucast off + (32 :: u64) < ucast off"
    using assms(2) u by (simp add: no_olen_add_nat not_less)
  moreover have "calldataload_loop (c_input c) (ucast off) 0 0 =
      Inr (be_load (take 32 (drop (unat off) (c_input c) @ replicate 32 0)))"
    using assms(2) by (intro calldataload_loop_reference) (simp_all add: u be_load_def)
  ultimately show ?thesis
    using assms by (simp add: op_calldataload_def of_sum_run bind_run s_pop64_run safeAdd_def WORD_SIZE_def Let_def)
      (simp add: ctx_run)
qed

lemma op_calldataload_overflow:
  assumes "c_s c = off # st" and "2 ^ 64 \<le> unat off + 32" and "unat off < 2 ^ 64"
  shows "op_calldataload c = (Inl (StdException OverflowError ''integer overflow''), c\<lparr>c_s := st\<rparr>)"
proof -
  have u: "unat (ucast off :: u64) = unat off" using assms(3) by (simp add: unat_ucast_u64)
  have "ucast off + (32 :: u64) < ucast off"
    using assms(2) u no_olen_add_nat [of "ucast off :: u64" 32] by (simp add: not_le [symmetric])
  then show ?thesis
    using assms by (simp add: op_calldataload_def of_sum_run bind_run s_pop64_run safeAdd_def WORD_SIZE_def Let_def)
qed

lemma op_mstore_run:
  assumes "c_s c = off # v # st" and lim: "unat off + 32 \<le> 2 ^ 25"
  shows "\<exists>m. op_mstore c = (Inr (), c\<lparr>c_s := st, c_mem := m\<rparr>) \<and>
    length m = max (length (c_mem c)) (unat off + 32) \<and>
    (\<forall>i < length m. m ! i = copied (unat off) 0 32 (to_big_endian v) 0 (c_mem c) i)"
proof -
  have u: "unat (ucast off :: u64) = unat off" using lim by (simp add: unat_ucast_u64)
  define g where "g = (if unat off + 32 > length (c_mem c) then resize (unat off + 32) (c_mem c) else c_mem c)"
  have lg: "length g = max (length (c_mem c)) (unat off + 32)" by (simp add: g_def)
  have p: "prepare_mem_access (ucast off) 32 (c_mem c) = (Inr (), g)"
    using prepare_mem_ok [of "ucast off" 32 "c_mem c"] lim by (simp add: u g_def)
  have "op_mstore c = (Inr (), c\<lparr>c_s := st, c_mem := write_at (unat off) (to_big_endian v) g\<rparr>)"
    using assms(1) lim p
    by (simp add: op_mstore_total bind_run s_pop64_run WORD_SIZE_def u) (simp add: ctx_run)
  moreover have "unat off + length (to_big_endian v) \<le> length g" by (simp add: lg)
  moreover have "i < length g \<Longrightarrow> g ! i = (if i < length (c_mem c) then c_mem c ! i else 0)" for i
    unfolding lg unfolding g_def by (rule nth_grow)
  ultimately show ?thesis
    using lg by (auto simp: nth_write_at copied_def Let_def)
qed

lemma op_mload_run:
  assumes "c_s c = off # st" and lim: "unat off + 32 \<le> 2 ^ 25" and "unat off + 32 \<le> length (c_mem c)"
    and "length st \<noteq> 1024"
  shows "op_mload c = (Inr (), c\<lparr>c_s := be_load (segment (unat off) 32 (c_mem c)) # st\<rparr>)"
proof -
  have u: "unat (ucast off :: u64) = unat off" using lim by (simp add: unat_ucast_u64)
  have p: "prepare_mem_access (ucast off) 32 (c_mem c) = (Inr (), c_mem c)"
    using prepare_mem_ok [of "ucast off" 32 "c_mem c"] assms(3) lim by (simp add: u)
  have "length (segment (unat off) 32 (c_mem c)) = 32" using assms(3) by (simp add: length_segment)
  then have "from_big_endian (segment (unat off) 32 (c_mem c)) = Inr (be_load (segment (unat off) 32 (c_mem c)))"
    by (simp add: from_big_endian_load)
  then show ?thesis
    using assms p by (simp add: op_mload_total bind_run s_pop64_run WORD_SIZE_def u) (simp add: ctx_run)
qed

lemma segment_copied:
  assumes "\<forall>i < length m. m ! i = copied off 0 (length bs) bs 0 dst i" and "off + length bs \<le> length m"
  shows "segment off (length bs) m = bs"
  by (rule nth_equalityI) (use assms in \<open>auto simp: length_segment nth_segment copied_def\<close>)

section \<open>Push\<close>

lemma foldl_push: "foldl (\<lambda>imm b. push_bit 8 imm OR ucast b) 0 bs = be_load bs"
  by (simp add: be_load_def push_bit_or_byte)

lemma op_push_run:
  assumes v: "pc_valid c" and op: "op = prog_code (c_prog c) ! unat (c_pc c)"
    and push: "OP_PUSH0 \<le> op" "op \<le> OP_PUSH32" and n: "n = unat op - 0x5f"
    and len: "length (prog_code (c_prog c)) < 2 ^ 63"
  shows "unat (c_pc c) + n < length (prog_code (c_prog c)) \<Longrightarrow> length (c_s c) \<noteq> 1024 \<Longrightarrow>
      op_push c = (Inr (), set_pc (c_pc c + 1 + word_of_nat n)
        (c\<lparr>c_s := be_load (segment (unat (c_pc c) + 1) n (prog_code (c_prog c))) # c_s c\<rparr>))"
    and "length (prog_code (c_prog c)) \<le> unat (c_pc c) + n \<Longrightarrow>
      \<exists>msg. op_push c = (Inl (Exception OutOfBounds msg), c)"
proof -
  have o: "unat op \<le> 0x7f" "0x5f \<le> unat op" using push by (simp_all add: word_le_nat_alt opcodes)
  have b: "unat (op - OP_PUSH1 + 1) = n"
  proof -
    have "op - OP_PUSH1 + 1 = op - OP_PUSH0" by (simp add: opcodes)
    also have "unat \<dots> = unat op - unat OP_PUSH0" using push(1) by (rule unat_sub)
    finally show ?thesis by (simp add: n opcodes)
  qed
  have u: "(ucast (op - OP_PUSH1 + 1) :: u64) = word_of_nat n"
    by (simp add: b [symmetric])
  have e: "unat (c_pc c + word_of_nat n) = unat (c_pc c) + n"
  proof -
    have n32: "n \<le> 32" using o n by simp
    then have "unat (word_of_nat n :: u64) = n" by (simp add: unsigned_of_nat take_bit_nat_eq_self)
    then show ?thesis using v len n32 by (simp add: unat_word_ariths pc_valid_def)
  qed
  then have nl: "\<not> c_pc c + word_of_nat n < c_pc c" by (simp add: word_less_nat_alt)
  have g: "get_op c = (Inr op, c)" using v op by (simp add: get_op_def get_pc_def)
  show "op_push c = (Inr (), set_pc (c_pc c + 1 + word_of_nat n)
        (c\<lparr>c_s := be_load (segment (unat (c_pc c) + 1) n (prog_code (c_prog c))) # c_s c\<rparr>))"
    if "unat (c_pc c) + n < length (prog_code (c_prog c))" "length (c_s c) \<noteq> 1024"
    using that nl
    by (simp add: op_push_total bind_run g get_pc_def Let_def u e foldl_push b) (simp add: ctx_run)
  show "\<exists>msg. op_push c = (Inl (Exception OutOfBounds msg), c)"
    if "length (prog_code (c_prog c)) \<le> unat (c_pc c) + n"
    using that nl by (simp add: op_push_total bind_run g get_pc_def Let_def u e b)
qed

section \<open>Properties\<close>

lemma example_ctx_s [simp]: "c_s (example_ctx st) = st"
  by (simp add: example_ctx_def)

text \<open>
  Claim C26.  Signed division and signed remainder are the truncating operations on the
  two's-complement values, with zero for a zero divisor.  The quotient is right for all operands
  but one pair.
\<close>

theorem signed_division:
  assumes "c_s c = x # y # st" and "length st \<noteq> 1024"
  shows "(\<not> (x = 2 ^ 255 \<and> y = 2 ^ 64 - 1) \<longrightarrow>
      op_sdiv c = (Inr (), c\<lparr>c_s :=
        word_of_int (sgn (sint x) * sgn (sint y) * (\<bar>sint x\<bar> div \<bar>sint y\<bar>)) # st\<rparr>)) \<and>
    op_smod c = (Inr (), c\<lparr>c_s :=
      (if y = 0 then 0 else word_of_int (sgn (sint x) * (\<bar>sint x\<bar> mod \<bar>sint y\<bar>))) # st\<rparr>)"
  using binop_run [OF assms]
  by (simp add: op_sdiv_def op_smod_def sdiv_reference smod_reference) (simp add: smod_def)

theorem signed_division_witness:
  "fst (op_sdiv (example_ctx [- 7, 2])) = Inr () \<and> fst (op_smod (example_ctx [- 7, 2])) = Inr ()"
  using signed_division [of "example_ctx [- 7, 2]" "- 7" 2 "[]"] by simp

text \<open>
  The overflow case of signed division compares the divisor with \<open>2 ^ 64 - 1\<close> instead of
  minus one: dividing the least integer by \<open>2 ^ 64 - 1\<close> returns the dividend.
\<close>

lemma sdiv_overflow_case:
  "sdiv (2 ^ 255) (2 ^ 64 - 1) = 2 ^ 255 \<and>
   word_of_int (sgn (sint (2 ^ 255 :: u256)) * sgn (sint (2 ^ 64 - 1 :: u256)) *
     (\<bar>sint (2 ^ 255 :: u256)\<bar> div \<bar>sint (2 ^ 64 - 1 :: u256)\<bar>)) \<noteq> (2 ^ 255 :: u256)"
proof
  show "sdiv (2 ^ 255) (2 ^ 64 - 1) = 2 ^ 255"
    unfolding sdiv_def Let_def least_int ucast_minus_one by simp
  have "sint (2 ^ 255 :: u256) = - (2 ^ 255)" "sint (2 ^ 64 - 1 :: u256) = 2 ^ 64 - 1"
    by (simp_all add: sint_256)
  then show "word_of_int (sgn (sint (2 ^ 255 :: u256)) * sgn (sint (2 ^ 64 - 1 :: u256)) *
     (\<bar>sint (2 ^ 255 :: u256)\<bar> div \<bar>sint (2 ^ 64 - 1 :: u256)\<bar>)) \<noteq> (2 ^ 255 :: u256)"
    by (simp only:) simp
qed

text \<open>
  The signed comparisons compare two's-complement values, the arithmetic shift to the right
  is the division by a power of two rounding down, for any amount, and sign extension from byte
  \<open>k\<close> below 32 copies bit \<open>8 * k + 7\<close> to all higher positions.
\<close>

lemma signed_compare_shift_extend:
  assumes "c_s c = x # y # st" and "length st \<noteq> 1024"
  shows "op_slt c = (Inr (), c\<lparr>c_s := of_bool256 (sint x < sint y) # st\<rparr>) \<and>
    op_sgt c = (Inr (), c\<lparr>c_s := of_bool256 (sint x > sint y) # st\<rparr>) \<and>
    (\<exists>z. op_sar c = (Inr (), c\<lparr>c_s := z # st\<rparr>) \<and> sint z = sint y div 2 ^ unat x) \<and>
    op_signextend c = (Inr (), c\<lparr>c_s :=
      (if x < 32 then signed_take_bit (8 * unat x + 7) y else y) # st\<rparr>)"
proof -
  have "op_sgt c = (Inr (), c\<lparr>c_s := of_bool256 (sint x > sint y) # st\<rparr>)"
  proof -
    have "on_stack (stack_swap 1) c = (Inr (), c\<lparr>c_s := y # x # st\<rparr>)"
      using assms(1) by (simp add: on_stack_def zoom_run stack_swap_total stack_size_def)
    then show ?thesis
      using binop_run [of "c\<lparr>c_s := y # x # st\<rparr>" y x st slt] assms(2)
      by (simp add: op_sgt_def op_slt_def andthen_run slt_reference)
  qed
  moreover have "sint (signed_drop_bit (unat x) y) = sint y div 2 ^ unat x"
    by (simp add: sint_signed_drop_bit_eq drop_bit_eq_div)
  moreover have "signextend x y = y" if "\<not> x < 32" using that by (simp add: signextend_def not_less)
  ultimately show ?thesis
    using binop_run [OF assms]
    by (simp add: op_slt_def op_sar_def op_signextend_def slt_reference sar_reference signextend_reference)
      blast
qed

text \<open>
  Exponentiation by squaring returns the power modulo \<open>2 ^ 256\<close>.  An exponent that does not
  fit into 64 bits is refused, although the power is defined.
\<close>

lemma exp_reference:
  assumes "c_s c = b # e # st" and "length st \<noteq> 1024"
  shows "(unat e < 2 ^ 64 \<longrightarrow> op_exp c = (Inr (), c\<lparr>c_s := b ^ unat e # st\<rparr>)) \<and>
    (2 ^ 64 \<le> unat e \<longrightarrow> (\<exists>msg. op_exp c = (Inl (Exception OutOfBounds msg), c\<lparr>c_s := st\<rparr>)))"
proof (intro conjI impI)
  assume e: "unat e < 2 ^ 64"
  then have "unat (ucast (ucast e :: u64) :: u256) = unat e"
    by (simp add: unsigned_ucast_eq unsigned_take_bit_eq take_bit_nat_eq_self)
  then show "op_exp c = (Inr (), c\<lparr>c_s := b ^ unat e # st\<rparr>)"
    using assms e by (simp add: op_exp_def ctx_run stack_pop64_Cons ucast_u64_le intx_exp_reference)
next
  assume "2 ^ 64 \<le> unat e"
  then have "\<not> e \<le> 18446744073709551615" by (simp add: word_le_nat_alt)
  then show "\<exists>msg. op_exp c = (Inl (Exception OutOfBounds msg), c\<lparr>c_s := st\<rparr>)"
    using assms by (simp add: op_exp_def ctx_run stack_pop64_Cons)
qed

text \<open>
  Modular addition and multiplication reduce the sum and the product modulo
  \<open>2 ^ 256\<close> first, so they are the operations on integers exactly when nothing overflows; on
  larger operands the result can differ.
\<close>

lemma modular_arithmetic:
  assumes "c_s c = x # y # m # st" and "length st \<noteq> 1024" and "m \<noteq> 0"
  shows "(\<exists>z. op_addmod c = (Inr (), c\<lparr>c_s := z # st\<rparr>) \<and> unat z = (unat x + unat y) mod 2 ^ 256 mod unat m) \<and>
    (\<exists>z. op_mulmod c = (Inr (), c\<lparr>c_s := z # st\<rparr>) \<and> unat z = (unat x * unat y) mod 2 ^ 256 mod unat m)"
  using terop_run [OF assms(1,2)] assms(3)
  by (auto simp: op_addmod_def op_mulmod_def unat_mod unat_word_ariths intro!: exI)

text \<open>
  Claim C25.  A word stored in memory is read back: within the limit, storing writes the 32 big-endian
  bytes of the word at the offset, keeps every other byte and fills new memory with zeros, and a
  load from the same offset returns the word.
\<close>

theorem memory_round_trip:
  assumes "c_s c = off # v # st" and "unat off + 32 \<le> 2 ^ 25" and "length st < 1024"
  shows "\<exists>m. op_mstore c = (Inr (), c\<lparr>c_s := st, c_mem := m\<rparr>) \<and>
    length m = max (length (c_mem c)) (unat off + 32) \<and>
    (\<forall>i < length m. m ! i = copied (unat off) 0 32 (to_big_endian v) 0 (c_mem c) i) \<and>
    op_mload (c\<lparr>c_s := off # st, c_mem := m\<rparr>) = (Inr (), c\<lparr>c_s := v # st, c_mem := m\<rparr>)"
proof -
  obtain m where m: "op_mstore c = (Inr (), c\<lparr>c_s := st, c_mem := m\<rparr>)"
    "length m = max (length (c_mem c)) (unat off + 32)"
    "\<forall>i < length m. m ! i = copied (unat off) 0 32 (to_big_endian v) 0 (c_mem c) i"
    using op_mstore_run [OF assms(1,2)] by blast
  then have "segment (unat off) 32 m = to_big_endian v"
    using segment_copied [of m "unat off" "to_big_endian v" "c_mem c"] by simp
  then have "op_mload (c\<lparr>c_s := off # st, c_mem := m\<rparr>) = (Inr (), c\<lparr>c_s := v # st, c_mem := m\<rparr>)"
    using op_mload_run [of "c\<lparr>c_s := off # st, c_mem := m\<rparr>" off st] assms(2,3) m(2) by simp
  with m show ?thesis by blast
qed

theorem memory_round_trip_witness:
  "\<exists>m. op_mstore (example_ctx [3, 258]) = (Inr (), (example_ctx [])\<lparr>c_mem := m\<rparr>) \<and>
    op_mload ((example_ctx [3])\<lparr>c_mem := m\<rparr>) = (Inr (), (example_ctx [258])\<lparr>c_mem := m\<rparr>)"
  using memory_round_trip [of "example_ctx [3, 258]" 3 258 "[]"] by (auto simp: example_ctx_def)

text \<open>
  Loading call data reads 32 bytes from the offset, with zeros past the end of the input.
  When the offset is within 32 of \<open>2 ^ 64\<close> the code throws a standard exception, which is
  not one the interpreter handles.
\<close>

lemma calldataload_opcode:
  assumes "c_s c = off # st" and "length st \<noteq> 1024" and "unat off < 2 ^ 64"
  shows "op_calldataload c =
    (if unat off + 32 < 2 ^ 64
     then (Inr (), c\<lparr>c_s := be_load (take 32 (drop (unat off) (c_input c) @ replicate 32 0)) # st\<rparr>)
     else (Inl (StdException OverflowError ''integer overflow''), c\<lparr>c_s := st\<rparr>))"
  using op_calldataload_run [OF assms(1) _ assms(2)] op_calldataload_overflow [OF assms(1) _ assms(3)] by simp

text \<open>
  A push of \<open>n\<close> bytes pushes the big-endian value of the \<open>n\<close> bytes after the
  opcode and moves the program counter to the next instruction; when the code ends before them it
  throws and changes nothing.
\<close>

lemma push_opcode:
  assumes "pc_valid c" and "op = prog_code (c_prog c) ! unat (c_pc c)"
    and "OP_PUSH0 \<le> op" and "op \<le> OP_PUSH32" and "n = unat op - 0x5f"
    and "length (prog_code (c_prog c)) < 2 ^ 63" and "length (c_s c) \<noteq> 1024"
  shows "if unat (c_pc c) + n < length (prog_code (c_prog c))
    then op_push c = (Inr (), set_pc (c_pc c + 1 + word_of_nat n)
      (c\<lparr>c_s := be_load (segment (unat (c_pc c) + 1) n (prog_code (c_prog c))) # c_s c\<rparr>))
    else (\<exists>msg. op_push c = (Inl (Exception OutOfBounds msg), c))"
  using op_push_run [OF assms(1-6)] assms(7) by simp

end
