(* ===== verification/Processor.thy ===== *)
theory Processor
  imports Ops World Rlp
begin

text \<open>
  The class \<open>_Processor\<close> of \<open>src/processor.cpp\<close>: the opcodes that read or change the
  world, the handlers of nested contexts, \<open>dispatch\<close> and the interpreter loop \<open>run\<close>.

  The state of the processor is the record \<open>proc\<close>: the world, the transaction, the optional
  trace, the vector of contexts (the innermost one first; the pointer \<open>ctxt\<close> is the head, and null
  when there is none), and the result that the handlers of the outermost context write.  What the
  code takes from outside is the record \<open>env\<close>: the virtual methods of the world, the clock, the
  uninitialised bytes that \<open>CREATE2\<close> hashes, and the account that the dangling reference in the
  return handler of \<open>CREATE\<close> is found to denote.  The clock and the uninitialised bytes may
  differ at every use, so they are indexed by a counter \<open>p_tick\<close>.

  The interpreter loop takes fuel and returns \<open>None\<close> when the fuel does not suffice, since a
  program may loop forever (the processor does not charge gas).
\<close>

section \<open>State\<close>

datatype ExitReason = Returned | Halted | Threw

record ExecResult =
  res_er :: ExitReason
  res_ex :: ex_type
  res_exmsg :: string
  res_output :: bytes

definition new_ExecResult :: ExecResult where
  "new_ExecResult = \<lparr>res_er = Returned, res_ex = OutOfBounds, res_exmsg = [], res_output = []\<rparr>"

record TraceEvent =
  te_pc :: u64
  te_op :: byte
  te_call_depth :: u16
  te_s :: stack

record 'g proc =
  p_gs :: 'g
  p_tx :: Transaction
  p_tr :: "TraceEvent list option"
  p_ctxts :: "Context list"
  p_result :: ExecResult
  p_tick :: nat

record 'g env =
  env_ops :: "'g gs_ops"
  env_clock :: "nat \<Rightarrow> u64"
  env_junk :: "nat \<Rightarrow> bytes \<times> bytes"
  env_stale :: "u256 \<Rightarrow> u256 option"

text \<open>Actions on the current context, on the world, and on the context a pointer denotes.\<close>

definition in_ctxt :: "(Context, 'a) act \<Rightarrow> ('g proc, 'a) act" where
  "in_ctxt m = (\<lambda>p. case p_ctxts p of
      [] \<Rightarrow> (Inl (UndefinedBehaviour ''null context''), p)
    | c # cs \<Rightarrow> (case m c of (r, c') \<Rightarrow> (r, p\<lparr>p_ctxts := c' # cs\<rparr>)))"

definition in_gs :: "('g, 'a) act \<Rightarrow> ('g proc, 'a) act" where
  "in_gs m = zoom p_gs (\<lambda>g p. p\<lparr>p_gs := g\<rparr>) m"

definition in_parent :: "nat \<Rightarrow> (Context, 'a) act \<Rightarrow> ('g proc, 'a) act" where
  "in_parent k m = (\<lambda>p.
    if k < length (p_ctxts p) then
      let i = length (p_ctxts p) - 1 - k
      in case m (p_ctxts p ! i) of (r, c') \<Rightarrow> (r, p\<lparr>p_ctxts := (p_ctxts p)[i := c']\<rparr>)
    else (Inl (UndefinedBehaviour ''dangling context''), p))"

definition ctxt_as :: "('g proc, u256) act" where
  "ctxt_as = in_ctxt (reads c_as)"

definition now :: "('g, 'm) env_scheme \<Rightarrow> ('g proc, u64) act" where
  "now env = (\<lambda>p. (Inr (env_clock env (p_tick p)), p\<lparr>p_tick := p_tick p + 1\<rparr>))"

definition junk :: "('g, 'm) env_scheme \<Rightarrow> ('g proc, bytes \<times> bytes) act" where
  "junk env = (\<lambda>p. (Inr (env_junk env (p_tick p)), p\<lparr>p_tick := p_tick p + 1\<rparr>))"

section \<open>Contexts\<close>

definition get_call_depth :: "'g proc \<Rightarrow> u16" where
  "get_call_depth p = word_of_nat (length (p_ctxts p))"

definition push_context ::
  "u256 \<Rightarrow> u256 \<Rightarrow> bytes \<Rightarrow> Program \<Rightarrow> u256 \<Rightarrow> handlers \<Rightarrow> bool \<Rightarrow> ('g proc, unit) act" where
  "push_context caller as input prog call_value h is_static_mode =
    bind (reads get_call_depth) (\<lambda>depth.
    if unat depth \<ge> MAX_CALL_DEPTH then
      raise (Exception OutOfBounds (''Reached max call depth ('' @ to_string MAX_CALL_DEPTH @ '')''))
    else
      upd (\<lambda>p. p\<lparr>p_ctxts := new_Context caller as input call_value prog h is_static_mode # p_ctxts p\<rparr>))"

definition pop_context :: "('g proc, unit) act" where
  "pop_context = (\<lambda>p. case p_ctxts p of
      [] \<Rightarrow> (Inl (UndefinedBehaviour ''pop_back of an empty vector''), p)
    | c # cs \<Rightarrow> (Inr (), p\<lparr>p_ctxts := cs\<rparr>))"

section \<open>Handlers\<close>

fun return_handler :: "('g, 'm) env_scheme \<Rightarrow> handlers \<Rightarrow> bytes \<Rightarrow> ('g proc, unit) act" where
  "return_handler env OuterHandlers out =
    upd (\<lambda>p. p\<lparr>p_result := (p_result p)\<lparr>res_er := Returned, res_output := out\<rparr>\<rparr>)"
| "return_handler env (CreateHandlers parent newAcc) out =
    bind (in_parent parent (upd (\<lambda>c. c\<lparr>c_return_data := out\<rparr>))) (\<lambda>_.
    case env_stale env newAcc of
      None \<Rightarrow> raise (UndefinedBehaviour ''dangling reference to a local variable'')
    | Some acc \<Rightarrow>
        bind (in_gs (acc_set_code (env_ops env) acc out)) (\<lambda>_.
        bind (in_gs (acc_get_address (env_ops env) acc)) (\<lambda>addr.
        in_parent parent (s_push addr))))"
| "return_handler env (CallHandlers parent offOut sizeOut) out =
    bind (in_parent parent (upd (\<lambda>c. c\<lparr>c_return_data := out\<rparr>))) (\<lambda>_.
    bind (in_parent parent (on_mem (copy_mem_raw offOut 0 sizeOut out 0))) (\<lambda>_.
    in_parent parent (s_push 1)))"

fun halt_handler :: "handlers \<Rightarrow> ('g proc, unit) act" where
  "halt_handler OuterHandlers = upd (\<lambda>p. p\<lparr>p_result := (p_result p)\<lparr>res_er := Halted\<rparr>\<rparr>)"
| "halt_handler (CreateHandlers parent newAcc) = in_parent parent (s_push 0)"
| "halt_handler (CallHandlers parent offOut sizeOut) = in_parent parent (s_push 1)"

fun exception_handler :: "handlers \<Rightarrow> ex_type \<Rightarrow> string \<Rightarrow> ('g proc, unit) act" where
  "exception_handler OuterHandlers t msg =
    upd (\<lambda>p. p\<lparr>p_result := (p_result p)\<lparr>res_er := Threw, res_ex := t, res_exmsg := c_str msg\<rparr>\<rparr>)"
| "exception_handler (CreateHandlers parent newAcc) t msg = in_parent parent (s_push 0)"
| "exception_handler (CallHandlers parent offOut sizeOut) t msg = in_parent parent (s_push 0)"

section \<open>Opcodes that read the world\<close>

definition op_sload :: "('g, 'm) env_scheme \<Rightarrow> ('g proc, unit) act" where
  "op_sload env =
    bind (in_ctxt s_pop) (\<lambda>k.
    bind ctxt_as (\<lambda>as.
    bind (in_gs (st_load (env_ops env) as k)) (\<lambda>v.
    in_ctxt (s_push v))))"

definition static_violation :: "string \<Rightarrow> exn" where
  "static_violation what =
    Exception StaticModeViolation (''Operation '' @ what @ '' is not allowed in static mode'')"

definition not_static :: "string \<Rightarrow> ('g proc, unit) act" where
  "not_static what =
    bind (in_ctxt (reads c_in_static_mode)) (\<lambda>b. guard (\<not> b) (static_violation what))"

definition op_sstore :: "('g, 'm) env_scheme \<Rightarrow> ('g proc, unit) act" where
  "op_sstore env =
    bind (not_static ''sstore'') (\<lambda>_.
    bind (in_ctxt s_pop) (\<lambda>k.
    bind (in_ctxt s_pop) (\<lambda>v.
    bind ctxt_as (\<lambda>as.
    if v = 0 then bind (in_gs (st_remove (env_ops env) as k)) (\<lambda>_. ret ())
    else in_gs (st_store (env_ops env) as k v)))))"

text \<open>The code of the account whose address is on the stack.\<close>

definition pop_addr_code :: "('g, 'm) env_scheme \<Rightarrow> ('g proc, bytes) act" where
  "pop_addr_code env =
    bind (in_ctxt pop_addr) (\<lambda>addr.
    bind (in_gs (gs_get (env_ops env) addr)) (\<lambda>as.
    in_gs (acc_get_code (env_ops env) as)))"

definition op_extcodesize :: "('g, 'm) env_scheme \<Rightarrow> ('g proc, unit) act" where
  "op_extcodesize env =
    bind (pop_addr_code env) (\<lambda>code. in_ctxt (s_push (word_of_nat (length code))))"

definition op_extcodecopy :: "('g, 'm) env_scheme \<Rightarrow> ('g proc, unit) act" where
  "op_extcodecopy env = bind (pop_addr_code env) (\<lambda>code. in_ctxt (copy_mem code OP_STOP))"

definition op_extcodehash :: "('g, 'm) env_scheme \<Rightarrow> ('g proc, unit) act" where
  "op_extcodehash env =
    bind (pop_addr_code env) (\<lambda>code.
    in_ctxt (bind (of_sum (to_uint256_bytes code True)) s_push))"

definition op_codesize :: "('g, 'm) env_scheme \<Rightarrow> ('g proc, unit) act" where
  "op_codesize env =
    bind ctxt_as (\<lambda>as.
    bind (in_gs (acc_get_code (env_ops env) as)) (\<lambda>code.
    in_ctxt (s_push (word_of_nat (length code)))))"

definition op_address :: "('g, 'm) env_scheme \<Rightarrow> ('g proc, unit) act" where
  "op_address env =
    bind ctxt_as (\<lambda>as.
    bind (in_gs (acc_get_address (env_ops env) as)) (\<lambda>a. in_ctxt (s_push a)))"

definition op_balance :: "('g, 'm) env_scheme \<Rightarrow> ('g proc, unit) act" where
  "op_balance env =
    bind (in_ctxt pop_addr) (\<lambda>addr.
    bind (in_gs (gs_get (env_ops env) addr)) (\<lambda>as.
    bind (in_gs (acc_get_balance (env_ops env) as)) (\<lambda>b. in_ctxt (s_push b))))"

definition op_selfbalance :: "('g, 'm) env_scheme \<Rightarrow> ('g proc, unit) act" where
  "op_selfbalance env =
    bind ctxt_as (\<lambda>as.
    bind (in_gs (acc_get_balance (env_ops env) as)) (\<lambda>b. in_ctxt (s_push b)))"

definition op_origin :: "('g proc, unit) act" where
  "op_origin = bind (reads (tx_origin \<circ> p_tx)) (\<lambda>a. in_ctxt (s_push a))"

definition op_gasprice :: "('g proc, unit) act" where
  "op_gasprice = bind (reads (tx_gas_price \<circ> p_tx)) (\<lambda>v. in_ctxt (s_push (ucast v)))"

definition op_gas :: "('g proc, unit) act" where
  "op_gas = bind (reads (tx_gas_limit \<circ> p_tx)) (\<lambda>v. in_ctxt (s_push (ucast v)))"

definition op_timestamp :: "('g, 'm) env_scheme \<Rightarrow> ('g proc, unit) act" where
  "op_timestamp env = bind (now env) (\<lambda>v. in_ctxt (s_push (ucast v)))"

definition op_blockhash :: "('g, 'm) env_scheme \<Rightarrow> ('g proc, unit) act" where
  "op_blockhash env =
    bind (in_ctxt s_pop64) (\<lambda>i.
    if i \<ge> 256 then in_ctxt (s_push 0)
    else bind (in_gs (gs_get_block_hash (env_ops env) (ucast (i mod 256)))) (\<lambda>h. in_ctxt (s_push h)))"

definition op_log :: "('g, 'm) env_scheme \<Rightarrow> ('g proc, unit) act" where
  "op_log env =
    bind (not_static ''log'') (\<lambda>_.
    bind (in_ctxt get_op) (\<lambda>op.
    let n = op - OP_LOG0
    in bind (in_ctxt s_pop64) (\<lambda>offset.
       bind (in_ctxt s_pop64) (\<lambda>sz.
       bind (in_ctxt (repeat_collect (unat n) s_pop)) (\<lambda>topics.
       bind ctxt_as (\<lambda>as.
       bind (in_gs (acc_get_address (env_ops env) as)) (\<lambda>address.
       bind (in_ctxt (on_mem (copy_from_mem offset sz))) (\<lambda>data.
       upd (\<lambda>p. p\<lparr>p_tx := (p_tx p)\<lparr>tx_log_handler := handle (tx_log_handler (p_tx p))
         \<lparr>log_address = address, log_data = data, log_topics = topics\<rparr>\<rparr>\<rparr>)))))))))"

section \<open>Leaving a context\<close>

definition op_return :: "('g, 'm) env_scheme \<Rightarrow> ('g proc, unit) act" where
  "op_return env =
    bind (in_ctxt s_pop64) (\<lambda>offset.
    bind (in_ctxt s_pop64) (\<lambda>sz.
    bind (in_ctxt (reads c_handlers)) (\<lambda>h.
    bind (in_ctxt (on_mem (copy_from_mem offset sz))) (\<lambda>out.
    bind (return_handler env h out) (\<lambda>_.
    pop_context)))))"

definition op_stop :: "('g proc, unit) act" where
  "op_stop =
    bind (in_ctxt (reads c_handlers)) (\<lambda>h.
    bind pop_context (\<lambda>_.
    halt_handler h))"

definition op_selfdestruct :: "('g, 'm) env_scheme \<Rightarrow> ('g proc, unit) act" where
  "op_selfdestruct env =
    bind (not_static ''selfdestruct'') (\<lambda>_.
    bind (in_ctxt pop_addr) (\<lambda>addr.
    bind (in_gs (gs_get (env_ops env) addr)) (\<lambda>recipient.
    bind ctxt_as (\<lambda>as.
    bind (in_gs (acc_get_balance (env_ops env) as)) (\<lambda>balance.
    bind (in_gs (pay_to (env_ops env) as recipient balance)) (\<lambda>_.
    bind (in_gs (acc_get_address (env_ops env) as)) (\<lambda>address.
    bind (upd (\<lambda>p. p\<lparr>p_tx := (p_tx p)\<lparr>tx_selfdestruct_list :=
        tx_selfdestruct_list (p_tx p) @ [address]\<rparr>\<rparr>)) (\<lambda>_.
    op_stop))))))))"

section \<open>Entering a context\<close>

text \<open>A pointer to the current context, as the handlers of a nested one capture it.\<close>

definition parentContext :: "('g proc, nat) act" where
  "parentContext = reads (\<lambda>p. length (p_ctxts p) - 1)"

definition create_impl :: "('g, 'm) env_scheme \<Rightarrow> ('g proc, unit) act" where
  "create_impl env =
    bind (not_static ''create'') (\<lambda>_.
    bind (in_ctxt get_op) (\<lambda>op.
    bind (guard (op = OP_CREATE \<or> op = OP_CREATE2) (AssertionFailure ''op == CREATE || op == CREATE2'')) (\<lambda>_.
    bind (in_ctxt s_pop) (\<lambda>contractValue.
    bind (in_ctxt s_pop64) (\<lambda>offset.
    bind (in_ctxt s_pop64) (\<lambda>sz.
    bind (in_ctxt (on_mem (copy_from_mem offset sz))) (\<lambda>initCode.
    bind ctxt_as (\<lambda>as.
    bind
      (if op = OP_CREATE then
         bind (in_gs (acc_get_address (env_ops env) as)) (\<lambda>address.
         bind (in_gs (acc_get_nonce (env_ops env) as)) (\<lambda>nonce.
         ret (generate_address address nonce)))
       else
         bind (in_ctxt s_pop) (\<lambda>salt.
         bind (in_gs (acc_get_address (env_ops env) as)) (\<lambda>address.
         bind (junk env) (\<lambda>(j1, j2).
         ret (generate_address_for_create2 j1 j2 address salt initCode))))) (\<lambda>newAddress.
    bind (in_gs (gs_create (env_ops env) newAddress contractValue [])) (\<lambda>newAcc.
    bind (in_gs (pay_to (env_ops env) as newAcc contractValue)) (\<lambda>_.
    bind parentContext (\<lambda>parent.
    bind (in_gs (acc_get_address (env_ops env) as)) (\<lambda>address.
    push_context address newAcc [] (new_Program initCode) 0 (CreateHandlers parent newAcc) False)))))))))))))"

text \<open>
  Entering the callee with the current account as its caller.  The case of \<open>STATICCALL\<close> does
  this and falls through to the case of \<open>CALL\<close>, which does it again.
\<close>

definition enter_callee ::
  "('g, 'm) env_scheme \<Rightarrow> u256 \<Rightarrow> bytes \<Rightarrow> u256 \<Rightarrow> handlers \<Rightarrow> bool \<Rightarrow> ('g proc, unit) act" where
  "enter_callee env callee input value h is_static =
    bind ctxt_as (\<lambda>as.
    bind (in_gs (acc_get_address (env_ops env) as)) (\<lambda>address.
    bind (in_gs (acc_get_code (env_ops env) callee)) (\<lambda>code.
    push_context address callee input (new_Program code) value h is_static)))"

definition op_call :: "('g, 'm) env_scheme \<Rightarrow> ('g proc, unit) act" where
  "op_call env =
    bind (in_ctxt get_op) (\<lambda>op.
    bind (in_ctxt s_pop) (\<lambda>_.
    bind (in_ctxt pop_addr) (\<lambda>addr.
    bind (if op = OP_DELEGATECALL \<or> op = OP_STATICCALL then ret 0 else in_ctxt s_pop64) (\<lambda>value.
    bind (in_ctxt s_pop64) (\<lambda>offIn.
    bind (in_ctxt s_pop64) (\<lambda>sizeIn.
    bind (in_ctxt s_pop64) (\<lambda>offOut.
    bind (in_ctxt s_pop64) (\<lambda>sizeOut.
    if addr \<ge> 1 \<and> addr \<le> 8 then
      raise (Exception NotImplemented ''Precompiled contracts/native extensions are not implemented.'')
    else
      bind (in_gs (gs_get (env_ops env) addr)) (\<lambda>callee.
      bind ctxt_as (\<lambda>as.
      bind (in_gs (pay_to (env_ops env) as callee (ucast value))) (\<lambda>_.
      bind (in_gs (acc_has_code (env_ops env) callee)) (\<lambda>has_code.
      if \<not> has_code then in_ctxt (s_push 1)
      else
        bind (in_ctxt (on_mem (prepare_mem_access offOut sizeOut))) (\<lambda>_.
        bind (in_ctxt (on_mem (copy_from_mem offIn sizeIn))) (\<lambda>input.
        bind parentContext (\<lambda>parent.
        let h = CallHandlers parent offOut sizeOut
        in if op = OP_STATICCALL then
             andthen (enter_callee env callee input (ucast value) h True)
               (enter_callee env callee input (ucast value) h False)
           else if op = OP_CALL then enter_callee env callee input (ucast value) h False
           else if op = OP_CALLCODE then
             bind (in_gs (acc_get_address (env_ops env) as)) (\<lambda>address.
             bind (in_gs (acc_get_code (env_ops env) callee)) (\<lambda>code.
             push_context address as input (new_Program code) (ucast value) h False))
           else if op = OP_DELEGATECALL then
             bind (in_ctxt (reads c_caller)) (\<lambda>caller.
             bind (in_gs (acc_get_code (env_ops env) callee)) (\<lambda>code.
             bind (in_ctxt (reads c_call_value)) (\<lambda>call_value.
             push_context caller as input (new_Program code) call_value h False)))
           else raise (UnexpectedState ''Unknown call opcode.''))))))))))))))))"

section \<open>Dispatch\<close>

text \<open>The cases of the switch, in groups; \<open>None\<close> means that the opcode is not in the group.\<close>

definition dispatch_stack :: "('g, 'm) env_scheme \<Rightarrow> byte \<Rightarrow> ('g proc, unit) act option" where
  "dispatch_stack env op =
    (if OP_PUSH0 \<le> op \<and> op \<le> OP_PUSH32 then Some (in_ctxt op_push)
     else if op = OP_POP then Some (in_ctxt op_pop)
     else if OP_SWAP1 \<le> op \<and> op \<le> OP_SWAP16 then Some (in_ctxt op_swap)
     else if OP_DUP1 \<le> op \<and> op \<le> OP_DUP16 then Some (in_ctxt op_dup)
     else if OP_LOG0 \<le> op \<and> op \<le> OP_LOG4 then Some (op_log env)
     else None)"

definition dispatch_arith :: "byte \<Rightarrow> (Context, unit) act option" where
  "dispatch_arith op =
    (if op = OP_ADD then Some op_add
     else if op = OP_MUL then Some op_mul
     else if op = OP_SUB then Some op_sub
     else if op = OP_DIV then Some op_div
     else if op = OP_SDIV then Some op_sdiv
     else if op = OP_MOD then Some op_mod
     else if op = OP_SMOD then Some op_smod
     else if op = OP_ADDMOD then Some op_addmod
     else if op = OP_MULMOD then Some op_mulmod
     else if op = OP_EXP then Some op_exp
     else if op = OP_SIGNEXTEND then Some op_signextend
     else if op = OP_LT then Some op_lt
     else if op = OP_GT then Some op_gt
     else if op = OP_SLT then Some op_slt
     else if op = OP_SGT then Some op_sgt
     else if op = OP_EQ then Some op_eq
     else if op = OP_ISZERO then Some op_isZero
     else if op = OP_AND then Some op_and
     else if op = OP_OR then Some op_or
     else if op = OP_XOR then Some op_xor
     else if op = OP_NOT then Some op_not
     else if op = OP_BYTE then Some op_byte
     else if op = OP_SHL then Some op_shl
     else if op = OP_SHR then Some op_shr
     else if op = OP_SAR then Some op_sar
     else None)"

definition dispatch_mem :: "('g, 'm) env_scheme \<Rightarrow> byte \<Rightarrow> ('g proc, unit) act option" where
  "dispatch_mem env op =
    (if op = OP_JUMP then Some (in_ctxt op_jump)
     else if op = OP_JUMPI then Some (in_ctxt op_jumpi)
     else if op = OP_PC then Some (in_ctxt op_pc)
     else if op = OP_MSIZE then Some (in_ctxt op_msize)
     else if op = OP_MLOAD then Some (in_ctxt op_mload)
     else if op = OP_MSTORE then Some (in_ctxt op_mstore)
     else if op = OP_MSTORE8 then Some (in_ctxt op_mstore8)
     else if op = OP_CODESIZE then Some (op_codesize env)
     else if op = OP_CODECOPY then Some (in_ctxt op_codecopy)
     else if op = OP_EXTCODESIZE then Some (op_extcodesize env)
     else if op = OP_EXTCODECOPY then Some (op_extcodecopy env)
     else if op = OP_RETURNDATASIZE then Some (in_ctxt op_returndatasize)
     else if op = OP_RETURNDATACOPY then Some (in_ctxt op_returndatacopy)
     else if op = OP_EXTCODEHASH then Some (op_extcodehash env)
     else None)"

definition dispatch_env :: "('g, 'm) env_scheme \<Rightarrow> byte \<Rightarrow> ('g proc, unit) act option" where
  "dispatch_env env op =
    (if op = OP_SLOAD then Some (op_sload env)
     else if op = OP_SSTORE then Some (op_sstore env)
     else if op = OP_ADDRESS then Some (op_address env)
     else if op = OP_BALANCE then Some (op_balance env)
     else if op = OP_ORIGIN then Some op_origin
     else if op = OP_CALLER then Some (in_ctxt op_caller)
     else if op = OP_CALLVALUE then Some (in_ctxt op_callvalue)
     else if op = OP_CALLDATALOAD then Some (in_ctxt op_calldataload)
     else if op = OP_CALLDATASIZE then Some (in_ctxt op_calldatasize)
     else if op = OP_CALLDATACOPY then Some (in_ctxt op_calldatacopy)
     else None)"

definition dispatch_system :: "('g, 'm) env_scheme \<Rightarrow> byte \<Rightarrow> ('g proc, unit) act option" where
  "dispatch_system env op =
    (if op = OP_RETURN then Some (op_return env)
     else if op = OP_SELFDESTRUCT then Some (op_selfdestruct env)
     else if op = OP_CREATE \<or> op = OP_CREATE2 then Some (create_impl env)
     else if op = OP_CALL \<or> op = OP_CALLCODE \<or> op = OP_DELEGATECALL \<or> op = OP_STATICCALL then Some (op_call env)
     else if op = OP_JUMPDEST then Some (in_ctxt op_jumpdest)
     else if op = OP_BLOCKHASH then Some (op_blockhash env)
     else if op = OP_NUMBER then Some (in_ctxt op_number)
     else if op = OP_GASPRICE then Some op_gasprice
     else if op = OP_COINBASE then Some (in_ctxt op_coinbase)
     else if op = OP_TIMESTAMP then Some (op_timestamp env)
     else if op = OP_PREVRANDAO then Some (in_ctxt op_prevrandao)
     else if op = OP_GASLIMIT then Some (in_ctxt op_gaslimit)
     else if op = OP_GAS then Some op_gas
     else if op = OP_CHAINID then Some (in_ctxt op_chanid)
     else if op = OP_SELFBALANCE then Some (op_selfbalance env)
     else if op = OP_BASEFEE then Some (in_ctxt op_basefee)
     else if op = OP_SHA3 then Some (in_ctxt op_sha3)
     else if op = OP_STOP \<or> op = OP_INVALID then Some op_stop
     else if op = OP_REVERT then Some (in_ctxt op_revert)
     else None)"

definition unknown_opcode :: "('g, 'm) env_scheme \<Rightarrow> byte \<Rightarrow> ('g proc, unit) act" where
  "unknown_opcode env op =
    bind ctxt_as (\<lambda>as.
    bind (in_gs (acc_get_address (env_ops env) as)) (\<lambda>address.
    bind (in_ctxt (reads c_caller)) (\<lambda>caller.
    bind (in_ctxt (reads get_pc)) (\<lambda>pc.
    bind (reads get_call_depth) (\<lambda>depth.
    raise (Exception IllegalInstruction
      (''Unknown/unsupported Opcode: 0x'' @ hex_byte op @ [CHR 10] @
       '' in contract '' @ to_checksum_address address @ [CHR 10] @
       '' called by '' @ to_checksum_address caller @ [CHR 10] @
       '' at position '' @ to_string (unat pc) @ '', call-depth '' @ to_string (unat depth) @ [CHR 10])))))))"

definition switch :: "('g, 'm) env_scheme \<Rightarrow> byte \<Rightarrow> ('g proc, unit) act" where
  "switch env op =
    (case dispatch_stack env op of Some m \<Rightarrow> m | None \<Rightarrow>
     case dispatch_arith op of Some m \<Rightarrow> in_ctxt m | None \<Rightarrow>
     case dispatch_mem env op of Some m \<Rightarrow> m | None \<Rightarrow>
     case dispatch_env env op of Some m \<Rightarrow> m | None \<Rightarrow>
     case dispatch_system env op of Some m \<Rightarrow> m | None \<Rightarrow> unknown_opcode env op)"

text \<open>\<open>Trace::add\<close>, when a trace is collected.\<close>

definition trace_add :: "byte \<Rightarrow> ('g proc, unit) act" where
  "trace_add op =
    bind (in_ctxt (reads get_pc)) (\<lambda>pc.
    bind (in_ctxt (reads c_s)) (\<lambda>s.
    upd (\<lambda>p. case p_tr p of None \<Rightarrow> p | Some events \<Rightarrow> p\<lparr>p_tr := Some (events @
      [\<lparr>te_pc = pc, te_op = op, te_call_depth = get_call_depth p, te_s = s\<rparr>])\<rparr>)))"

definition dispatch :: "('g, 'm) env_scheme \<Rightarrow> ('g proc, unit) act" where
  "dispatch env =
    bind (in_ctxt get_op) (\<lambda>op.
    bind (trace_add op) (\<lambda>_.
    switch env op))"

section \<open>The interpreter loop\<close>

definition handle_exception :: "ex_type \<Rightarrow> string \<Rightarrow> ('g proc, unit) act" where
  "handle_exception t msg =
    bind (in_ctxt (reads c_handlers)) (\<lambda>h.
    bind (exception_handler h t msg) (\<lambda>_.
    pop_context))"

definition try_dispatch :: "('g, 'm) env_scheme \<Rightarrow> ('g proc, unit) act" where
  "try_dispatch env = (\<lambda>p. case dispatch env p of
      (Inl (Exception t msg), p') \<Rightarrow> handle_exception t msg p'
    | r \<Rightarrow> r)"

definition step_ctxt :: "'g proc \<Rightarrow> 'g proc" where
  "step_ctxt p = (case p_ctxts p of [] \<Rightarrow> p | c # cs \<Rightarrow> p\<lparr>p_ctxts := step c # cs\<rparr>)"

primrec run_loop :: "('g, 'm) env_scheme \<Rightarrow> nat \<Rightarrow> 'g proc \<Rightarrow> ((exn + unit) \<times> 'g proc) option" where
  "run_loop env 0 p = None"
| "run_loop env (Suc n) p =
    (case p_ctxts p of
      [] \<Rightarrow> Some (Inl (UndefinedBehaviour ''null context''), p)
    | c # cs \<Rightarrow>
        if unat (get_pc c) < length (prog_code (c_prog c)) then
          (case try_dispatch env p of
            (Inl e, p') \<Rightarrow> Some (Inl e, p')
          | (Inr _, p') \<Rightarrow>
              if p_ctxts p' = [] then Some (Inr (), p') else run_loop env n (step_ctxt p'))
        else Some (Inr (), p))"

definition finish :: "('g, 'm) env_scheme \<Rightarrow> ('g proc, ExecResult) act" where
  "finish env =
    bind (\<lambda>p. if p_ctxts p \<noteq> [] then op_stop p else (Inr (), p)) (\<lambda>_.
    bind (reads (tx_selfdestruct_list \<circ> p_tx)) (\<lambda>addrs.
    bind (for_each addrs (\<lambda>addr. in_gs (gs_remove (env_ops env) addr))) (\<lambda>_.
    reads p_result)))"

definition start :: "('g, 'm) env_scheme \<Rightarrow> u256 \<Rightarrow> u256 \<Rightarrow> bytes \<Rightarrow> u256 \<Rightarrow> ('g proc, unit) act" where
  "start env caller callee input call_value =
    bind (in_gs (acc_get_code (env_ops env) callee)) (\<lambda>code.
    push_context caller callee input (new_Program code) call_value OuterHandlers False)"

definition new_proc :: "'g \<Rightarrow> Transaction \<Rightarrow> TraceEvent list option \<Rightarrow> 'g proc" where
  "new_proc gs tx tr =
    \<lparr>p_gs = gs, p_tx = tx, p_tr = tr, p_ctxts = [], p_result = new_ExecResult, p_tick = 0\<rparr>"

definition run ::
  "('g, 'm) env_scheme \<Rightarrow> nat \<Rightarrow> Transaction \<Rightarrow> u256 \<Rightarrow> u256 \<Rightarrow> bytes \<Rightarrow> u256 \<Rightarrow>
    TraceEvent list option \<Rightarrow> 'g \<Rightarrow> ((exn + ExecResult) \<times> 'g proc) option" where
  "run env fuel tx caller callee input call_value tr gs =
    (case start env caller callee input call_value (new_proc gs tx tr) of
      (Inl e, p) \<Rightarrow> Some (Inl e, p)
    | (Inr _, p) \<Rightarrow>
        (case run_loop env fuel p of
          None \<Rightarrow> None
        | Some (Inl e, p) \<Rightarrow> Some (Inl e, p)
        | Some (Inr _, p) \<Rightarrow> Some (finish env p)))"

end
