(* ===== verification/Machine.thy ===== *)
theory Machine
  imports Processor
begin

text \<open>
  The invariant of the processor and its safety, for every implementation of the world.

  The locale \<open>machine\<close> is what the processor relies on: the contract \<open>world\<close> of the virtual
  methods, that creating an account that exists fails an assertion, and that a dangling reference,
  if it denotes an account at all, still denotes the one it was made for.  Inside it, every opcode
  and every handler preserves the invariant and fails only with errors that the code means or with
  one of the known faults; so does the interpreter loop, by induction on its iterations.
\<close>

section \<open>Notions\<close>

text \<open>
  The errors that a run may end with: \<open>known_faults\<close> are the reasons for undefined behaviour that
  the code has; an error is benign when it is none or one of these.
\<close>

definition known_faults :: "string set" where
  "known_faults =
    {''iterator past the end of the output'', ''read past the end of the output'',
     ''dangling reference to a local variable''}"

definition benign :: "exn \<Rightarrow> bool" where
  "benign e \<longleftrightarrow> (\<forall>m. e = UndefinedBehaviour m \<longrightarrow> m \<in> known_faults)"

text \<open>
  An action stays in its context when it changes at most the program counter, the stack, the return
  data and the memory of the context, keeps the memory within its limit and fails benignly.
\<close>

definition same_frame :: "Context \<Rightarrow> Context \<Rightarrow> bool" where
  "same_frame c d \<longleftrightarrow>
    c_as d = c_as c \<and> c_caller d = c_caller c \<and> c_input d = c_input c \<and> c_call_value d = c_call_value c \<and>
    c_prog d = c_prog c \<and> c_handlers d = c_handlers c \<and> c_in_static_mode d = c_in_static_mode c \<and>
    (length (c_mem c) \<le> 2 ^ 25 \<longrightarrow> length (c_mem d) \<le> 2 ^ 25)"

definition local_at :: "Context \<Rightarrow> (Context, 'a) act \<Rightarrow> bool" where
  "local_at c m \<longleftrightarrow> wp m (\<lambda>_. same_frame c) (\<lambda>e d. same_frame c d \<and> benign e) c"

definition local_act :: "(Context, 'a) act \<Rightarrow> bool" where
  "local_act m \<longleftrightarrow> (\<forall>c. local_at c m)"

text \<open>
  The invariant of the processor.  A context at depth \<open>d\<close> has the handlers of the outermost
  context when \<open>d\<close> is zero and otherwise handlers that refer to a context below it; its memory is
  within the limit and its jump destinations are those of its code.  The depth is within the limit,
  and every account that a context refers to exists in the world.
\<close>

fun handlers_ok :: "nat \<Rightarrow> handlers \<Rightarrow> bool" where
  "handlers_ok d OuterHandlers = (d = 0)"
| "handlers_ok d (CreateHandlers k a) = (k < d)"
| "handlers_ok d (CallHandlers k off sz) = (k < d)"

definition ctxt_ok :: "Context \<Rightarrow> bool" where
  "ctxt_ok c \<longleftrightarrow> length (c_mem c) \<le> 2 ^ 25 \<and> c_prog c = new_Program (prog_code (c_prog c))"

primrec ctxts_ok :: "Context list \<Rightarrow> bool" where
  "ctxts_ok [] = True"
| "ctxts_ok (c # cs) = (handlers_ok (length cs) (c_handlers c) \<and> ctxt_ok c \<and> ctxts_ok cs)"

fun created :: "handlers \<Rightarrow> u256 set" where
  "created (CreateHandlers k a) = {a}"
| "created _ = {}"

definition refs :: "Context \<Rightarrow> u256 set" where
  "refs c = insert (c_as c) (created (c_handlers c))"

definition proc_inv :: "('g \<Rightarrow> u256 \<Rightarrow> acct option) \<Rightarrow> 'g proc \<Rightarrow> bool" where
  "proc_inv view p \<longleftrightarrow> ctxts_ok (p_ctxts p) \<and> length (p_ctxts p) \<le> MAX_CALL_DEPTH \<and>
    (\<forall>c \<in> set (p_ctxts p). refs c \<subseteq> dom (view (p_gs p)))"

text \<open>
  \<open>live view A K\<close>: the invariant holds, there is a current context, the accounts \<open>A\<close> exist and
  the positions \<open>K\<close> are those of contexts.  \<open>triple view P m Q\<close>: from a state with \<open>P\<close>, the
  action \<open>m\<close> establishes \<open>Q\<close> or fails benignly in a live state.
\<close>

definition live :: "('g \<Rightarrow> u256 \<Rightarrow> acct option) \<Rightarrow> u256 set \<Rightarrow> nat set \<Rightarrow> 'g proc \<Rightarrow> bool" where
  "live view A K p \<longleftrightarrow> proc_inv view p \<and> p_ctxts p \<noteq> [] \<and> A \<subseteq> dom (view (p_gs p)) \<and>
    (\<forall>k \<in> K. k < length (p_ctxts p))"

definition triple ::
  "('g \<Rightarrow> u256 \<Rightarrow> acct option) \<Rightarrow> ('g proc \<Rightarrow> bool) \<Rightarrow> ('g proc, 'a) act \<Rightarrow> ('a \<Rightarrow> 'g proc \<Rightarrow> bool) \<Rightarrow> bool" where
  "triple view P m Q \<longleftrightarrow> (\<forall>p. P p \<longrightarrow> wp m Q (\<lambda>e p. live view {} {} p \<and> benign e) p)"

definition ready :: "('g \<Rightarrow> u256 \<Rightarrow> acct option) \<Rightarrow> 'g proc \<Rightarrow> bool" where
  "ready view p \<longleftrightarrow> live view {} {} p \<and> pc_valid (hd (p_ctxts p))"

fun parents :: "handlers \<Rightarrow> nat set" where
  "parents OuterHandlers = {}"
| "parents (CreateHandlers k a) = {k}"
| "parents (CallHandlers k off sz) = {k}"

definition gs_step ::
  "('g \<Rightarrow> u256 \<Rightarrow> acct option) \<Rightarrow> ('g, 'a) act \<Rightarrow> u256 set \<Rightarrow> ('a \<Rightarrow> u256 set) \<Rightarrow> bool" where
  "gs_step view m B C \<longleftrightarrow> (\<forall>g. B \<subseteq> dom (view g) \<longrightarrow>
    (case m g of (Inr x, g') \<Rightarrow> dom (view g) \<union> C x \<subseteq> dom (view g') | (Inl e, g') \<Rightarrow> g' = g \<and> benign e))"

text \<open>The states that the interpreter loop goes through.\<close>

inductive iterates :: "('g, 'm) env_scheme \<Rightarrow> 'g proc \<Rightarrow> 'g proc \<Rightarrow> bool" for env where
  iterates_here: "iterates env p p"
| iterates_more: "iterates env p q \<Longrightarrow> p_ctxts q = c # cs \<Longrightarrow> pc_valid c \<Longrightarrow>
    try_dispatch env q = (Inr x, r) \<Longrightarrow> p_ctxts r \<noteq> [] \<Longrightarrow> iterates env p (step_ctxt r)"

named_theorems local_rules \<open>actions that stay in their context\<close>

named_theorems triple_rules \<open>triples of the actions of the processor\<close>

lemma benign_simps [simp]:
  "benign (Exception t m)" "benign (UnexpectedState m)" "benign (StdException s m)" "benign (AssertionFailure m)"
  "benign (UndefinedBehaviour m) \<longleftrightarrow> m \<in> known_faults"
  by (simp_all add: benign_def)

section \<open>Actions that stay in their context\<close>

lemma same_frame_refl [simp]: "same_frame c c"
  by (simp add: same_frame_def)

lemma same_frame_trans: "same_frame c d \<Longrightarrow> same_frame d e \<Longrightarrow> same_frame c e"
  by (auto simp: same_frame_def)

lemma local_atD: "local_act m \<Longrightarrow> local_at c m"
  by (simp add: local_act_def)

lemma local_bind [local_rules]:
  assumes "local_act m" and "\<And>x. local_act (k x)"
  shows "local_act (bind m k)"
  unfolding local_act_def local_at_def wp_bind
proof (intro allI)
  fix c
  show "wp m (\<lambda>x. wp (k x) (\<lambda>_. same_frame c) (\<lambda>e d. same_frame c d \<and> benign e)) (\<lambda>e d. same_frame c d \<and> benign e) c"
  proof (rule wp_mono [OF local_atD [OF assms(1), unfolded local_at_def]])
    fix x d assume cd: "same_frame c d"
    show "wp (k x) (\<lambda>_. same_frame c) (\<lambda>e d. same_frame c d \<and> benign e) d"
      by (rule wp_mono [OF local_atD [OF assms(2), unfolded local_at_def]])
        (use same_frame_trans [OF cd] in auto)
  qed simp
qed

lemma local_andthen [local_rules]: "local_act m \<Longrightarrow> local_act k \<Longrightarrow> local_act (andthen m k)"
  by (simp add: andthen_def local_bind)

lemma local_ret [local_rules]: "local_act (ret x)"
  by (simp add: local_act_def local_at_def)

lemma local_reads [local_rules]: "local_act (reads f)"
  by (simp add: local_act_def local_at_def)

lemma local_raise [local_rules]: "benign e \<Longrightarrow> local_act (raise e)"
  by (simp add: local_act_def local_at_def)

lemma local_if [local_rules]:
  "(b \<Longrightarrow> local_act m) \<Longrightarrow> (\<not> b \<Longrightarrow> local_act n) \<Longrightarrow> local_act (if b then m else n)"
  by simp

lemma local_of_sum [local_rules]: "(\<And>e. r = Inl e \<Longrightarrow> benign e) \<Longrightarrow> local_act (of_sum r)"
  by (cases r) (simp_all add: of_sum_def local_ret local_raise)

lemma local_on_stack:
  assumes "\<And>s e. fst (m s) = Inl e \<Longrightarrow> benign e"
  shows "local_act (on_stack m)"
  using assms
  by (auto simp: local_act_def local_at_def wp_def on_stack_def zoom_run same_frame_def
      split: prod.splits sum.splits) (metis fst_conv)+

lemma local_on_mem:
  assumes "\<And>s e. fst (m s) = Inl e \<Longrightarrow> benign e"
    and "\<And>s. length s \<le> 2 ^ 25 \<Longrightarrow> length (snd (m s)) \<le> 2 ^ 25"
  shows "local_act (on_mem m)"
  using assms
  by (auto simp: local_act_def local_at_def wp_def on_mem_def zoom_run same_frame_def
      split: prod.splits sum.splits) (metis fst_conv snd_conv)+

lemma local_set_pc [local_rules]: "local_act (upd (set_pc pc))"
  by (simp add: local_act_def local_at_def same_frame_def set_pc_def)

lemma local_return_data [local_rules]: "local_act (upd (\<lambda>c. c\<lparr>c_return_data := out\<rparr>))"
  by (simp add: local_act_def local_at_def same_frame_def)

text \<open>Errors of the stack and the memory.\<close>

lemma stack_benign:
  "fst (stack_pop s) = Inl e \<Longrightarrow> benign e"
  "fst (stack_pop64 s) = Inl e \<Longrightarrow> benign e"
  "fst (stack_push v s) = Inl e \<Longrightarrow> benign e"
  "fst (stack_swap i s) = Inl e \<Longrightarrow> benign e"
  "fst (stack_dup i s) = Inl e \<Longrightarrow> benign e"
proof -
  show "fst (stack_pop s) = Inl e \<Longrightarrow> benign e" by (cases s) auto
  show "fst (stack_pop64 s) = Inl e \<Longrightarrow> benign e" by (cases s) (auto simp: stack_pop64_Cons split: if_splits)
qed (auto simp: stack_push_def stack_swap_total stack_dup_total split: if_splits)

lemma prepare_benign: "fst (prepare_mem_access off sz s) = Inl e \<Longrightarrow> benign e"
  by (auto simp: prepare_mem_access_def mem_limit_def Let_def split: if_splits)

lemma copy_from_mem_benign: "fst (copy_from_mem off sz s) = Inl e \<Longrightarrow> benign e"
  using prepare_benign [of off sz s e]
  by (auto simp: copy_from_mem_total andthen_run split: prod.splits sum.splits)

lemma copy_from_mem_bounded: "length m \<le> 2 ^ 25 \<Longrightarrow> length (snd (copy_from_mem off sz m)) \<le> 2 ^ 25"
  using prepare_mem_bounded [of m off sz]
  by (auto simp: copy_from_mem_total andthen_run split: prod.splits sum.splits)

lemma copy_mem_raw_benign: "fst (copy_mem_raw a b sz src pad s) = Inl e \<Longrightarrow> benign e"
  by (auto simp: copy_mem_raw_total mem_limit_def Let_def split: if_splits)

lemma length_write_at_le: "length (write_at off bs dst) \<le> max (length dst) (off + length bs)"
  by (simp add: write_at_def)

lemma copy_mem_raw_bounded:
  assumes "length dst \<le> 2 ^ 25"
  shows "length (snd (copy_mem_raw offDst offSrc sz src pad dst)) \<le> 2 ^ 25"
proof (cases "sz \<noteq> 0 \<and> unat offDst + unat sz \<le> 2 ^ 25")
  case True
  define n where "n = unat offDst + unat sz"
  have u: "unat (offDst + sz) = n" using True by (simp add: n_def unat_add_lem [THEN iffD1])
  have nl: "\<not> offDst + sz < offDst" using u by (simp add: word_less_nat_alt n_def)
  have n: "n \<le> 2 ^ 25" using True by (simp add: n_def)
  define g where "g = (if n > length dst then resize n dst else dst)"
  have g: "length g \<le> 2 ^ 25" using assms n by (simp add: g_def)
  let ?stop = "min (offSrc + sz) (word_of_nat (length src))"
  show ?thesis
  proof (cases "offSrc < ?stop")
    case False
    have "snd (copy_mem_raw offDst offSrc sz src pad dst) = write_at (n - unat sz) (replicate (unat sz) pad) g"
      using True nl u n False by (simp add: copy_mem_raw_total MAX_MEM_SIZE_def Let_def g_def del: min_less_iff_conj)
    moreover have "n - unat sz + unat sz \<le> 2 ^ 25" using n by (simp add: n_def)
    ultimately show ?thesis
      using length_write_at_le [of "n - unat sz" "replicate (unat sz) pad" g] g by simp
  next
    case more: True
    then have "offSrc \<le> offSrc + sz" by (simp add: less_imp_le)
    then have us: "unat (offSrc + sz) = unat offSrc + unat sz"
      by (simp add: no_olen_add_nat unat_add_lem [THEN iffD1])
    have e: "unat ?stop \<le> unat offSrc + unat sz" unfolding us [symmetric] by (simp only: word_le_nat_alt [symmetric]) simp
    have oe: "unat offSrc < unat ?stop" using more by (simp only: word_less_nat_alt)
    have rem: "unat (offSrc + sz - ?stop) = unat offSrc + unat sz - unat ?stop"
      unfolding us [symmetric] by (rule unat_sub) simp
    define seg where "seg = segment (unat offSrc) (unat ?stop - unat offSrc) src"
    define r where "r = unat (offSrc + sz - ?stop)"
    have seg: "length seg \<le> unat sz" unfolding seg_def length_segment using e by simp
    have r: "r \<le> unat sz" unfolding r_def rem using oe by simp
    have "snd (copy_mem_raw offDst offSrc sz src pad dst) = write_at (n - r) (replicate r pad) (write_at (unat offDst) seg g)"
      using True nl u n more by (simp add: copy_mem_raw_total MAX_MEM_SIZE_def Let_def g_def seg_def r_def del: min_less_iff_conj)
    moreover have "unat offDst + length seg \<le> 2 ^ 25" using seg n by (simp add: n_def)
    moreover have "n - r + r \<le> 2 ^ 25" using r n by (simp add: n_def)
    ultimately show ?thesis
      using length_write_at_le [of "n - r" "replicate r pad" "write_at (unat offDst) seg g"]
        length_write_at_le [of "unat offDst" seg g] g by simp
  qed
next
  case False
  then show ?thesis
    using copy_mem_raw_fails [of sz offDst offSrc src pad dst] assms by (auto simp: copy_mem_raw_total)
qed

lemma local_pops [local_rules]:
  "local_act s_pop" "local_act s_pop64" "local_act (s_push v)"
  "local_act (on_stack (stack_swap i))" "local_act (on_stack (stack_dup i))"
  by (rule local_on_stack, erule stack_benign)+

lemma local_mems [local_rules]:
  "local_act (on_mem (prepare_mem_access off sz))"
  "local_act (on_mem (copy_from_mem off sz))"
  "local_act (on_mem (copy_mem_raw a b sz src pad))"
  by (rule local_on_mem, erule prepare_benign copy_from_mem_benign copy_mem_raw_benign,
      erule prepare_mem_bounded copy_from_mem_bounded copy_mem_raw_bounded)+

lemma local_pop_addr [local_rules]: "local_act pop_addr"
  unfolding pop_addr_def by (intro local_rules)

lemma local_copy_mem [local_rules]: "local_act (copy_mem src pad)"
  unfolding copy_mem_def by (intro local_rules)

lemma local_jump_to [local_rules]: "local_act (jump_to d)"
  unfolding jump_to_def by (intro local_rules) simp

lemma local_safeAdd [local_rules]: "local_act (safeAdd x y)"
  unfolding safeAdd_def Let_def by (intro local_rules) simp

lemma on_mem_bind: "bind (on_mem a) (\<lambda>x. on_mem (b x)) = on_mem (bind a b)"
  by (auto simp: on_mem_def bind_def zoom_def fun_eq_iff split: prod.splits sum.splits)

lemma local_write [local_rules]:
  assumes "length bs \<le> unat sz"
  shows "local_act (bind (on_mem (prepare_mem_access off sz)) (\<lambda>_. on_mem (upd (write_at (unat off) bs))))"
  unfolding on_mem_bind
proof (rule local_on_mem)
  let ?m = "bind (prepare_mem_access off sz) (\<lambda>_. upd (write_at (unat off) bs))"
  show "benign e" if "fst (?m s) = Inl e" for s e
    using that prepare_benign [of off sz s e] by (auto simp: bind_run split: prod.splits sum.splits)
  show "length (snd (?m s)) \<le> 2 ^ 25" if "length s \<le> 2 ^ 25" for s
  proof (cases "unat off + unat sz \<le> 2 ^ 25")
    case True
    then show ?thesis
      using prepare_mem_ok [of off sz s] that assms length_write_at_le [of "unat off" bs]
      by (simp add: bind_run)
  next
    case False
    then show ?thesis using prepare_mem_fails [of off sz s] that by (auto simp: bind_run)
  qed
qed

lemma local_mstore [local_rules]: "local_act op_mstore"
  unfolding op_mstore_total by (rule local_bind, rule local_pops, rule local_bind, rule local_pops, rule local_write)
    (simp add: WORD_SIZE_def)

lemma local_mstore8 [local_rules]: "local_act op_mstore8"
  unfolding op_mstore8_total by (rule local_bind, rule local_pops, rule local_bind, rule local_pops, rule local_write) simp

lemma calldataload_benign: "calldataload_loop input offset i v = Inl e \<Longrightarrow> benign e"
  using calldataload_in_input [of input offset i v] by auto

lemma local_repeat [local_rules]: "local_act m \<Longrightarrow> local_act (repeat_collect n m)"
  by (induction n) (auto intro!: local_rules)

lemma parse_revert_benign: "parse_revert out = Inl e \<Longrightarrow> benign e"
  by (auto simp: parse_revert_def Let_def known_faults_def split: if_splits)

lemma to_uint256_bytes_benign: "to_uint256_bytes d b = Inl e \<Longrightarrow> benign e"
  by (auto simp: to_uint256_bytes_def from_big_endian_def Let_def split: if_splits)

lemma from_big_endian_benign: "from_big_endian d = Inl e \<Longrightarrow> benign e"
  by (auto simp: from_big_endian_def Let_def split: if_splits)

lemmas op_defs =
  op_add_def op_sub_def op_mul_def op_div_def op_sdiv_def op_mod_def op_smod_def op_addmod_def
  op_mulmod_def op_exp_def op_signextend_def op_lt_def op_gt_def op_slt_def op_sgt_def op_eq_def
  op_isZero_def op_and_def op_or_def op_xor_def op_not_def op_byte_def op_shl_def op_shr_def
  op_sar_def op_jump_def op_jumpi_def op_jumpdest_def op_pc_def op_msize_def op_mload_total
  op_codecopy_def op_returndatasize_def op_returndatacopy_def op_sha3_total
  op_calldataload_def op_calldatasize_def op_calldatacopy_def op_caller_def op_callvalue_def
  op_number_def op_coinbase_def op_prevrandao_def op_gaslimit_def op_chanid_def op_basefee_def
  op_revert_def op_pop_def

lemma local_binop [local_rules]: "local_act (binop f)" "local_act (unop g)" "local_act (terop h)"
  unfolding binop_def unop_def terop_def by (intro local_rules)+

lemma dispatch_arith_local: "dispatch_arith op = Some m \<Longrightarrow> local_act m"
  by (auto simp: dispatch_arith_def op_defs Let_def intro!: local_rules split: if_splits)

lemma local_ops [local_rules]:
  "local_act op_pop" "local_act op_jump" "local_act op_jumpi" "local_act op_jumpdest" "local_act op_pc"
  "local_act op_msize" "local_act op_mload" "local_act op_codecopy"
  "local_act op_returndatasize" "local_act op_returndatacopy" "local_act op_sha3" "local_act op_calldataload"
  "local_act op_calldatasize" "local_act op_calldatacopy" "local_act op_caller" "local_act op_callvalue"
  "local_act op_number" "local_act op_coinbase" "local_act op_prevrandao" "local_act op_gaslimit"
  "local_act op_chanid" "local_act op_basefee" "local_act op_revert"
  by (auto simp: op_defs comp_def intro!: local_rules dest: parse_revert_benign to_uint256_bytes_benign from_big_endian_benign
    calldataload_benign)

section \<open>Triples\<close>

lemma tripleD: "triple view P m Q \<Longrightarrow> P p \<Longrightarrow> wp m Q (\<lambda>e p. live view {} {} p \<and> benign e) p"
  by (simp add: triple_def)

lemma live_weaken: "live view A K p \<Longrightarrow> B \<subseteq> A \<Longrightarrow> L \<subseteq> K \<Longrightarrow> live view B L p"
  by (auto simp: live_def)

lemma live_inv: "live view A K p \<Longrightarrow> proc_inv view p"
  by (simp add: live_def)

lemma triple_bind [triple_rules]:
  assumes "triple view P m Q" and "\<And>x. triple view (Q x) (k x) R"
  shows "triple view P (bind m k) R"
  unfolding triple_def wp_bind
proof (intro allI impI)
  fix p assume "P p"
  show "wp m (\<lambda>x. wp (k x) R (\<lambda>e p. live view {} {} p \<and> benign e)) (\<lambda>e p. live view {} {} p \<and> benign e) p"
    by (rule wp_mono [OF tripleD [OF assms(1) \<open>P p\<close>]]) (use tripleD [OF assms(2)] in auto)
qed

lemma triple_andthen: "triple view P m (\<lambda>_. Q) \<Longrightarrow> triple view Q k R \<Longrightarrow> triple view P (andthen m k) R"
  unfolding andthen_def by (rule triple_bind)

lemma triple_post:
  assumes "triple view P m Q" and "\<And>x p. Q x p \<Longrightarrow> R x p"
  shows "triple view P m R"
  unfolding triple_def
proof (intro allI impI)
  fix p assume "P p"
  show "wp m R (\<lambda>e p. live view {} {} p \<and> benign e) p"
    by (rule wp_mono [OF tripleD [OF assms(1) \<open>P p\<close>]]) (use assms(2) in auto)
qed

lemma triple_pre: "triple view P m Q \<Longrightarrow> (\<And>p. R p \<Longrightarrow> P p) \<Longrightarrow> triple view R m Q"
  by (auto simp: triple_def)

lemma triple_ret [triple_rules]: "triple view P (ret x) (\<lambda>_. P)"
  by (simp add: triple_def)

lemma triple_reads [triple_rules]: "triple view P (reads f) (\<lambda>_. P)"
  by (simp add: triple_def)

lemma triple_raise [triple_rules]: "benign e \<Longrightarrow> triple view (live view A K) (raise e) Q"
  using live_weaken by (fastforce simp: triple_def)

lemma triple_guard [triple_rules]: "benign e \<Longrightarrow> triple view (live view A K) (guard b e) (\<lambda>_. live view A K)"
  using live_weaken by (fastforce simp: triple_def)

lemma triple_if [triple_rules]:
  "(b \<Longrightarrow> triple view P m Q) \<Longrightarrow> (\<not> b \<Longrightarrow> triple view P n Q) \<Longrightarrow> triple view P (if b then m else n) Q"
  by simp

lemma local_run:
  assumes "local_at c m" and "m c = (r, d)"
  shows "same_frame c d" and "r = Inl e \<Longrightarrow> benign e"
  using assms by (auto simp: local_at_def wp_def split: sum.splits)

lemma ctxt_ok_frame: "same_frame c d \<Longrightarrow> ctxt_ok c \<Longrightarrow> ctxt_ok d"
  by (simp add: same_frame_def ctxt_ok_def)

lemma refs_frame: "same_frame c d \<Longrightarrow> refs d = refs c"
  by (simp add: same_frame_def refs_def)

lemma inv_head:
  assumes "proc_inv view p" and "p_ctxts p = c # cs" and "same_frame c d"
  shows "proc_inv view (p\<lparr>p_ctxts := d # cs\<rparr>)"
  using assms ctxt_ok_frame [OF assms(3)] refs_frame [OF assms(3)]
  by (auto simp: proc_inv_def same_frame_def)

lemma ctxts_ok_update:
  "ctxts_ok cs \<Longrightarrow> i < length cs \<Longrightarrow> same_frame (cs ! i) d \<Longrightarrow> ctxts_ok (cs[i := d])"
proof (induction cs arbitrary: i)
  case (Cons c cs)
  then show ?case
    using ctxt_ok_frame by (cases i) (auto simp: same_frame_def)
qed simp

lemma inv_update:
  assumes "proc_inv view p" and "i < length (p_ctxts p)" and "same_frame (p_ctxts p ! i) d"
  shows "proc_inv view (p\<lparr>p_ctxts := (p_ctxts p)[i := d]\<rparr>)"
proof -
  have "refs d = refs (p_ctxts p ! i)" by (rule refs_frame [OF assms(3)])
  then have "\<forall>c \<in> set ((p_ctxts p)[i := d]). refs c \<subseteq> dom (view (p_gs p))"
    using assms(1,2) set_update_subset_insert [of "p_ctxts p" i d] by (auto simp: proc_inv_def dest!: subsetD)
  then show ?thesis using assms ctxts_ok_update by (simp add: proc_inv_def)
qed

lemma triple_in_ctxt [triple_rules]:
  assumes "local_act m"
  shows "triple view (live view A K) (in_ctxt m) (\<lambda>_. live view A K)"
  unfolding triple_def
proof (intro allI impI)
  fix p assume p: "live view A K p"
  then obtain c cs where c: "p_ctxts p = c # cs" by (auto simp: live_def neq_Nil_conv)
  obtain r d where r: "m c = (r, d)" by (cases "m c")
  have f: "same_frame c d" "\<And>e. r = Inl e \<Longrightarrow> benign e" using local_run [OF local_atD [OF assms] r] by auto
  have "live view A K (p\<lparr>p_ctxts := d # cs\<rparr>)"
    using p inv_head [OF live_inv [OF p] c f(1)] c by (simp add: live_def)
  then show "wp (in_ctxt m) (\<lambda>_. live view A K) (\<lambda>e p. live view {} {} p \<and> benign e) p"
    using c r f(2) live_weaken by (fastforce simp: wp_def in_ctxt_def split: sum.splits)
qed

lemma triple_in_parent [triple_rules]:
  assumes "local_act m" and "k \<in> K"
  shows "triple view (live view A K) (in_parent k m) (\<lambda>_. live view A K)"
  unfolding triple_def
proof (intro allI impI)
  fix p assume p: "live view A K p"
  then have k: "k < length (p_ctxts p)" using assms(2) by (simp add: live_def)
  let ?i = "length (p_ctxts p) - 1 - k"
  obtain r d where r: "m (p_ctxts p ! ?i) = (r, d)" by (cases "m (p_ctxts p ! ?i)")
  have f: "same_frame (p_ctxts p ! ?i) d" "\<And>e. r = Inl e \<Longrightarrow> benign e"
    using local_run [OF local_atD [OF assms(1)] r] by auto
  have "live view A K (p\<lparr>p_ctxts := (p_ctxts p)[?i := d]\<rparr>)"
    using p inv_update [OF live_inv [OF p] _ f(1)] k by (simp add: live_def)
  then show "wp (in_parent k m) (\<lambda>_. live view A K) (\<lambda>e p. live view {} {} p \<and> benign e) p"
    using k r f(2) live_weaken by (fastforce simp: wp_def in_parent_def Let_def split: sum.splits)
qed

lemma triple_ctxt_as [triple_rules]:
  "triple view (live view A K) ctxt_as (\<lambda>as. live view (insert as A) K)"
  by (auto simp: triple_def wp_def ctxt_as_def in_ctxt_def live_def proc_inv_def refs_def split: list.splits)

lemma triple_parentContext [triple_rules]:
  "triple view (live view A K) parentContext (\<lambda>k. live view A (insert k K))"
  by (auto simp: triple_def wp_def parentContext_def live_def)

lemma triple_upd [triple_rules]:
  assumes "\<And>p. p_ctxts (f p) = p_ctxts p" and "\<And>p. p_gs (f p) = p_gs p"
  shows "triple view (live view A K) (upd f) (\<lambda>_. live view A K)"
  using assms by (simp add: triple_def live_def proc_inv_def)

lemma triple_env [triple_rules]:
  "triple view (live view A K) (now env) (\<lambda>_. live view A K)"
  "triple view (live view A K) (junk env) (\<lambda>_. live view A K)"
  by (simp_all add: triple_def wp_def now_def junk_def live_def proc_inv_def)

lemma triple_push_context [triple_rules]:
  assumes "as \<in> A" and "created h \<subseteq> A" and "h = OuterHandlers \<Longrightarrow> False"
    and "\<And>k a. h = CreateHandlers k a \<Longrightarrow> k \<in> K" and "\<And>k off sz. h = CallHandlers k off sz \<Longrightarrow> k \<in> K"
  shows "triple view (live view A K) (push_context caller as input (new_Program code) v h b) (\<lambda>_. live view A K)"
proof -
  have h: "handlers_ok (length (p_ctxts p)) h" if "live view A K p" for p
    using that assms by (cases h) (auto simp: live_def)
  have "live view A K (p\<lparr>p_ctxts := new_Context caller as input v (new_Program code) h b # p_ctxts p\<rparr>)"
    if p: "live view A K p" and d: "length (p_ctxts p) < MAX_CALL_DEPTH" for p
    using p d h [OF p] assms(1,2)
    by (auto simp: live_def proc_inv_def ctxt_ok_def new_Context_def new_Program_def refs_def)
  moreover have "unat (get_call_depth p) = length (p_ctxts p)" if "live view A K p" for p
    using that by (auto simp: live_def proc_inv_def get_call_depth_def MAX_CALL_DEPTH_def unsigned_of_nat take_bit_nat_eq_self)
  ultimately show ?thesis
    using live_weaken by (fastforce simp: triple_def push_context_def not_le)
qed

section \<open>The world keeps its accounts\<close>

lemma gs_stepI:
  assumes "\<And>g. B \<subseteq> dom (view g) \<Longrightarrow>
    (\<exists>x g'. m g = (Inr x, g') \<and> dom (view g) \<subseteq> dom (view g') \<and> C x \<subseteq> dom (view g')) \<or>
    (\<exists>e. m g = (Inl e, g) \<and> benign e)"
  shows "gs_step view m B C"
  unfolding gs_step_def
proof (intro allI impI)
  fix g assume "B \<subseteq> dom (view g)"
  from assms [OF this] show "case m g of (Inr x, g') \<Rightarrow> dom (view g) \<union> C x \<subseteq> dom (view g')
      | (Inl e, g') \<Rightarrow> g' = g \<and> benign e"
    by (elim disjE exE conjE) simp_all
qed

lemma gs_stepD:
  assumes "gs_step view m B C" and "B \<subseteq> dom (view g)"
  shows "m g = (Inr x, g') \<Longrightarrow> dom (view g) \<subseteq> dom (view g') \<and> C x \<subseteq> dom (view g')"
    and "m g = (Inl e, g') \<Longrightarrow> g' = g \<and> benign e"
proof -
  have "case m g of (Inr x, g') \<Rightarrow> dom (view g) \<union> C x \<subseteq> dom (view g') | (Inl e, g') \<Rightarrow> g' = g \<and> benign e"
    by (rule mp [OF spec [OF assms(1) [unfolded gs_step_def], of g] assms(2)])
  then show "m g = (Inr x, g') \<Longrightarrow> dom (view g) \<subseteq> dom (view g') \<and> C x \<subseteq> dom (view g')"
    and "m g = (Inl e, g') \<Longrightarrow> g' = g \<and> benign e"
    by simp_all
qed

lemma inv_grow:
  assumes "proc_inv view p" and "dom (view (p_gs p)) \<subseteq> dom (view g)"
  shows "proc_inv view (p\<lparr>p_gs := g\<rparr>)"
  using assms(1) subset_trans [OF _ assms(2)] by (simp add: proc_inv_def)

lemma triple_gs:
  assumes "gs_step view m B C" and "B \<subseteq> A"
  shows "triple view (live view A K) (in_gs m) (\<lambda>x. live view (C x \<union> A) K)"
  unfolding triple_def
proof (intro allI impI)
  fix p assume p: "live view A K p"
  then have B: "B \<subseteq> dom (view (p_gs p))" using assms(2) by (auto simp: live_def)
  show "wp (in_gs m) (\<lambda>x. live view (C x \<union> A) K) (\<lambda>e p. live view {} {} p \<and> benign e) p"
  proof (cases "m (p_gs p)")
    case (Pair r g)
    show ?thesis
    proof (cases r)
      case (Inl e)
      then have "g = p_gs p" "benign e" using gs_stepD(2) [OF assms(1) B] Pair by auto
      then show ?thesis using p Pair Inl live_weaken [OF p]
        by (simp add: wp_def in_gs_def zoom_run)
    next
      case (Inr x)
      then have g: "dom (view (p_gs p)) \<subseteq> dom (view g)" "C x \<subseteq> dom (view g)"
        using gs_stepD(1) [OF assms(1) B] Pair by auto
      have "A \<subseteq> dom (view (p_gs p))" using p by (simp add: live_def)
      then have "A \<subseteq> dom (view g)" using g(1) by (rule subset_trans)
      then have "live view (C x \<union> A) K (p\<lparr>p_gs := g\<rparr>)"
        using p g inv_grow [OF live_inv [OF p] g(1)] by (simp add: live_def)
      then show ?thesis using Pair Inr by (simp add: wp_def in_gs_def zoom_run)
    qed
  qed
qed

lemma triple_gs0: "gs_step view m B (\<lambda>_. {}) \<Longrightarrow> B \<subseteq> A \<Longrightarrow>
    triple view (live view A K) (in_gs m) (\<lambda>_. live view A K)"
  using triple_gs [of view m B "\<lambda>_. {}" A K] by simp

lemma triple_gs1: "gs_step view m B (\<lambda>x. {x}) \<Longrightarrow> B \<subseteq> A \<Longrightarrow>
    triple view (live view A K) (in_gs m) (\<lambda>x. live view (insert x A) K)"
  using triple_gs [of view m B "\<lambda>x. {x}" A K] by simp

lemma gs_step_reads:
  assumes "\<And>g v. view g a = Some v \<Longrightarrow> \<exists>x. m g = (Inr x, g)"
  shows "gs_step view m {a} (\<lambda>_. {})"
proof (rule gs_stepI)
  fix g assume "{a} \<subseteq> dom (view g)"
  then obtain v where "view g a = Some v" by auto
  from assms [OF this] show "(\<exists>x g'. m g = (Inr x, g') \<and> dom (view g) \<subseteq> dom (view g') \<and> {} \<subseteq> dom (view g')) \<or>
    (\<exists>e. m g = (Inl e, g) \<and> benign e)" by auto
qed

lemma gs_step_writes:
  assumes "\<And>g v. view g a = Some v \<Longrightarrow> \<exists>x g' w. m g = (Inr x, g') \<and> view g' = (view g)(a \<mapsto> w)"
  shows "gs_step view m {a} (\<lambda>_. {})"
proof (rule gs_stepI)
  fix g assume "{a} \<subseteq> dom (view g)"
  then obtain v where "view g a = Some v" by auto
  from assms [OF this] obtain x g' w where "m g = (Inr x, g')" "view g' = (view g)(a \<mapsto> w)" by blast
  then show "(\<exists>x g'. m g = (Inr x, g') \<and> dom (view g) \<subseteq> dom (view g') \<and> {} \<subseteq> dom (view g')) \<or>
    (\<exists>e. m g = (Inl e, g) \<and> benign e)" by auto
qed

context world
begin

lemma gs_step_get: "gs_step view (gs_get ops a) {} (\<lambda>x. {x})"
proof (rule gs_stepI)
  fix g
  show "(\<exists>x g'. gs_get ops a g = (Inr x, g') \<and> dom (view g) \<subseteq> dom (view g') \<and> {x} \<subseteq> dom (view g')) \<or>
    (\<exists>e. gs_get ops a g = (Inl e, g) \<and> benign e)"
  proof (cases "view g a")
    case None
    then obtain g' where "gs_get ops a g = (Inr a, g')" "view g' = (view g)(a \<mapsto> fresh_acct a 0 [])"
      using get_new by blast
    then show ?thesis by auto
  next
    case (Some v)
    then show ?thesis using get_old by auto
  qed
qed

lemma gs_step_block_hash: "gs_step view (gs_get_block_hash ops off) {} (\<lambda>_. {})"
proof (rule gs_stepI)
  fix g
  obtain h where "gs_get_block_hash ops off g = (Inr h, g)" using block_hash by blast
  then show "(\<exists>x g'. gs_get_block_hash ops off g = (Inr x, g') \<and> dom (view g) \<subseteq> dom (view g') \<and> {} \<subseteq> dom (view g')) \<or>
    (\<exists>e. gs_get_block_hash ops off g = (Inl e, g) \<and> benign e)" by auto
qed

lemma gs_steps:
  "gs_step view (acc_get_address ops a) {a} (\<lambda>_. {})"
  "gs_step view (acc_get_balance ops a) {a} (\<lambda>_. {})"
  "gs_step view (acc_get_nonce ops a) {a} (\<lambda>_. {})"
  "gs_step view (acc_get_code ops a) {a} (\<lambda>_. {})"
  "gs_step view (acc_has_code ops a) {a} (\<lambda>_. {})"
  "gs_step view (st_load ops a k) {a} (\<lambda>_. {})"
  by (rule gs_step_reads, simp add: get_address get_balance get_nonce get_code has_code load)+

lemma gs_steps_writes:
  "gs_step view (acc_set_code ops a cd) {a} (\<lambda>_. {})"
  "gs_step view (st_store ops a k x) {a} (\<lambda>_. {})"
  "gs_step view (st_remove ops a k) {a} (\<lambda>_. {})"
proof -
  show "gs_step view (acc_set_code ops a cd) {a} (\<lambda>_. {})"
    by (rule gs_step_writes) (drule set_code [of _ _ _ cd], blast)
  show "gs_step view (st_store ops a k x) {a} (\<lambda>_. {})"
    by (rule gs_step_writes) (drule store [of _ _ _ k x], blast)
  show "gs_step view (st_remove ops a k) {a} (\<lambda>_. {})"
    by (rule gs_step_writes) (drule st_remove [of _ _ _ k], blast)
qed

lemma gs_step_pay_to: "gs_step view (pay_to ops a b x) {a, b} (\<lambda>_. {})"
proof (rule gs_stepI)
  fix g assume "{a, b} \<subseteq> dom (view g)"
  then obtain v w where v: "view g a = Some v" and w: "view g b = Some w" by blast
  consider "a_balance v < x" | "x \<le> a_balance v" "a_balance w + x < a_balance w"
    | "x \<le> a_balance v" "a_balance w \<le> a_balance w + x" by (meson not_less)
  then show "(\<exists>y g'. pay_to ops a b x g = (Inr y, g') \<and> dom (view g) \<subseteq> dom (view g') \<and> {} \<subseteq> dom (view g')) \<or>
    (\<exists>e. pay_to ops a b x g = (Inl e, g) \<and> benign e)"
  proof cases
    case 1
    then show ?thesis using pay_to_poor [OF v w] by (simp add: insufficient_funds_def)
  next
    case 2
    then show ?thesis using pay_to_overflow [OF v w] by (simp add: pay_overflow_def)
  next
    case 3
    show ?thesis
    proof (cases "a = b")
      case True
      then obtain g' where "pay_to ops a b x g = (Inr (), g')" "view g' = (view g)(a \<mapsto> v\<lparr>a_balance := a_balance v + x\<rparr>)"
        using pay_to_self [OF v 3(1)] 3(2) v w by auto
      then show ?thesis by auto
    next
      case False
      then obtain g' where "pay_to ops a b x g = (Inr (), g')"
        "view g' = (view g)(a \<mapsto> v\<lparr>a_balance := a_balance v - x\<rparr>, b \<mapsto> w\<lparr>a_balance := a_balance w + x\<rparr>)"
        using pay_to_ok [OF v w] 3 by blast
      then show ?thesis by auto
    qed
  qed
qed

end

lemma triple_inv:
  assumes "triple view P m (\<lambda>_. live view A K)" shows "triple view P m (\<lambda>_. proc_inv view)"
  by (rule triple_post [OF assms]) (rule live_inv)

lemma triple_weaken:
  assumes "triple view P m (\<lambda>_. live view A K)" and "B \<subseteq> A" and "L \<subseteq> K"
  shows "triple view P m (\<lambda>_. live view B L)"
  by (rule triple_post [OF assms(1)]) (rule live_weaken [OF _ assms(2,3)])

lemma triple_case_prod [triple_rules]:
  "(\<And>a b. triple view P (f a b) Q) \<Longrightarrow> triple view P (case x of (a, b) \<Rightarrow> f a b) Q"
  by (cases x) simp

lemma triple_not_static [triple_rules]:
  "triple view (live view A K) (not_static what) (\<lambda>_. live view A K)"
  unfolding not_static_def static_violation_def
  by (rule triple_rules local_rules | simp)+

lemma ready_live: "ready view p \<Longrightarrow> live view {} {} p"
  by (simp add: ready_def)

lemma proc_same_ctxts: "p_ctxts p = cs \<Longrightarrow> p\<lparr>p_ctxts := cs\<rparr> = p"
  by auto

lemma ready_get_op: "triple view (ready view) (in_ctxt get_op) (\<lambda>_. ready view)"
  by (auto simp: triple_def ready_def live_def wp_def in_ctxt_def get_op_def proc_same_ctxts split: list.splits)

lemma ready_not_static: "triple view (ready view) (not_static what) (\<lambda>_. ready view)"
  by (auto simp: triple_def ready_def live_def wp_def in_ctxt_def not_static_def static_violation_def
      bind_run proc_same_ctxts split: list.splits)

lemma triple_ready: "triple view (live view {} {}) m Q \<Longrightarrow> triple view (ready view) m Q"
  by (erule triple_pre) (rule ready_live)

text \<open>A local action that starts by reading the opcode.\<close>

lemma ready_in_ctxt:
  assumes "\<And>op. local_act (k op)"
  shows "triple view (ready view) (in_ctxt (bind get_op k)) (\<lambda>_. live view {} {})"
  unfolding triple_def
proof (intro allI impI)
  fix p assume p: "ready view p"
  then obtain c cs where c: "p_ctxts p = c # cs" "pc_valid c" by (auto simp: ready_def live_def neq_Nil_conv)
  then have "in_ctxt (bind get_op k) p = in_ctxt (k (prog_code (c_prog c) ! unat (c_pc c))) p"
    by (simp add: in_ctxt_def bind_run get_op_def get_pc_def)
  then have "wp (in_ctxt (bind get_op k)) Q X p = wp (in_ctxt (k (prog_code (c_prog c) ! unat (c_pc c)))) Q X p" for Q X
    by (simp add: wp_def)
  then show "wp (in_ctxt (bind get_op k)) (\<lambda>_. live view {} {}) (\<lambda>e p. live view {} {} p \<and> benign e) p"
    using tripleD [OF triple_in_ctxt [OF assms] ready_live [OF p]] by simp
qed

lemma ready_ops:
  "triple view (ready view) (in_ctxt op_swap) (\<lambda>_. live view {} {})"
  "triple view (ready view) (in_ctxt op_dup) (\<lambda>_. live view {} {})"
  "triple view (ready view) (in_ctxt op_push) (\<lambda>_. live view {} {})"
  unfolding op_swap_def op_dup_def op_push_total Let_def
  by (rule ready_in_ctxt; (rule local_rules | simp)+)+

locale machine =
  fixes env :: "'g env"
    and view :: "'g \<Rightarrow> u256 \<Rightarrow> acct option"
  assumes world: "world (env_ops env) view"
    and create_old: "view g a = Some v \<Longrightarrow> \<exists>m. gs_create (env_ops env) a b c g = (Inl (AssertionFailure m), g)"
    and stale: "env_stale env a = Some b \<Longrightarrow> b = a"
begin

lemma triple_create [triple_rules]:
  "triple view (live view A K) (in_gs (gs_create (env_ops env) a b c)) (\<lambda>r. live view (insert r A) K)"
proof (rule triple_gs1)
  show "gs_step view (gs_create (env_ops env) a b c) {} (\<lambda>x. {x})"
  proof (rule gs_stepI)
    fix g
    show "(\<exists>x g'. gs_create (env_ops env) a b c g = (Inr x, g') \<and> dom (view g) \<subseteq> dom (view g') \<and> {x} \<subseteq> dom (view g')) \<or>
        (\<exists>e. gs_create (env_ops env) a b c g = (Inl e, g) \<and> benign e)"
    proof (cases "view g a")
      case None
      then obtain g' where "gs_create (env_ops env) a b c g = (Inr a, g')" "view g' = (view g)(a \<mapsto> fresh_acct a b c)"
        using world.create_new [OF world] by blast
      then show ?thesis by auto
    next
      case (Some v)
      then show ?thesis using create_old [OF Some, of b c] by auto
    qed
  qed
qed simp

lemma triple_get [triple_rules]:
  "triple view (live view A K) (in_gs (gs_get (env_ops env) a)) (\<lambda>r. live view (insert r A) K)"
  by (rule triple_gs1 [OF world.gs_step_get [OF world]]) simp

lemma triple_block_hash [triple_rules]:
  "triple view (live view A K) (in_gs (gs_get_block_hash (env_ops env) off)) (\<lambda>_. live view A K)"
  by (rule triple_gs0 [OF world.gs_step_block_hash [OF world]]) simp

lemma triple_accounts [triple_rules]:
  assumes "a \<in> A"
  shows "triple view (live view A K) (in_gs (acc_get_address (env_ops env) a)) (\<lambda>_. live view A K)"
    and "triple view (live view A K) (in_gs (acc_get_balance (env_ops env) a)) (\<lambda>_. live view A K)"
    and "triple view (live view A K) (in_gs (acc_get_nonce (env_ops env) a)) (\<lambda>_. live view A K)"
    and "triple view (live view A K) (in_gs (acc_get_code (env_ops env) a)) (\<lambda>_. live view A K)"
    and "triple view (live view A K) (in_gs (acc_has_code (env_ops env) a)) (\<lambda>_. live view A K)"
    and "triple view (live view A K) (in_gs (st_load (env_ops env) a k)) (\<lambda>_. live view A K)"
    and "triple view (live view A K) (in_gs (acc_set_code (env_ops env) a cd)) (\<lambda>_. live view A K)"
    and "triple view (live view A K) (in_gs (st_store (env_ops env) a k x)) (\<lambda>_. live view A K)"
    and "triple view (live view A K) (in_gs (st_remove (env_ops env) a k)) (\<lambda>_. live view A K)"
  using assms
  by (intro triple_gs0 [OF world.gs_steps(1) [OF world]] triple_gs0 [OF world.gs_steps(2) [OF world]]
      triple_gs0 [OF world.gs_steps(3) [OF world]] triple_gs0 [OF world.gs_steps(4) [OF world]]
      triple_gs0 [OF world.gs_steps(5) [OF world]] triple_gs0 [OF world.gs_steps(6) [OF world]]
      triple_gs0 [OF world.gs_steps_writes(1) [OF world]] triple_gs0 [OF world.gs_steps_writes(2) [OF world]]
      triple_gs0 [OF world.gs_steps_writes(3) [OF world]]; simp)+

lemma triple_pay [triple_rules]:
  "a \<in> A \<Longrightarrow> b \<in> A \<Longrightarrow>
    triple view (live view A K) (in_gs (pay_to (env_ops env) a b x)) (\<lambda>_. live view A K)"
  by (rule triple_gs0 [OF world.gs_step_pay_to [OF world]]) simp

lemma triple_pop_addr_code [triple_rules]:
  "triple view (live view A K) (pop_addr_code env) (\<lambda>_. live view A K)"
  unfolding pop_addr_code_def
  by (rule triple_bind, rule triple_in_ctxt, rule local_pop_addr, rule triple_bind, rule triple_get,
      rule triple_weaken, rule triple_accounts) auto

lemma reading_ops [triple_rules]:
  "triple view (live view A K) (op_sload env) (\<lambda>_. proc_inv view)"
  "triple view (live view A K) (op_sstore env) (\<lambda>_. proc_inv view)"
  "triple view (live view A K) (op_extcodesize env) (\<lambda>_. proc_inv view)"
  "triple view (live view A K) (op_extcodecopy env) (\<lambda>_. proc_inv view)"
  "triple view (live view A K) (op_extcodehash env) (\<lambda>_. proc_inv view)"
  "triple view (live view A K) (op_codesize env) (\<lambda>_. proc_inv view)"
  "triple view (live view A K) (op_address env) (\<lambda>_. proc_inv view)"
  "triple view (live view A K) (op_balance env) (\<lambda>_. proc_inv view)"
  "triple view (live view A K) (op_selfbalance env) (\<lambda>_. proc_inv view)"
  "triple view (live view A K) op_origin (\<lambda>_. proc_inv view)"
  "triple view (live view A K) op_gasprice (\<lambda>_. proc_inv view)"
  "triple view (live view A K) op_gas (\<lambda>_. proc_inv view)"
  "triple view (live view A K) (op_timestamp env) (\<lambda>_. proc_inv view)"
  "triple view (live view A K) (op_blockhash env) (\<lambda>_. proc_inv view)"
  unfolding op_sload_def op_sstore_def op_extcodesize_def op_extcodecopy_def op_extcodehash_def
    op_codesize_def op_address_def op_balance_def op_selfbalance_def op_origin_def op_gasprice_def op_gas_def
    op_timestamp_def op_blockhash_def
  by ((rule triple_rules local_rules | rule triple_inv | simp | erule to_uint256_bytes_benign)+)
end

section \<open>Handlers\<close>

lemma triple_handlers:
  "triple view (live view A K) (in_ctxt (reads c_handlers)) (\<lambda>h. live view (created h \<union> A) (parents h \<union> K))"
proof -
  have "k < Suc d" if "handlers_ok d h" "k \<in> parents h" for d h k
    using that by (cases h) auto
  then show ?thesis
    by (fastforce simp: triple_def wp_def in_ctxt_def live_def proc_inv_def refs_def split: list.splits)
qed

lemma triple_pop_context: "triple view (live view A K) pop_context (\<lambda>_. proc_inv view)"
  by (auto simp: triple_def wp_def pop_context_def live_def proc_inv_def split: list.splits)

lemma triple_exception_handler:
  assumes "parents h \<subseteq> K"
  shows "triple view (live view A K) (exception_handler h t msg) (\<lambda>_. live view A K)"
  using assms by (cases h) (simp_all, (rule triple_rules local_rules | simp)+)

lemma triple_handle_exception:
  "triple view (live view A K) (handle_exception t msg) (\<lambda>_. proc_inv view)"
  unfolding handle_exception_def
  by (rule triple_bind, rule triple_handlers, rule triple_bind, rule triple_exception_handler, simp,
      rule triple_pop_context)

text \<open>Halting pops the context first, so its handler runs among the enclosing contexts.\<close>

lemma triple_op_stop: "triple view (live view A K) op_stop (\<lambda>_. proc_inv view)"
  unfolding triple_def
proof (intro allI impI)
  fix p assume p: "live view A K p"
  then obtain c cs where c: "p_ctxts p = c # cs" by (auto simp: live_def neq_Nil_conv)
  let ?q = "p\<lparr>p_ctxts := cs\<rparr>"
  have inv: "proc_inv view ?q" and h: "handlers_ok (length cs) (c_handlers c)"
    using p c by (auto simp: live_def proc_inv_def)
  have run: "op_stop p = halt_handler (c_handlers c) ?q"
    using c by (simp add: op_stop_def bind_run in_ctxt_def pop_context_def)
  show "wp op_stop (\<lambda>_. proc_inv view) (\<lambda>e p. live view {} {} p \<and> benign e) p"
  proof (cases "c_handlers c")
    case OuterHandlers
    then show ?thesis using inv run by (simp add: wp_def proc_inv_def)
  next
    case (CreateHandlers k a)
    then have "live view {} {k} ?q" using h inv by (auto simp: live_def)
    from tripleD [OF triple_inv [OF triple_in_parent [OF local_pops(3)]] this, of k 0] show ?thesis
      using run CreateHandlers by (simp add: wp_def)
  next
    case (CallHandlers k off sz)
    then have "live view {} {k} ?q" using h inv by (auto simp: live_def)
    from tripleD [OF triple_inv [OF triple_in_parent [OF local_pops(3)]] this, of k 1] show ?thesis
      using run CallHandlers by (simp add: wp_def)
  qed
qed

context machine
begin

lemma triple_return_handler:
  assumes "parents h \<subseteq> K" and "created h \<subseteq> A"
  shows "triple view (live view A K) (return_handler env h out) (\<lambda>_. live view A K)"
proof (cases h)
  case (CreateHandlers k a)
  have "triple view (live view A K)
      (case env_stale env a of None \<Rightarrow> raise (UndefinedBehaviour ''dangling reference to a local variable'')
       | Some acc \<Rightarrow> bind (in_gs (acc_set_code (env_ops env) acc out)) (\<lambda>_.
           bind (in_gs (acc_get_address (env_ops env) acc)) (\<lambda>addr. in_parent k (s_push addr))))
      (\<lambda>_. live view A K)"
  proof (cases "env_stale env a")
    case None
    then show ?thesis by (simp add: triple_raise known_faults_def)
  next
    case (Some acc)
    then have "acc \<in> A" using stale assms(2) CreateHandlers by auto
    then show ?thesis using Some assms(1) CreateHandlers
      by simp ((rule triple_rules local_rules | simp)+)
  qed
  then show ?thesis
    using CreateHandlers assms(1) by simp ((rule triple_bind triple_in_parent local_rules | simp)+)
next
  case (CallHandlers k off sz)
  then show ?thesis using assms(1) by simp ((rule triple_rules local_rules | simp)+)
qed (simp, (rule triple_rules | simp)+)

lemma triple_op_return: "triple view (live view A K) (op_return env) (\<lambda>_. proc_inv view)"
  unfolding op_return_def
  by (rule triple_bind, rule triple_in_ctxt, rule local_pops,
      rule triple_bind, rule triple_in_ctxt, rule local_pops,
      rule triple_bind, rule triple_handlers,
      rule triple_bind, rule triple_in_ctxt, rule local_mems,
      rule triple_bind, rule triple_return_handler, simp, simp, rule triple_pop_context)

lemma triple_selfdestruct: "triple view (live view A K) (op_selfdestruct env) (\<lambda>_. proc_inv view)"
  unfolding op_selfdestruct_def
  by (rule triple_op_stop triple_rules local_rules | simp)+

lemma ready_log: "triple view (ready view) (op_log env) (\<lambda>_. proc_inv view)"
  unfolding op_log_def Let_def
  by (rule triple_bind, rule ready_not_static, rule triple_bind, rule ready_get_op, rule triple_ready,
      (rule triple_rules local_rules | rule triple_inv | simp)+)

lemma ready_create: "triple view (ready view) (create_impl env) (\<lambda>_. proc_inv view)"
  unfolding create_impl_def
  by (rule triple_bind, rule ready_not_static, rule triple_bind, rule ready_get_op, rule triple_ready,
      (rule triple_rules local_rules | rule triple_inv | simp)+)

lemma triple_enter_callee [triple_rules]:
  assumes "callee \<in> A" and "k \<in> K"
  shows "triple view (live view A K) (enter_callee env callee input v (CallHandlers k off sz) b) (\<lambda>_. live view A K)"
  unfolding enter_callee_def
  by (rule triple_bind, rule triple_ctxt_as, rule triple_weaken, (rule triple_rules | simp add: assms)+) auto

lemma ready_call: "triple view (ready view) (op_call env) (\<lambda>_. proc_inv view)"
  unfolding op_call_def Let_def
  apply (rule triple_bind, rule ready_get_op, rule triple_ready)
  apply (rule triple_rules triple_andthen local_rules | rule triple_inv | simp)+
  done

end

lemma ready_trace: "triple view (ready view) (trace_add op) (\<lambda>_. ready view)"
  by (auto simp: triple_def ready_def live_def proc_inv_def wp_def in_ctxt_def trace_add_def bind_run proc_same_ctxts
      split: list.splits option.splits)

lemma step_frame: "same_frame c (Contexts.step c)"
  by (simp add: Contexts.step_def same_frame_def)

lemma step_ctxt_inv: "proc_inv view p \<Longrightarrow> proc_inv view (step_ctxt p)"
  using inv_head [OF _ _ step_frame] by (auto simp: step_ctxt_def split: list.splits)

lemma step_ctxt_empty: "p_ctxts (step_ctxt p) = [] \<longleftrightarrow> p_ctxts p = []"
  by (auto simp: step_ctxt_def split: list.splits)

lemma triple_in_ctxt_inv: "local_act m \<Longrightarrow> triple view (live view A K) (in_ctxt m) (\<lambda>_. proc_inv view)"
  by (rule triple_inv, rule triple_in_ctxt)

context machine
begin

lemma triple_unknown: "triple view (live view A K) (unknown_opcode env op) (\<lambda>_. proc_inv view)"
  unfolding unknown_opcode_def by (rule triple_rules local_rules | simp)+

lemma ready_dispatch_stack:
  "dispatch_stack env op = Some m \<Longrightarrow> triple view (ready view) m (\<lambda>_. proc_inv view)"
  using triple_ready [OF triple_in_ctxt_inv [OF local_ops(1)]] triple_inv [OF ready_ops(1)] triple_inv [OF ready_ops(2)] triple_inv [OF ready_ops(3)] ready_log
  by (auto simp: dispatch_stack_def split: if_splits)

lemma dispatch_mem_ok:
  "dispatch_mem env op = Some m \<Longrightarrow> triple view (live view {} {}) m (\<lambda>_. proc_inv view)"
  by (auto simp: dispatch_mem_def intro!: triple_in_ctxt_inv local_ops local_mstore local_mstore8 reading_ops split: if_splits)

lemma dispatch_env_ok:
  "dispatch_env env op = Some m \<Longrightarrow> triple view (live view {} {}) m (\<lambda>_. proc_inv view)"
  by (auto simp: dispatch_env_def intro!: triple_in_ctxt_inv local_ops reading_ops split: if_splits)

lemma dispatch_system_ok:
  "dispatch_system env op = Some m \<Longrightarrow> triple view (ready view) m (\<lambda>_. proc_inv view)"
  by (auto simp: dispatch_system_def split: if_splits
      intro!: ready_create ready_call triple_ready [OF triple_op_return] triple_ready [OF triple_selfdestruct]
        triple_ready [OF triple_in_ctxt_inv] triple_ready [OF reading_ops(14)] triple_ready [OF reading_ops(11)]
        triple_ready [OF reading_ops(13)] triple_ready [OF reading_ops(12)] triple_ready [OF reading_ops(9)]
        triple_ready [OF triple_op_stop] local_ops)

lemma ready_switch: "triple view (ready view) (switch env op) (\<lambda>_. proc_inv view)"
  using ready_dispatch_stack triple_ready [OF triple_in_ctxt_inv [OF dispatch_arith_local]]
    triple_ready [OF dispatch_mem_ok] triple_ready [OF dispatch_env_ok] dispatch_system_ok
    triple_ready [OF triple_unknown]
  by (auto simp: switch_def split: option.splits)

lemma ready_dispatch: "triple view (ready view) (dispatch env) (\<lambda>_. proc_inv view)"
  unfolding dispatch_def by (rule triple_bind, rule ready_get_op, rule triple_bind, rule ready_trace, rule ready_switch)

lemma try_dispatch_ok: "triple view (ready view) (try_dispatch env) (\<lambda>_. proc_inv view)"
  unfolding triple_def
proof (intro allI impI)
  fix p assume p: "ready view p"
  obtain r q where d: "dispatch env p = (r, q)" by (cases "dispatch env p")
  show "wp (try_dispatch env) (\<lambda>_. proc_inv view) (\<lambda>e p. live view {} {} p \<and> benign e) p"
  proof (cases "\<exists>t msg. r = Inl (Exception t msg)")
    case True
    then obtain t msg where r: "r = Inl (Exception t msg)" by blast
    have "live view {} {} q" using tripleD [OF ready_dispatch p] d r by (simp add: wp_def)
    from tripleD [OF triple_handle_exception this, of t msg] show ?thesis
      using d r by (simp add: wp_def try_dispatch_def)
  next
    case False
    then have "try_dispatch env p = (r, q)" using d by (auto simp: try_dispatch_def split: sum.splits exn.splits)
    then show ?thesis using tripleD [OF ready_dispatch p] d by (simp add: wp_def)
  qed
qed

lemma try_dispatch_run:
  assumes "proc_inv view p" and "p_ctxts p = c # cs" and "pc_valid c" and "try_dispatch env p = (r, q)"
  shows "proc_inv view q" and "r = Inl e \<Longrightarrow> benign e"
proof -
  have "ready view p" using assms(1-3) by (simp add: ready_def live_def)
  from tripleD [OF try_dispatch_ok this] assms(4)
  show "proc_inv view q" and "r = Inl e \<Longrightarrow> benign e"
    by (auto simp: wp_def dest: live_inv split: sum.splits)
qed

lemma iterates_inv: "iterates env p q \<Longrightarrow> proc_inv view p \<Longrightarrow> proc_inv view q"
  by (induction rule: iterates.induct) (auto intro: step_ctxt_inv try_dispatch_run(1))

lemma run_loop_inv:
  "run_loop env n p = Some (r, q) \<Longrightarrow> proc_inv view p \<Longrightarrow> p_ctxts p \<noteq> [] \<Longrightarrow>
    proc_inv view q \<and> (\<forall>e. r = Inl e \<longrightarrow> benign e)"
proof (induction n arbitrary: p)
  case (Suc n)
  from Suc.prems(3) obtain c cs where c: "p_ctxts p = c # cs" by (auto simp: neq_Nil_conv)
  show ?case
  proof (cases "pc_valid c")
    case False
    then show ?thesis using Suc.prems c by (auto simp: pc_valid_def get_pc_def)
  next
    case True
    obtain s p' where t: "try_dispatch env p = (s, p')" by (cases "try_dispatch env p")
    note p' = try_dispatch_run [OF Suc.prems(2) c True t]
    show ?thesis
    proof (cases s)
      case (Inl e)
      then show ?thesis using Suc.prems(1) c True t p' by (auto simp: pc_valid_def get_pc_def)
    next
      case (Inr u)
      then show ?thesis
        using Suc.prems(1) c True t p' Suc.IH [of "step_ctxt p'"] step_ctxt_inv [of view p'] step_ctxt_empty [of p']
        by (auto simp: pc_valid_def get_pc_def split: if_splits)
    qed
  qed
qed simp

lemma finish_benign:
  assumes "proc_inv view p" and "finish env p = (Inl e, q)"
  shows "benign e"
proof -
  let ?stop = "\<lambda>p. if p_ctxts p \<noteq> [] then op_stop p else (Inr (), p)"
  have rem: "\<exists>q. for_each addrs (\<lambda>addr. in_gs (gs_remove (env_ops env) addr)) p = (Inr (), q)" for addrs and p :: "'g proc"
  proof (induction addrs arbitrary: p)
    case (Cons a addrs)
    obtain g where "gs_remove (env_ops env) a (p_gs p) = (Inr (), g)" using world.remove [OF world] by blast
    then show ?case using Cons [of "p\<lparr>p_gs := g\<rparr>"] by (simp add: andthen_run in_gs_def zoom_run)
  qed simp
  obtain r p' where s: "?stop p = (r, p')" by (cases "?stop p")
  show ?thesis
  proof (cases r)
    case (Inl d)
    then have "live view {} {} p" using s assms(1) by (auto simp: live_def split: if_splits)
    from tripleD [OF triple_op_stop this] show ?thesis
      using s Inl assms(2) by (auto simp: finish_def bind_run wp_def split: if_splits)
  next
    case (Inr u)
    obtain q' where "for_each (tx_selfdestruct_list (p_tx p')) (\<lambda>addr. in_gs (gs_remove (env_ops env) addr)) p' = (Inr (), q')"
      using rem by blast
    then show ?thesis using s Inr assms(2) by (simp add: finish_def bind_run)
  qed
qed

lemma start_inv:
  assumes "callee \<in> dom (view gs)"
  shows "\<exists>p. start env caller callee input v (new_proc gs tx tr) = (Inr (), p) \<and> proc_inv view p \<and>
    length (p_ctxts p) = 1"
proof -
  from assms obtain a where "view gs callee = Some a" by blast
  then have "acc_get_code (env_ops env) callee gs = (Inr (a_code a), gs)" by (rule world.get_code [OF world])
  then show ?thesis using assms
    by (simp add: start_def new_proc_def bind_run in_gs_def zoom_run push_context_def get_call_depth_def
        MAX_CALL_DEPTH_def proc_inv_def ctxt_ok_def new_Context_def new_Program_def refs_def)
qed

lemma run_benign:
  assumes "callee \<in> dom (view gs)" and "run env n tx caller callee input v tr gs = Some (Inl e, q)"
  shows "benign e"
proof -
  obtain p where p: "start env caller callee input v (new_proc gs tx tr) = (Inr (), p)" "proc_inv view p"
    "p_ctxts p \<noteq> []" using start_inv [OF assms(1)] by fastforce
  then obtain s p' where l: "run_loop env n p = Some (s, p')"
    using assms(2) by (cases "run_loop env n p") (auto simp: run_def)
  note i = run_loop_inv [OF l p(2,3)]
  show ?thesis
  proof (cases s)
    case (Inl d)
    then show ?thesis using assms(2) p(1) l i by (simp add: run_def)
  next
    case (Inr u)
    then show ?thesis using assms(2) p(1) l i finish_benign [of p' e q] by (simp add: run_def)
  qed
qed
end

end
