(* ===== verification/Runs.thy ===== *)
theory Runs
  imports Machine SimpleState
begin

text \<open>
  Runs of the processor: the processor on the in-memory world, and what its instructions do to the
  stack of contexts.

  The locale \<open>machine\<close> is interpreted on \<open>simple_env\<close>, the environment whose world is
  \<open>SimpleGlobalState\<close>; the invariant and the absence of other undefined behaviour follow.
  The evaluation rules (\<open>dispatch_run\<close>, \<open>run_loop_go\<close>, \<open>run_loop_stop\<close>,
  \<open>in_parent_upd\<close> and others) execute one instruction of a known context.  The properties on
  nested contexts say what the caller of a context sees when it returns, throws or is entered.
\<close>

section \<open>The processor on the in-memory world\<close>

definition simple_env :: "(nat \<Rightarrow> u64) \<Rightarrow> (nat \<Rightarrow> bytes \<times> bytes) \<Rightarrow> (u256 \<Rightarrow> bool) \<Rightarrow> SimpleGlobalState env" where
  "simple_env clock jnk dangling =
    \<lparr>env_ops = simple_ops, env_clock = clock, env_junk = jnk,
     env_stale = (\<lambda>a. if dangling a then None else Some a)\<rparr>"

section \<open>Notions\<close>

text \<open>The processor after \<open>trace_add\<close>.\<close>

definition traced :: "Context \<Rightarrow> byte \<Rightarrow> 'g proc \<Rightarrow> 'g proc" where
  "traced c op p = (case p_tr p of None \<Rightarrow> p | Some events \<Rightarrow> p\<lparr>p_tr := Some (events @
    [\<lparr>te_pc = c_pc c, te_op = op, te_call_depth = get_call_depth p, te_s = c_s c\<rparr>])\<rparr>)"

section \<open>Examples\<close>

definition example_world :: "bytes \<Rightarrow> SimpleGlobalState" where
  "example_world code = \<lparr>currentBlock = example_block,
    accounts = [1 \<mapsto> (new_SimpleAccount 1 10 code, Map.empty)]\<rparr>"

definition example_tx :: Transaction where
  "example_tx = \<lparr>tx_origin = 7, tx_value = 0, tx_gas_price = 0, tx_gas_limit = 0,
    tx_log_handler = NullLogHandler, tx_selfdestruct_list = []\<rparr>"

definition example_env :: "SimpleGlobalState env" where
  "example_env = simple_env (\<lambda>_. 0) (\<lambda>_. ([], [])) (\<lambda>_. False)"

text \<open>A called context above the context that called it.\<close>

definition example_nested :: "bytes \<Rightarrow> stack \<Rightarrow> bool \<Rightarrow> SimpleGlobalState proc" where
  "example_nested code st static = (new_proc (example_world code) example_tx None)\<lparr>p_ctxts :=
    [(new_Context 1 1 [] 0 (new_Program code) (CallHandlers 0 2 3) static)\<lparr>c_s := st, c_mem := [9, 8, 7]\<rparr>,
     new_Context 7 1 [] 0 (new_Program code) OuterHandlers False]\<rparr>"

definition example_staticcall :: "SimpleGlobalState proc" where
  "example_staticcall = (new_proc \<lparr>currentBlock = example_block,
      accounts = [1 \<mapsto> (new_SimpleAccount 1 10 [], Map.empty), 20 \<mapsto> (new_SimpleAccount 20 0 [OP_STOP], Map.empty)]\<rparr>
      example_tx None)\<lparr>p_ctxts :=
    [(new_Context 7 1 [] 0 (new_Program [OP_STATICCALL]) OuterHandlers False)\<lparr>c_s := [0, 20, 0, 0, 0, 0]\<rparr>]\<rparr>"

section \<open>The contract of the processor\<close>

lemma env_ops_simple [simp]: "env_ops (simple_env clock jnk dangling) = simple_ops"
  by (simp add: simple_env_def)

interpretation sm: machine "simple_env clock jnk dangling" simple_view for clock jnk dangling
proof (rule machine.intro)
  show "world (env_ops (simple_env clock jnk dangling)) simple_view" by (simp add: simple.world_axioms)
  show "\<exists>m. gs_create (env_ops (simple_env clock jnk dangling)) a b c g = (Inl (AssertionFailure m), g)"
    if "simple_view g a = Some v" for g a v b c
    using that by (elim simple_view_Some) (simp add: simple_ops_def sgs_create_def sgs_insert_def new_SimpleAccount_def andthen_run)
  show "b = a" if "env_stale (simple_env clock jnk dangling) a = Some b" for a b
    using that by (simp add: simple_env_def split: if_splits)
qed

lemma dom_simple_view: "a \<in> dom (simple_view g) \<longleftrightarrow> sgs_exists a g"
  by (auto simp: simple_view_def sgs_exists_def)

section \<open>Evaluation\<close>

declare compute_jump_dests.simps [simp del] run_loop.simps(2) [simp del]

lemma traced_simps [simp]:
  "p_ctxts (traced c op p) = p_ctxts p" "p_gs (traced c op p) = p_gs p" "p_tx (traced c op p) = p_tx p"
  "p_result (traced c op p) = p_result p" "p_tick (traced c op p) = p_tick p"
  by (simp_all add: traced_def split: option.splits)

lemma in_ctxt_run: "p_ctxts p = c # cs \<Longrightarrow> m c = (r, c') \<Longrightarrow> in_ctxt m p = (r, p\<lparr>p_ctxts := c' # cs\<rparr>)"
  by (simp add: in_ctxt_def)

lemma in_gs_run: "m (p_gs p) = (r, g) \<Longrightarrow> in_gs m p = (r, p\<lparr>p_gs := g\<rparr>)"
  by (simp add: in_gs_def zoom_run)

lemma dispatch_run:
  assumes "p_ctxts p = c # cs" and "pc_valid c" and "prog_code (c_prog c) ! unat (c_pc c) = op"
  shows "dispatch env p = switch env op (traced c op p)"
proof -
  have p: "p\<lparr>p_ctxts := c # cs\<rparr> = p" using assms(1) by (cases p) simp
  show ?thesis using assms
    by (simp add: p dispatch_def bind_run in_ctxt_def get_op_def get_pc_def trace_add_def traced_def)
qed

lemma try_dispatch_inr: "dispatch env p = (Inr (), q) \<Longrightarrow> try_dispatch env p = (Inr (), q)"
  by (simp add: try_dispatch_def)

lemma try_dispatch_fault:
  "dispatch env p = (Inl (UndefinedBehaviour m), q) \<Longrightarrow> try_dispatch env p = (Inl (UndefinedBehaviour m), q)"
  by (simp add: try_dispatch_def)

lemma run_loop_go:
  assumes "p_ctxts p = c # cs" and "pc_valid c" and "try_dispatch env p = (Inr (), q)" and "p_ctxts q \<noteq> []"
  shows "run_loop env (Suc n) p = run_loop env n (step_ctxt q)"
  using assms by (simp add: pc_valid_def get_pc_def run_loop.simps(2))

lemma run_loop_stop:
  assumes "p_ctxts p = c # cs" and "pc_valid c" and "try_dispatch env p = (Inr (), q)" and "p_ctxts q = []"
  shows "run_loop env (Suc n) p = Some (Inr (), q)"
  using assms by (simp add: pc_valid_def get_pc_def run_loop.simps(2))

lemma run_loop_fail:
  assumes "p_ctxts p = c # cs" and "pc_valid c" and "try_dispatch env p = (Inl e, q)"
  shows "run_loop env (Suc n) p = Some (Inl e, q)"
  using assms by (simp add: pc_valid_def get_pc_def run_loop.simps(2))

text \<open>The cases of the switch that the examples use.\<close>

lemmas switch_defs = switch_def dispatch_stack_def dispatch_arith_def dispatch_mem_def dispatch_env_def
  dispatch_system_def opcodes

lemma switch_cases:
  "switch env 0x00 = op_stop" "switch env 0x33 = in_ctxt op_caller" "switch env 0x34 = in_ctxt op_callvalue"
  "switch env 0xfd = in_ctxt op_revert" "switch env 0x50 = in_ctxt op_pop" "switch env 0x55 = op_sstore env"
  "switch env 0xf0 = create_impl env"  "switch env 0xf5 = create_impl env" "switch env 0xff = op_selfdestruct env"
  "switch env 0xa0 = op_log env" "switch env 0xa1 = op_log env" "switch env 0xa2 = op_log env"
  "switch env 0xa3 = op_log env" "switch env 0xa4 = op_log env"
  "switch env 0xfa = op_call env" "switch env 0xf3 = op_return env"
  by (simp_all add: switch_defs)

lemma start_run:
  assumes "acc_get_code (env_ops env) callee gs = (Inr code, g)"
  shows "start env caller callee input v (new_proc gs tx tr) =
    (Inr (), (new_proc g tx tr)\<lparr>p_ctxts := [new_Context caller callee input v (new_Program code) OuterHandlers False]\<rparr>)"
  using assms by (simp add: start_def new_proc_def bind_run in_gs_def zoom_run push_context_def get_call_depth_def
      MAX_CALL_DEPTH_def)

lemma op_callvalue_run:
  "p_ctxts p = c # cs \<Longrightarrow> length (c_s c) \<noteq> 1024 \<Longrightarrow>
    in_ctxt op_callvalue p = (Inr (), p\<lparr>p_ctxts := c\<lparr>c_s := c_call_value c # c_s c\<rparr> # cs\<rparr>)"
  by (simp add: in_ctxt_def op_callvalue_def ctx_run)

lemma op_caller_run:
  "p_ctxts p = c # cs \<Longrightarrow> length (c_s c) \<noteq> 1024 \<Longrightarrow>
    in_ctxt op_caller p = (Inr (), p\<lparr>p_ctxts := c\<lparr>c_s := c_caller c # c_s c\<rparr> # cs\<rparr>)"
  by (simp add: in_ctxt_def op_caller_def ctx_run)

lemma op_stop_run:
  "p_ctxts p = c # cs \<Longrightarrow> op_stop p = halt_handler (c_handlers c) (p\<lparr>p_ctxts := cs\<rparr>)"
  by (simp add: op_stop_def bind_run in_ctxt_def pop_context_def)

lemma finish_trace: "p_ctxts p = [] \<Longrightarrow> p_tr (snd (finish env p)) = p_tr p"
proof -
  assume p: "p_ctxts p = []"
  let ?P = "\<lambda>q. p_ctxts q = [] \<and> p_tr q = p_tr p"
  have "keeps ?P (in_gs m)" for m :: "('a, unit) act"
    by (simp add: keeps_def in_gs_def zoom_run split: prod.splits)
  moreover have "keeps ?P (\<lambda>p. if p_ctxts p \<noteq> [] then op_stop p else (Inr (), p))" by (simp add: keeps_def)
  ultimately have "keeps ?P (finish env)" unfolding finish_def
    by (auto intro!: keeps_bind keeps_for_each keeps_reads)
  then show ?thesis using p by (simp add: keeps_def)
qed

lemma new_Context_simps [simp]:
  "c_pc (new_Context caller as input v prog h st) = 0" "c_pc_changed (new_Context caller as input v prog h st)"
  "c_mem (new_Context caller as input v prog h st) = []" "c_s (new_Context caller as input v prog h st) = []"
  "c_as (new_Context caller as input v prog h st) = as" "c_caller (new_Context caller as input v prog h st) = caller"
  "c_input (new_Context caller as input v prog h st) = input" "c_call_value (new_Context caller as input v prog h st) = v"
  "c_prog (new_Context caller as input v prog h st) = prog" "c_handlers (new_Context caller as input v prog h st) = h"
  "c_in_static_mode (new_Context caller as input v prog h st) = st"
  by (simp_all add: new_Context_def)

lemma prog_code_new [simp]: "prog_code (new_Program code) = code"
  by (simp add: new_Program_def)

lemma new_proc_simps [simp]: "p_tr (new_proc g tx tr) = tr" "p_ctxts (new_proc g tx tr) = []" "p_gs (new_proc g tx tr) = g"
  "p_tx (new_proc g tx tr) = tx" by (simp_all add: new_proc_def)

lemma run_eq:
  assumes "acc_get_code (env_ops env) callee gs = (Inr code, g)"
  shows "run env n tx caller callee input v tr gs =
    (case run_loop env n ((new_proc g tx tr)\<lparr>p_ctxts := [new_Context caller callee input v (new_Program code) OuterHandlers False]\<rparr>) of
       None \<Rightarrow> None
     | Some (Inl e, p) \<Rightarrow> Some (Inl e, p)
     | Some (Inr _, p) \<Rightarrow> Some (finish env p))"
  by (simp add: run_def start_run [OF assms])

lemma revert_example: "\<exists>q. run example_env 3 example_tx 7 1 [] 1 None (example_world [OP_CALLVALUE, OP_REVERT]) =
  Some (Inl (UndefinedBehaviour ''iterator past the end of the output''), q)"
proof -
  have c: "acc_get_code (env_ops example_env) 1 (example_world [OP_CALLVALUE, OP_REVERT]) =
    (Inr [OP_CALLVALUE, OP_REVERT], example_world [OP_CALLVALUE, OP_REVERT])"
    by (simp_all add: example_env_def example_world_def simple_ops_def ask_entry_def new_SimpleAccount_def)
  have r: "in_ctxt op_revert p = (Inl (UndefinedBehaviour ''iterator past the end of the output''),
      p\<lparr>p_ctxts := c\<lparr>c_s := [], c_mem := replicate 2 0\<rparr> # cs\<rparr>)"
    if "p_ctxts p = c # cs" "c_s c = [1, 1]" "c_mem c = []" for p :: "SimpleGlobalState proc" and c cs
    using that by (simp add: in_ctxt_def op_revert_def ctx_run stack_pop64_Cons copy_from_mem_total
        prepare_mem_access_def MAX_MEM_SIZE_def resize_def segment_def parse_revert_def Let_def word_le_nat_alt)
  note step = try_dispatch_inr try_dispatch_fault dispatch_run switch_cases pc_valid_def opcodes
  have 3: "3 = Suc (Suc (Suc 0))" by simp
  show ?thesis unfolding run_eq [OF c] 3
    by (simp add: run_loop_go run_loop_fail step op_callvalue_run r step_ctxt_def step_def)
qed

text \<open>The context that a pointer denotes, below the current one.\<close>

lemma in_parent_run:
  "p_ctxts p = c # cs \<Longrightarrow> k < length cs \<Longrightarrow> m (cs ! (length cs - 1 - k)) = (r, d) \<Longrightarrow>
    in_parent k m p = (r, p\<lparr>p_ctxts := c # cs[length cs - 1 - k := d]\<rparr>)"
proof -
  assume a: "p_ctxts p = c # cs" "k < length cs" "m (cs ! (length cs - 1 - k)) = (r, d)"
  then have "length (p_ctxts p) - 1 - k = Suc (length cs - 1 - k)" by simp
  then show ?thesis using a by (simp add: in_parent_def Let_def)
qed

lemma in_parent_upd:
  "k < length cs \<Longrightarrow> i = length cs - 1 - k \<Longrightarrow> m d = (r, d') \<Longrightarrow>
    in_parent k m (p\<lparr>p_ctxts := c # cs[i := d]\<rparr>) = (r, p\<lparr>p_ctxts := c # cs[i := d']\<rparr>)"
  using in_parent_run [of "p\<lparr>p_ctxts := c # cs[i := d]\<rparr>" c "cs[i := d]" k m r d'] by simp

lemma p_ctxts_self: "p_ctxts p = cs \<Longrightarrow> p\<lparr>p_ctxts := cs\<rparr> = p"
  by (cases p) simp

lemma world_pay_zero:
  assumes w: "world ops view" and "view g a = Some v" and "view g b = Some w"
  shows "\<exists>g'. pay_to ops a b 0 g = (Inr (), g') \<and> view g' = view g"
proof (cases "a = b")
  case True
  then show ?thesis using ledger.pay_to_self [OF world.axioms(1) [OF w] assms(2), of 0] assms(2) by (auto simp: fun_upd_idem)
next
  case False
  then show ?thesis using ledger.pay_to_ok [OF world.axioms(1) [OF w] assms(2,3) False, of 0] assms(2,3) by (auto simp: fun_upd_idem)
qed

lemma get_op_run: "pc_valid c \<Longrightarrow> get_op c = (Inr (prog_code (c_prog c) ! unat (c_pc c)), c)"
  by (simp add: get_op_def get_pc_def)

lemma pop_addr_run: "c_s c = v # st \<Longrightarrow> pop_addr c = (Inr (v AND MASK_160), c\<lparr>c_s := st\<rparr>)"
  by (simp add: pop_addr_def ctx_run)

lemma push_context_run:
  "length (p_ctxts p) < 1024 \<Longrightarrow> push_context caller as input prog v h b p =
    (Inr (), p\<lparr>p_ctxts := new_Context caller as input v prog h b # p_ctxts p\<rparr>)"
  by (simp add: push_context_def bind_run get_call_depth_def MAX_CALL_DEPTH_def unsigned_of_nat take_bit_nat_eq_self)

section \<open>Properties\<close>

text \<open>
  Claim C1.  A run on the in-memory world has no undefined behaviour but the known ones: for every
  program, input and amount of fuel, when the callee exists, the only steps without meaning are
  reading the reason of a revert past the end of the output, and following the dangling reference
  of \<open>CREATE\<close>.  In particular no null or dangling context is used, no account reference dangles,
  and the program counter stays in the code.
\<close>

theorem run_no_other_undefined_behaviour:
  assumes "sgs_exists callee gs"
    and "run (simple_env clock jnk dangling) n tx caller callee input v tr gs = Some (Inl (UndefinedBehaviour m), q)"
  shows "m \<in> {''iterator past the end of the output'', ''read past the end of the output'',
    ''dangling reference to a local variable''}"
  using sm.run_benign [OF _ assms(2)] assms(1) by (simp add: dom_simple_view known_faults_def)

theorem run_no_other_undefined_behaviour_witness:
  "\<exists>q m. run example_env 3 example_tx 7 1 [] 1 None (example_world [OP_CALLVALUE, OP_REVERT]) =
      Some (Inl (UndefinedBehaviour m), q) \<and>
    m \<in> {''iterator past the end of the output'', ''read past the end of the output'',
      ''dangling reference to a local variable''}"
proof -
  obtain q where q: "run example_env 3 example_tx 7 1 [] 1 None (example_world [OP_CALLVALUE, OP_REVERT]) =
      Some (Inl (UndefinedBehaviour ''iterator past the end of the output''), q)"
    using revert_example by blast
  moreover have "sgs_exists 1 (example_world [OP_CALLVALUE, OP_REVERT])"
    by (simp add: sgs_exists_def example_world_def)
  ultimately show ?thesis using run_no_other_undefined_behaviour unfolding example_env_def by blast
qed

text \<open>
  Claim C2.  In every state the interpreter loop goes through, at most 1024 contexts are nested, the
  memory of each is at most 32 MB, the jump destinations of each are those of its code, every
  context but the outermost answers to a context that encloses it, and the account of each exists.
\<close>

theorem loop_invariant:
  assumes "sgs_exists callee gs"
    and "start (simple_env clock jnk dangling) caller callee input v (new_proc gs tx tr) = (Inr (), p)"
    and "iterates (simple_env clock jnk dangling) p q"
  shows "length (p_ctxts q) \<le> 1024 \<and>
    (\<forall>i < length (p_ctxts q). let c = p_ctxts q ! i in
      length (c_mem c) \<le> 2 ^ 25 \<and>
      prog_jump_dests (c_prog c) = compute_jump_dests (prog_code (c_prog c)) 0 {} \<and>
      handlers_ok (length (p_ctxts q) - 1 - i) (c_handlers c) \<and> sgs_exists (c_as c) (p_gs q))"
proof -
  have "proc_inv simple_view p"
    using sm.start_inv [of callee gs clock jnk dangling caller input v tx tr] assms(1,2) by (simp add: dom_simple_view)
  then have inv: "proc_inv simple_view q" using sm.iterates_inv [OF assms(3)] by simp
  have ok: "ctxts_ok cs \<Longrightarrow> i < length cs \<Longrightarrow> ctxt_ok (cs ! i) \<and> handlers_ok (length cs - 1 - i) (c_handlers (cs ! i))"
    for cs i by (induction cs arbitrary: i) (auto simp: nth_Cons split: nat.splits)
  have "ctxt_ok c \<Longrightarrow> prog_jump_dests (c_prog c) = compute_jump_dests (prog_code (c_prog c)) 0 {}" for c
    by (metis ctxt_ok_def new_Program_def Program.select_convs(2))
  moreover have "sgs_exists (c_as (p_ctxts q ! i)) (p_gs q)" if "i < length (p_ctxts q)" for i
  proof -
    have "refs (p_ctxts q ! i) \<subseteq> dom (simple_view (p_gs q))"
      using inv nth_mem [OF that] unfolding proc_inv_def by blast
    then show ?thesis using dom_simple_view by (auto simp: refs_def)
  qed
  ultimately show ?thesis
    using inv ok by (simp add: proc_inv_def MAX_CALL_DEPTH_def Let_def ctxt_ok_def)
qed

theorem loop_invariant_witness:
  "\<exists>p. start example_env 7 1 [] 0 (new_proc (example_world [OP_CALLER, OP_STOP]) example_tx None) = (Inr (), p) \<and>
    p_ctxts p \<noteq> [] \<and> length (p_ctxts p) \<le> 1024 \<and> sgs_exists (c_as (p_ctxts p ! 0)) (p_gs p)"
proof -
  have g: "acc_get_code (env_ops example_env) 1 (example_world [OP_CALLER, OP_STOP]) =
    (Inr [OP_CALLER, OP_STOP], example_world [OP_CALLER, OP_STOP])"
    by (simp_all add: example_env_def example_world_def simple_ops_def ask_entry_def new_SimpleAccount_def)
  have "sgs_exists 1 (example_world [OP_CALLER, OP_STOP])" by (simp add: sgs_exists_def example_world_def)
  from loop_invariant [OF this start_run [OF g, unfolded example_env_def] iterates_here]
  show ?thesis using start_run [OF g, of 7 "[]" 0 example_tx None] by (simp add: Let_def)
qed

text \<open>
  Claim C5.  An exception inside a nested context ends that context only: the context is removed, zero
  is pushed on the stack of the context that made the call, and the world keeps every change made
  before the exception.  An exception in the outermost context ends the run with its kind and
  message as the result.
\<close>

theorem exception_reaches_caller:
  assumes "dispatch env p = (Inl (Exception t msg), q)" and "p_ctxts q = c # cs"
  shows "(\<forall>k off sz. c_handlers c = CallHandlers k off sz \<and> k < length cs \<and>
        length (c_s (cs ! (length cs - 1 - k))) \<noteq> 1024 \<longrightarrow>
      (let i = length cs - 1 - k in
       try_dispatch env p = (Inr (), q\<lparr>p_ctxts := cs[i := (cs ! i)\<lparr>c_s := 0 # c_s (cs ! i)\<rparr>]\<rparr>))) \<and>
    (c_handlers c = OuterHandlers \<longrightarrow>
      (\<exists>q'. try_dispatch env p = (Inr (), q') \<and> p_ctxts q' = cs \<and> p_gs q' = p_gs q \<and>
        res_er (p_result q') = Threw \<and> res_ex (p_result q') = t \<and> res_exmsg (p_result q') = c_str msg))"
proof (intro conjI allI impI)
  fix k off sz
  let ?i = "length cs - 1 - k"
  assume a: "c_handlers c = CallHandlers k off sz \<and> k < length cs \<and> length (c_s (cs ! ?i)) \<noteq> 1024"
  have "in_parent k (s_push 0) q = (Inr (), q\<lparr>p_ctxts := c # cs[?i := (cs ! ?i)\<lparr>c_s := 0 # c_s (cs ! ?i)\<rparr>]\<rparr>)"
    using a assms(2) by (intro in_parent_run) (simp_all add: ctx_run)
  then show "let i = ?i in try_dispatch env p =
      (Inr (), q\<lparr>p_ctxts := cs[i := (cs ! i)\<lparr>c_s := 0 # c_s (cs ! i)\<rparr>]\<rparr>)"
    using a assms by (simp add: try_dispatch_def handle_exception_def bind_run in_ctxt_def pop_context_def Let_def
        p_ctxts_self [OF assms(2)])
next
  assume "c_handlers c = OuterHandlers"
  then show "\<exists>q'. try_dispatch env p = (Inr (), q') \<and> p_ctxts q' = cs \<and> p_gs q' = p_gs q \<and>
        res_er (p_result q') = Threw \<and> res_ex (p_result q') = t \<and> res_exmsg (p_result q') = c_str msg"
    using assms by (simp add: try_dispatch_def handle_exception_def bind_run in_ctxt_def pop_context_def)
qed

theorem exception_reaches_caller_witness:
  "\<exists>q. try_dispatch example_env (example_nested [OP_POP] [] False) = (Inr (), q) \<and>
    map c_s (p_ctxts q) = [[0]] \<and> p_gs q = example_world [OP_POP]"
proof -
  let ?p = "example_nested [OP_POP] [] False"
  have c: "p_ctxts ?p = [p_ctxts ?p ! 0, p_ctxts ?p ! 1]" by (simp add: example_nested_def)
  have "dispatch example_env ?p = (Inl (Exception OutOfBounds ''Stack out of range''), ?p)"
    using dispatch_run [OF c, of OP_POP example_env]
    by (simp add: example_nested_def pc_valid_def switch_cases opcodes in_ctxt_def op_pop_def ctx_run traced_def)
  from exception_reaches_caller [OF this c] show ?thesis
    by (auto simp: example_nested_def Let_def)
qed

text \<open>
  Claim C4.  \<open>RETURN\<close> in a called context hands the output to the caller: the returned bytes are
  those of the callee's memory (zero where the memory ends), they become the return data of the
  caller, its memory receives them at the place the call asked for, cut or padded with zeros to the
  size asked for, 1 is pushed on its stack, and the callee's context is gone.
\<close>

theorem return_reaches_caller:
  assumes "p_ctxts p = c # cs" and "c_s c = off # sz # st" and "unat off + unat sz \<le> 2 ^ 25"
    and "c_handlers c = CallHandlers k offOut sizeOut" and "k < length cs"
    and "d = cs ! (length cs - 1 - k)" and "sizeOut \<noteq> 0" and "unat offOut + unat sizeOut \<le> 2 ^ 25"
    and "length (c_s d) \<noteq> 1024"
  shows "\<exists>out m. op_return env p = (Inr (), p\<lparr>p_ctxts := cs[length cs - 1 - k :=
        d\<lparr>c_return_data := out, c_mem := m, c_s := 1 # c_s d\<rparr>]\<rparr>) \<and>
      length out = unat sz \<and>
      (\<forall>i < unat sz. out ! i = (if unat off + i < length (c_mem c) then c_mem c ! (unat off + i) else 0)) \<and>
      length m = max (length (c_mem d)) (unat offOut + unat sizeOut) \<and>
      (\<forall>i < length m. m ! i = copied (unat offOut) 0 (unat sizeOut) out 0 (c_mem d) i)"
proof -
  let ?i = "length cs - 1 - k" and ?off = "ucast off :: u64" and ?sz = "ucast sz :: u64"
  have small: "unat off < 2 ^ 64" "unat sz < 2 ^ 64" using assms(3) by simp_all
  then have u: "unat ?off = unat off" "unat ?sz = unat sz" by (simp_all add: unat_ucast_u64)
  let ?c = "c\<lparr>c_s := st\<rparr>"
  obtain m' where m': "copy_from_mem ?off ?sz (c_mem c) = (Inr (segment (unat ?off) (unat ?sz) m'), m')"
    "length m' = max (length (c_mem c)) (unat ?off + unat ?sz)"
    "\<forall>i < length m'. m' ! i = (if i < length (c_mem c) then c_mem c ! i else 0)"
    using copy_from_mem_run [of ?off ?sz "c_mem c"] assms(3) u by auto
  define out where "out = segment (unat ?off) (unat ?sz) m'"
  have out: "length out = unat sz"
    "i < unat sz \<Longrightarrow> out ! i = (if unat off + i < length (c_mem c) then c_mem c ! (unat off + i) else 0)" for i
    using m'(2,3) u by (simp_all add: out_def length_segment nth_segment)
  have "length out < 2 ^ 63" using out(1) assms(3) by simp
  then obtain m where m: "copy_mem_raw offOut 0 sizeOut out 0 (c_mem d) = (Inr (), m)"
    "length m = max (length (c_mem d)) (unat offOut + unat sizeOut)"
    "\<forall>i < length m. m ! i = copied (unat offOut) 0 (unat sizeOut) out 0 (c_mem d) i"
    using copy_mem_raw_ok [OF assms(7,8), of out 0 0 "c_mem d"] by auto
  let ?p = "p\<lparr>p_ctxts := c\<lparr>c_s := st, c_mem := m'\<rparr> # cs\<rparr>"
  have "in_parent k (upd (\<lambda>c. c\<lparr>c_return_data := out\<rparr>)) ?p =
      (Inr (), ?p\<lparr>p_ctxts := c\<lparr>c_s := st, c_mem := m'\<rparr> # cs[?i := d\<lparr>c_return_data := out\<rparr>]\<rparr>)"
    using assms(5,6) by (intro in_parent_run) simp_all
  moreover have "in_parent k (on_mem (copy_mem_raw offOut 0 sizeOut out 0))
       (p\<lparr>p_ctxts := c\<lparr>c_s := st, c_mem := m'\<rparr> # cs[?i := d\<lparr>c_return_data := out\<rparr>]\<rparr>) =
     (Inr (), p\<lparr>p_ctxts := c\<lparr>c_s := st, c_mem := m'\<rparr> # cs[?i := d\<lparr>c_return_data := out, c_mem := m\<rparr>]\<rparr>)"
    using assms(5) m(1) by (intro in_parent_upd) (simp_all add: ctx_run)
  moreover have "in_parent k (s_push 1)
       (p\<lparr>p_ctxts := c\<lparr>c_s := st, c_mem := m'\<rparr> # cs[?i := d\<lparr>c_return_data := out, c_mem := m\<rparr>]\<rparr>) =
     (Inr (), p\<lparr>p_ctxts := c\<lparr>c_s := st, c_mem := m'\<rparr> # cs[?i := d\<lparr>c_return_data := out, c_mem := m, c_s := 1 # c_s d\<rparr>]\<rparr>)"
    using assms(5,9) by (intro in_parent_upd) (simp_all add: ctx_run)
  ultimately have "op_return env p = (Inr (), p\<lparr>p_ctxts := cs[?i := d\<lparr>c_return_data := out, c_mem := m, c_s := 1 # c_s d\<rparr>]\<rparr>)"
    using assms(1,2,4) small m'(1)
    by (simp add: op_return_def bind_run in_ctxt_def s_pop64_run on_mem_def zoom_run out_def [symmetric]
        pop_context_def)
  with out m show ?thesis by blast
qed

theorem return_reaches_caller_witness:
  "\<exists>q. op_return example_env (example_nested [OP_RETURN] [1, 4] False) = (Inr (), q) \<and>
     map c_return_data (p_ctxts q) = [[8, 7, 0, 0]] \<and> map c_mem (p_ctxts q) = [[0, 0, 8, 7, 0]] \<and>
     map c_s (p_ctxts q) = [[1]]"
proof -
  let ?p = "example_nested [OP_RETURN] [1, 4] False"
  have c: "p_ctxts ?p = [p_ctxts ?p ! 0, p_ctxts ?p ! 1]" by (simp add: example_nested_def)
  have s: "c_s (p_ctxts ?p ! 0) = [1, 4]" "c_mem (p_ctxts ?p ! 0) = [9, 8, 7]" "c_handlers (p_ctxts ?p ! 0) = CallHandlers 0 2 3"
    "c_s (p_ctxts ?p ! 1) = []" "c_mem (p_ctxts ?p ! 1) = []" by (simp_all add: example_nested_def)
  obtain out m where o: "op_return example_env ?p = (Inr (), ?p\<lparr>p_ctxts :=
      [(p_ctxts ?p ! 1)\<lparr>c_return_data := out, c_mem := m, c_s := [1]\<rparr>]\<rparr>)"
    "length out = 4" "\<forall>i < 4. out ! i = (if 1 + i < 3 then [9, 8, 7 :: byte] ! (1 + i) else 0)"
    "length m = 5" "\<forall>i < 5. m ! i = copied 2 0 3 out 0 [] i"
    using return_reaches_caller [OF c, of 1 4 "[]" 0 2 3 "p_ctxts ?p ! 1" example_env]
    by (auto simp: s simp del: One_nat_def)
  have out: "out = [8, 7, 0, 0]" using o(2,3) by (simp add: list_eq_iff_nth_eq numeral_eq_Suc All_less_Suc)
  moreover have "m = [0, 0, 8, 7, 0]" using o(4,5)
    by (simp add: out list_eq_iff_nth_eq numeral_eq_Suc All_less_Suc copied_def)
  ultimately show ?thesis using o(1) by simp
qed

text \<open>
  Claim C6.  In static mode, an instruction that writes storage, logs, creates an account or destroys
  one throws a static mode violation and changes nothing.
\<close>

theorem static_mode_protects:
  assumes "p_ctxts p = c # cs" and "pc_valid c" and "c_in_static_mode c"
    and "prog_code (c_prog c) ! unat (c_pc c) \<in>
      {OP_SSTORE, OP_LOG0, OP_LOG1, OP_LOG2, OP_LOG3, OP_LOG4, OP_CREATE, OP_CREATE2, OP_SELFDESTRUCT}"
  shows "\<exists>msg q. dispatch env p = (Inl (Exception StaticModeViolation msg), q) \<and>
    p_gs q = p_gs p \<and> p_tx q = p_tx p \<and> p_ctxts q = p_ctxts p"
proof -
  let ?op = "prog_code (c_prog c) ! unat (c_pc c)" and ?q = "traced c (prog_code (c_prog c) ! unat (c_pc c)) p"
  have n: "not_static what ?q = (Inl (static_violation what), ?q)" for what
    using assms(1,3) by (simp add: not_static_def bind_run in_ctxt_def p_ctxts_self)
  have "switch env ?op \<in> {op_sstore env, op_log env, create_impl env, op_selfdestruct env}"
    using assms(4) by (elim insertE emptyE) (simp_all add: opcodes switch_cases)
  then have "\<exists>what. switch env ?op ?q = (Inl (static_violation what), ?q)"
    by (elim insertE emptyE)
      (simp_all only: op_sstore_def op_log_def create_impl_def op_selfdestruct_def bind_run [of "not_static _"] n
        prod.case sum.case, blast+)
  then show ?thesis using dispatch_run [OF assms(1,2) HOL.refl, of env] by (auto simp: static_violation_def)
qed

theorem static_mode_protects_witness:
  "\<exists>msg q. dispatch example_env (example_nested [OP_SSTORE] [1, 2] True) =
      (Inl (Exception StaticModeViolation msg), q) \<and> p_gs q = example_world [OP_SSTORE]"
  using static_mode_protects [of "example_nested [OP_SSTORE] [1, 2] True"
      "p_ctxts (example_nested [OP_SSTORE] [1, 2] True) ! 0" "[p_ctxts (example_nested [OP_SSTORE] [1, 2] True) ! 1]" example_env]
  by (auto simp: example_nested_def pc_valid_def)

text \<open>
  Claim C39.  \<open>STATICCALL\<close> enters the callee twice, because its case falls through to the one of
  \<open>CALL\<close>.  The context that runs first is not in static mode, and its caller is the callee
  itself; below it waits the static context.  Both answer to the calling context, so that each of
  them pushes a result on its stack.
\<close>

theorem staticcall_enters_twice:
  assumes "p_ctxts p = c # cs" and "length cs < 1022" and "pc_valid c"
    and "prog_code (c_prog c) ! unat (c_pc c) = OP_STATICCALL"
    and "c_s c = gas # addr # offIn # sizeIn # offOut # sizeOut # st"
    and "addr AND MASK_160 = a" and "\<not> (1 \<le> a \<and> a \<le> 8)"
    and "simple_view (p_gs p) (c_as c) = Some me" and "simple_view (p_gs p) a = Some callee"
    and "a_code callee \<noteq> []"
    and "unat offIn + unat sizeIn \<le> 2 ^ 25" and "unat offOut + unat sizeOut \<le> 2 ^ 25"
  shows "\<exists>q m input. dispatch (simple_env clock jnk dangling) p = (Inr (), q) \<and>
    (let prog = new_Program (a_code callee); h = CallHandlers (length cs) (ucast offOut) (ucast sizeOut) in
     p_ctxts q = new_Context (a_address callee) a input 0 prog h False #
       new_Context (a_address me) a input 0 prog h True # c\<lparr>c_s := st, c_mem := m\<rparr> # cs) \<and>
    simple_view (p_gs q) = simple_view (p_gs p)"
proof -
  have small: "unat offIn < 2 ^ 64" "unat sizeIn < 2 ^ 64" "unat offOut < 2 ^ 64" "unat sizeOut < 2 ^ 64"
    using assms(11,12) by simp_all
  then have mem: "unat (ucast offIn :: u64) + unat (ucast sizeIn :: u64) \<le> 2 ^ 25"
    "unat (ucast offOut :: u64) + unat (ucast sizeOut :: u64) \<le> 2 ^ 25"
    using assms(11,12) by (simp_all add: unat_ucast_u64)
  obtain g where g: "pay_to simple_ops (c_as c) a 0 (p_gs p) = (Inr (), g)" "simple_view g = simple_view (p_gs p)"
    using world_pay_zero [OF simple.world_axioms assms(8,9)] by blast
  note v = assms(8,9) [folded g(2)]
  obtain m1 where m1: "prepare_mem_access (ucast offOut) (ucast sizeOut) (c_mem c) = (Inr (), m1)"
    using prepare_mem_ok [OF mem(2)] by blast
  obtain input m2 where m2: "copy_from_mem (ucast offIn) (ucast sizeIn) m1 = (Inr input, m2)"
    using copy_from_mem_run [OF mem(1), of m1] by blast
  let ?h = "CallHandlers (length cs) (ucast offOut) (ucast sizeOut)" and ?P = "new_Program (a_code callee)"
  let ?q = "(traced c OP_STATICCALL p)\<lparr>p_gs := g,
    p_ctxts := new_Context (a_address callee) a input 0 ?P ?h False #
       new_Context (a_address me) a input 0 ?P ?h True # c\<lparr>c_s := st, c_mem := m2\<rparr> # cs\<rparr>"
  have "op_call (simple_env clock jnk dangling) (traced c OP_STATICCALL p) = (Inr (), ?q)"
    using assms(1-7,10) small v g(1) m1 m2 simple.get_old [OF assms(9)]
    by (simp add: op_call_def bind_run in_ctxt_def get_op_run ctxt_as_def in_gs_def zoom_run pop_addr_run s_pop64_run
        on_stack_def [of stack_pop] simple.has_code on_mem_def parentContext_def Let_def
        andthen_run enter_callee_def simple.get_code simple.get_address push_context_run)
  then have "dispatch (simple_env clock jnk dangling) p = (Inr (), ?q)"
    using dispatch_run [OF assms(1,3,4), of "simple_env clock jnk dangling"] by (simp add: switch_cases opcodes)
  then show ?thesis
    by (intro exI [of _ ?q] exI [of _ m2] exI [of _ input]) (simp add: g(2) Let_def)
qed

theorem staticcall_enters_twice_witness:
  "\<exists>q. dispatch example_env example_staticcall = (Inr (), q) \<and>
    map c_in_static_mode (p_ctxts q) = [False, True, False] \<and> map c_caller (p_ctxts q) = [20, 1, 7]"
proof -
  let ?c = "p_ctxts example_staticcall ! 0"
  have m: "(20 :: u256) AND MASK_160 = 20" by code_simp
  have v: "simple_view (p_gs example_staticcall) 1 = Some (fresh_acct 1 10 [])"
    "simple_view (p_gs example_staticcall) 20 = Some (fresh_acct 20 0 [OP_STOP])"
    by (simp_all add: example_staticcall_def simple_view_def simple_acct_new)
  have c: "p_ctxts example_staticcall = [?c]" by (simp add: example_staticcall_def)
  have s: "pc_valid ?c" "prog_code (c_prog ?c) ! unat (c_pc ?c) = OP_STATICCALL" "c_s ?c = [0, 20, 0, 0, 0, 0]"
    "c_as ?c = 1" "c_in_static_mode ?c = False" "c_caller ?c = 7"
    by (simp_all add: example_staticcall_def pc_valid_def)
  show ?thesis
    using staticcall_enters_twice [OF c _ s(1,2,3) m _ v(1) [folded s(4)] v(2), of "\<lambda>_. 0" "\<lambda>_. ([], [])" "\<lambda>_. False"]
    by (fastforce simp: fresh_acct_def example_env_def Let_def s word_le_nat_alt)
qed

text \<open>
  Claim C40.  \<open>CREATE\<close> makes coins.  When the creator can pay, it loses the value once, but the new
  account ends with twice the value, since it is created with it and then paid.  When the creator
  cannot pay, the instruction throws, but the new account stays in the world with the value.
\<close>

theorem create_mints:
  assumes "p_ctxts p = c # cs" and "length cs < 1023" and "pc_valid c"
    and "prog_code (c_prog c) ! unat (c_pc c) = OP_CREATE" and "\<not> c_in_static_mode c"
    and "c_s c = v # off # sz # st" and "unat off + unat sz \<le> 2 ^ 25"
    and "simple_view (p_gs p) (c_as c) = Some me"
    and "new = generate_address (a_address me) (a_nonce me)" and "simple_view (p_gs p) new = None"
  shows "(v \<le> a_balance me \<and> 2 * unat v < 2 ^ 256 \<longrightarrow>
      (\<exists>q. dispatch (simple_env clock jnk dangling) p = (Inr (), q) \<and>
        simple_view (p_gs q) = (simple_view (p_gs p))
          (c_as c \<mapsto> me\<lparr>a_balance := a_balance me - v\<rparr>, new \<mapsto> fresh_acct new (2 * v) []))) \<and>
    (a_balance me < v \<longrightarrow>
      (\<exists>q msg. dispatch (simple_env clock jnk dangling) p = (Inl (Exception OutOfFunds msg), q) \<and>
        simple_view (p_gs q) = (simple_view (p_gs p))(new \<mapsto> fresh_acct new v [])))"
proof -
  let ?E = "simple_env clock jnk dangling" and ?as = "c_as c" and ?q = "traced c OP_CREATE p"
  have small: "unat off < 2 ^ 64" "unat sz < 2 ^ 64" using assms(7) by simp_all
  then have mem: "unat (ucast off :: u64) + unat (ucast sz :: u64) \<le> 2 ^ 25"
    using assms(7) by (simp_all add: unat_ucast_u64)
  obtain init m where m: "copy_from_mem (ucast off) (ucast sz) (c_mem c) = (Inr init, m)"
    using copy_from_mem_run [OF mem] by blast
  obtain g where g: "gs_create simple_ops new v [] (p_gs p) = (Inr new, g)"
    "simple_view g = (simple_view (p_gs p))(new \<mapsto> fresh_acct new v [])"
    using simple.create_new [OF assms(10)] by blast
  have ne: "?as \<noteq> new" using assms(8,10) by auto
  then have me: "simple_view g ?as = Some me" and nw: "simple_view g new = Some (fresh_acct new v [])"
    using assms(8) g(2) by simp_all
  let ?p = "?q\<lparr>p_ctxts := c\<lparr>c_s := st, c_mem := m\<rparr> # cs, p_gs := g\<rparr>"
  let ?k = "bind (in_gs (pay_to simple_ops ?as new v)) (\<lambda>_. bind parentContext (\<lambda>parent.
    bind (in_gs (acc_get_address simple_ops ?as)) (\<lambda>address.
    push_context address new [] (new_Program init) 0 (CreateHandlers parent new) False)))"
  have d: "dispatch ?E p = ?k ?p"
    using dispatch_run [OF assms(1,3,4), of ?E] assms(1,3-6) assms(9) [symmetric] small m g(1)
      simple.get_address [OF assms(8)] simple.get_nonce [OF assms(8)]
    by (simp add: switch_cases create_impl_def bind_run [of "not_static _"] bind_run in_ctxt_def get_op_run ctxt_as_def in_gs_def zoom_run
        s_pop64_run on_stack_def [of stack_pop] on_mem_def not_static_def opcodes)
  show ?thesis
  proof (intro conjI impI)
    assume v: "v \<le> a_balance me \<and> 2 * unat v < 2 ^ 256"
    then have "unat v + unat v < 2 ^ 256" by simp
    then have "v \<le> v + v" by (intro no_olen_add_nat [THEN iffD2]) simp
    then obtain g' where g': "pay_to simple_ops ?as new v g = (Inr (), g')"
      "simple_view g' = (simple_view g)(?as \<mapsto> me\<lparr>a_balance := a_balance me - v\<rparr>, new \<mapsto> fresh_acct new (2 * v) [])"
      using simple.pay_to_ok [OF me nw ne, of v] v by (auto simp: fresh_acct_def)
    have "simple_view g' ?as = Some (me\<lparr>a_balance := a_balance me - v\<rparr>)" using g'(2) ne by simp
    then obtain q where "?k ?p = (Inr (), q)" "p_gs q = g'"
      using g'(1) assms(2) simple.get_address by (simp add: bind_run in_gs_def zoom_run parentContext_def push_context_run)
    then show "\<exists>q. dispatch ?E p = (Inr (), q) \<and> simple_view (p_gs q) = (simple_view (p_gs p))
          (?as \<mapsto> me\<lparr>a_balance := a_balance me - v\<rparr>, new \<mapsto> fresh_acct new (2 * v) [])"
      using g'(2) g(2) d ne by (intro exI [of _ q]) (simp add: fun_upd_twist)
  next
    assume "a_balance me < v"
    then have "pay_to simple_ops ?as new v g =
      (Inl (insufficient_funds v (a_address (fresh_acct new v [])) (a_address me) (a_balance me)), g)"
      using simple.pay_to_poor [OF me nw] by simp
    then show "\<exists>q msg. dispatch ?E p = (Inl (Exception OutOfFunds msg), q) \<and>
        simple_view (p_gs q) = (simple_view (p_gs p))(new \<mapsto> fresh_acct new v [])"
      using d g(2) by (simp add: bind_run in_gs_def zoom_run insufficient_funds_def)
  qed
qed

theorem create_mints_witness:
  "let p = (new_proc \<lparr>currentBlock = example_block,
        accounts = [2 ^ 200 \<mapsto> (new_SimpleAccount 5 10 [], Map.empty)]\<rparr> example_tx None)
        \<lparr>p_ctxts := [(new_Context 7 (2 ^ 200) [] 0 (new_Program [OP_CREATE]) OuterHandlers False)\<lparr>c_s := [3, 0, 0]\<rparr>]\<rparr>
   in \<exists>q. dispatch example_env p = (Inr (), q) \<and>
     simple_view (p_gs q) = (simple_view (p_gs p))
       (2 ^ 200 \<mapsto> fresh_acct 5 7 [], generate_address 5 0 \<mapsto> fresh_acct (generate_address 5 0) 6 [])"
proof -
  have ne: "generate_address 5 0 \<noteq> 2 ^ 200"
  proof
    assume "generate_address 5 0 = 2 ^ 200"
    then have "unat (generate_address 5 0) = 2 ^ 200" by simp
    then show False using generate_address_bound [of 5 0] by simp
  qed
  let ?p = "(new_proc \<lparr>currentBlock = example_block,
        accounts = [2 ^ 200 \<mapsto> (new_SimpleAccount 5 10 [], Map.empty)]\<rparr> example_tx None)
        \<lparr>p_ctxts := [(new_Context 7 (2 ^ 200) [] 0 (new_Program [OP_CREATE]) OuterHandlers False)\<lparr>c_s := [3, 0, 0]\<rparr>]\<rparr>"
  show ?thesis
    using create_mints [of ?p "(new_Context 7 (2 ^ 200) [] 0 (new_Program [OP_CREATE]) OuterHandlers False)\<lparr>c_s := [3, 0, 0]\<rparr>"
       "[]" 3 0 0 "[]" "fresh_acct 5 10 []" "generate_address 5 0" "\<lambda>_. 0" "\<lambda>_. ([], [])" "\<lambda>_. False"] ne
    by (simp add: pc_valid_def simple_view_def simple_acct_new example_env_def fresh_acct_def Let_def)
qed

text \<open>
  The outermost context executes its first instruction twice: a context starts with the mark
  that its program counter was just set, so the first step after the first instruction only removes
  the mark.  The trace of a program that pushes its caller and stops shows it.
\<close>

lemma first_instruction_twice:
  assumes "acc_get_code (env_ops env) callee gs = (Inr [OP_CALLER, OP_STOP], gs)" and "3 \<le> n"
  shows "\<exists>r p. run env n tx caller callee input v (Some []) gs = Some (r, p) \<and>
    p_tr p = Some [\<lparr>te_pc = 0, te_op = OP_CALLER, te_call_depth = 1, te_s = []\<rparr>,
      \<lparr>te_pc = 0, te_op = OP_CALLER, te_call_depth = 1, te_s = [caller]\<rparr>,
      \<lparr>te_pc = 1, te_op = OP_STOP, te_call_depth = 1, te_s = [caller, caller]\<rparr>]" (is "\<exists>r p. _ \<and> p_tr p = ?T")
proof -
  obtain k where k: "n = Suc (Suc (Suc k))" using assms(2) less_imp_Suc_add [of 2 n] by (auto simp: numeral_2_eq_2)
  note step = try_dispatch_inr dispatch_run switch_cases pc_valid_def opcodes
  let ?p = "(new_proc gs tx (Some []))\<lparr>p_ctxts := [new_Context caller callee input v (new_Program [OP_CALLER, OP_STOP]) OuterHandlers False]\<rparr>"
  obtain q where q: "run_loop env n ?p = Some (Inr (), q)" "p_ctxts q = []" "p_tr q = ?T"
    by (simp add: k run_loop_go run_loop_stop step op_caller_run op_stop_run step_ctxt_def step_def traced_def get_call_depth_def)
  show ?thesis using finish_trace [OF q(2), of env] q(3) by (cases "finish env q") (simp add: run_eq [OF assms(1)] q(1))
qed

end
