(* ===== verification/Straight.thy ===== *)
theory Straight
  imports Runs
begin

text \<open>
  Termination of straight-line code: a program without jumps, calls and creations ends, within as
  many iterations of the interpreter loop as it has bytes, and two more.

  Every other instruction keeps the program counter of its context (\<open>same_pc\<close>), or moves it
  forward when it is a push (\<open>advanced\<close>); it leaves at most the one context it runs in
  (\<open>alone\<close>).  Both are shown with the rules for \<open>keeps\<close>, instruction by instruction.
\<close>

section \<open>Notions\<close>

definition straight :: "byte \<Rightarrow> bool" where
  "straight op \<longleftrightarrow> op \<notin> {OP_JUMP, OP_JUMPI, OP_CALL, OP_CALLCODE, OP_DELEGATECALL, OP_STATICCALL, OP_CREATE, OP_CREATE2}"

definition same_pc :: "Context \<Rightarrow> Context \<Rightarrow> bool" where
  "same_pc c d \<longleftrightarrow> c_pc d = c_pc c \<and> c_pc_changed d = c_pc_changed c \<and> c_prog d = c_prog c \<and> c_handlers d = c_handlers c"

definition alone :: "Context \<Rightarrow> 'g proc \<Rightarrow> bool" where
  "alone c p \<longleftrightarrow> p_ctxts p = [] \<or> (\<exists>d. p_ctxts p = [d] \<and> same_pc c d)"

definition advanced :: "Context \<Rightarrow> Context \<Rightarrow> bool" where
  "advanced c d \<longleftrightarrow> c_prog d = c_prog c \<and> c_handlers d = c_handlers c \<and>
    (c_pc d = c_pc c \<and> c_pc_changed d = c_pc_changed c \<or> c_pc_changed d \<and> unat (c_pc c) < unat (c_pc d))"

named_theorems pc_rules \<open>actions that keep the program counter\<close>

named_theorems alone_rules \<open>actions of the processor that keep the program counter of the only context\<close>

section \<open>Actions on a context\<close>

lemma pc_on_stack [pc_rules]: "keeps (same_pc c) (on_stack m)"
  by (simp add: keeps_def same_pc_def on_stack_def zoom_run split: prod.splits)

lemma pc_on_mem [pc_rules]: "keeps (same_pc c) (on_mem m)"
  by (simp add: keeps_def same_pc_def on_mem_def zoom_run split: prod.splits)

lemma pc_return_data [pc_rules]: "keeps (same_pc c) (upd (\<lambda>c. c\<lparr>c_return_data := x\<rparr>))"
  by (simp add: keeps_def same_pc_def)

lemma pc_get_op [pc_rules]: "keeps (same_pc c) get_op"
  by (simp add: keeps_def get_op_def)

lemma pc_of_sum [pc_rules]: "keeps P (of_sum x)"
  by (simp add: keeps_def of_sum_def split: sum.splits)

lemma pc_safeAdd [pc_rules]: "keeps P (safeAdd x y)"
  by (simp add: safeAdd_def keeps_def Let_def)

lemma pc_pop_addr [pc_rules]: "keeps (same_pc c) pop_addr"
  unfolding pop_addr_def by (intro pc_rules keeps_rules)

lemma pc_copy_mem [pc_rules]: "keeps (same_pc c) (copy_mem src pad)"
  unfolding copy_mem_def by (intro pc_rules keeps_rules)

lemma pc_nops [pc_rules]:
  "keeps (same_pc c) (unop f)" "keeps (same_pc c) (binop f2)" "keeps (same_pc c) (terop f3)"
  unfolding unop_def binop_def terop_def by (intro pc_rules keeps_rules)+

lemma pc_arith: "dispatch_arith op = Some m \<Longrightarrow> keeps (same_pc c) m"
  by (auto simp: dispatch_arith_def op_defs Let_def intro!: pc_rules keeps_rules split: if_splits)

lemma pc_ops [pc_rules]:
  "keeps (same_pc c) op_pop" "keeps (same_pc c) op_swap" "keeps (same_pc c) op_dup"
  "keeps (same_pc c) op_pc" "keeps (same_pc c) op_msize" "keeps (same_pc c) op_mload" "keeps (same_pc c) op_mstore"
  "keeps (same_pc c) op_mstore8" "keeps (same_pc c) op_codecopy" "keeps (same_pc c) op_returndatasize"
  "keeps (same_pc c) op_returndatacopy" "keeps (same_pc c) op_caller" "keeps (same_pc c) op_callvalue"
  "keeps (same_pc c) op_calldataload" "keeps (same_pc c) op_calldatasize" "keeps (same_pc c) op_calldatacopy"
  "keeps (same_pc c) op_jumpdest" "keeps (same_pc c) op_number" "keeps (same_pc c) op_coinbase"
  "keeps (same_pc c) op_prevrandao" "keeps (same_pc c) op_gaslimit" "keeps (same_pc c) op_chanid"
  "keeps (same_pc c) op_basefee" "keeps (same_pc c) op_sha3" "keeps (same_pc c) op_revert"
  by (auto simp: op_defs op_pop_def op_swap_def op_dup_def op_pc_def op_msize_def op_mload_total op_mstore_total
    op_mstore8_total op_codecopy_def op_returndatasize_def op_returndatacopy_def op_caller_def op_callvalue_def
    op_calldataload_def op_calldatasize_def op_calldatacopy_def op_jumpdest_def op_number_def op_coinbase_def
    op_prevrandao_def op_gaslimit_def op_chanid_def op_basefee_def op_sha3_total op_revert_def
    intro!: pc_rules keeps_rules)

text \<open>Actions of the processor.\<close>

lemma alone_in_ctxt [alone_rules]: "keeps (same_pc c) m \<Longrightarrow> keeps (alone c) (in_ctxt m)"
  by (fastforce simp: keeps_def alone_def in_ctxt_def split: list.splits prod.splits)

lemma alone_in_gs [alone_rules]: "keeps (alone c) (in_gs m)"
  by (simp add: keeps_def alone_def in_gs_def zoom_run split: prod.splits)

lemma alone_in_parent [alone_rules]: "keeps (same_pc c) m \<Longrightarrow> keeps (alone c) (in_parent k m)"
  by (fastforce simp: keeps_def alone_def in_parent_def Let_def split: prod.splits)

lemma alone_pop_context [alone_rules]: "keeps (alone c) pop_context"
  by (auto simp: keeps_def alone_def pop_context_def split: list.splits)

lemma alone_tick [alone_rules]: "keeps (alone c) (now env)" "keeps (alone c) (junk env)"
  by (auto simp: keeps_def alone_def now_def junk_def)

lemma alone_reading [alone_rules]: "keeps (alone c) ctxt_as" "keeps (alone c) (not_static what)"
  unfolding ctxt_as_def not_static_def by (intro alone_rules keeps_rules)+

lemma alone_result [alone_rules]:
  "keeps (alone c) (upd (\<lambda>p. p\<lparr>p_result := f p\<rparr>))" "keeps (alone c) (upd (\<lambda>p. p\<lparr>p_tx := g p\<rparr>))"
  by (simp_all add: keeps_def alone_def)

lemma alone_handlers [alone_rules]:
  "keeps (alone c) (return_handler env h out)" "keeps (alone c) (halt_handler h)" "keeps (alone c) (exception_handler h t msg)"
  by (cases h; auto intro!: alone_rules keeps_rules pc_rules)+


lemma alone_stop [alone_rules]: "keeps (alone c) op_stop"
  unfolding op_stop_def by (intro alone_rules keeps_rules)

lemma alone_pop_addr_code [alone_rules]: "keeps (alone c) (pop_addr_code env)"
  unfolding pop_addr_code_def by (intro alone_rules keeps_rules pc_rules)

lemma alone_ops [alone_rules]:
  "keeps (alone c) (op_sload env)" "keeps (alone c) (op_sstore env)" "keeps (alone c) (op_extcodesize env)"
  "keeps (alone c) (op_extcodecopy env)" "keeps (alone c) (op_extcodehash env)" "keeps (alone c) (op_codesize env)"
  "keeps (alone c) (op_address env)" "keeps (alone c) (op_balance env)" "keeps (alone c) (op_selfbalance env)"
  "keeps (alone c) op_origin" "keeps (alone c) op_gasprice" "keeps (alone c) op_gas" "keeps (alone c) (op_timestamp env)"
  "keeps (alone c) (op_blockhash env)" "keeps (alone c) (op_log env)" "keeps (alone c) (op_return env)"
  "keeps (alone c) (op_selfdestruct env)" "keeps (alone c) (unknown_opcode env op)"
  unfolding op_sload_def op_sstore_def op_extcodesize_def op_extcodecopy_def op_extcodehash_def op_codesize_def
    op_address_def op_balance_def op_selfbalance_def op_origin_def op_gasprice_def op_gas_def op_timestamp_def
    op_blockhash_def op_log_def op_return_def op_selfdestruct_def unknown_opcode_def Let_def
  by (intro alone_rules keeps_rules pc_rules)+

lemma alone_trace [alone_rules]: "alone c p \<Longrightarrow> alone c (traced d op p)"
  by (simp add: alone_def)

lemma alone_switch:
  assumes "straight op" and "\<not> (OP_PUSH0 \<le> op \<and> op \<le> OP_PUSH32)"
  shows "keeps (alone c) (switch env op)"
proof -
  have "keeps (alone c) m" if "dispatch_stack env op = Some m" for m
    using that assms(2) by (auto simp: dispatch_stack_def split: if_splits intro!: alone_rules pc_rules)
  moreover have "keeps (alone c) (in_ctxt m)" if "dispatch_arith op = Some m" for m
    using pc_arith [OF that] by (rule alone_in_ctxt)
  moreover have "keeps (alone c) m" if "dispatch_mem env op = Some m" for m
    using that assms(1) by (auto simp: dispatch_mem_def straight_def split: if_splits intro!: alone_rules pc_rules)
  moreover have "keeps (alone c) m" if "dispatch_env env op = Some m" for m
    using that by (auto simp: dispatch_env_def split: if_splits intro!: alone_rules pc_rules)
  moreover have "keeps (alone c) m" if "dispatch_system env op = Some m" for m
    using that assms(1) by (auto simp: dispatch_system_def straight_def split: if_splits intro!: alone_rules pc_rules)
  ultimately show ?thesis
    by (auto simp: switch_def split: option.splits intro!: alone_ops(18))
qed


lemma unat_plus_one: "unat w + 1 < 2 ^ 64 \<Longrightarrow> unat (w + 1) = unat w + 1" for w :: u64
  by (simp add: unat_word_ariths)

lemma op_push_advanced:
  assumes "pc_valid c" and "length (prog_code (c_prog c)) < 2 ^ 64"
  shows "advanced c (snd (op_push c))"
proof -
  let ?op = "prog_code (c_prog c) ! unat (c_pc c)" and ?pc = "c_pc c"
  let ?n = "ucast (?op - OP_PUSH1 + 1) :: u64"
  have lt: "unat ?pc < unat (?pc + 1 + ?n)"
    if "\<not> ?pc + ?n < ?pc" "unat (?pc + ?n) < length (prog_code (c_prog c))"
  proof -
    have "unat (?pc + ?n + 1) = unat (?pc + ?n) + 1"
      using that(2) assms(2) by (intro unat_plus_one) simp
    moreover have "unat ?pc \<le> unat (?pc + ?n)" using that(1) by (simp add: word_le_nat_alt not_less)
    ultimately show ?thesis unfolding add.assoc [of ?pc 1] add.commute [of 1 ?n] add.assoc [symmetric] by linarith
  qed
  have st: "snd (s_push v c) = c \<or> (\<exists>s. s_push v c = (Inr (), c\<lparr>c_s := s\<rparr>))" for v
    by (cases "length (c_s c) = 1024") (auto simp: ctx_run stack_push_full)
  have imm: "advanced c (snd (andthen (s_push v) (upd (set_pc (?pc + 1 + ?n))) c))"
    if "\<not> ?pc + ?n < ?pc" "unat (?pc + ?n) < length (prog_code (c_prog c))" for v
    using lt [OF that] by (cases "length (c_s c) = 1024")
      (simp_all add: ctx_run stack_push_full advanced_def set_pc_def)
  have self: "advanced c c" by (simp add: advanced_def)
  show ?thesis
    using imm self by (simp add: op_push_total bind_run get_op_run [OF assms(1)] get_pc_def Let_def del: not_less)
qed

lemma straight_dispatch:
  assumes "p_ctxts p = [c]" and "pc_valid c" and "length (prog_code (c_prog c)) < 2 ^ 64"
    and "straight (prog_code (c_prog c) ! unat (c_pc c))" and "dispatch env p = (r, q)"
  shows "p_ctxts q = [] \<or> (\<exists>d. p_ctxts q = [d] \<and> advanced c d)"
proof (cases "OP_PUSH0 \<le> prog_code (c_prog c) ! unat (c_pc c) \<and> prog_code (c_prog c) ! unat (c_pc c) \<le> OP_PUSH32")
  case True
  then have "switch env (prog_code (c_prog c) ! unat (c_pc c)) = in_ctxt op_push"
    by (simp add: switch_def dispatch_stack_def)
  then show ?thesis
    using dispatch_run [OF assms(1,2) HOL.refl, of env] op_push_advanced [OF assms(2,3)] assms(1,5)
    by (auto simp: in_ctxt_def split: prod.splits)
next
  case False
  have "alone c p" using assms(1) by (simp add: alone_def same_pc_def)
  then have "alone c q"
    using keepsD [OF alone_switch [OF assms(4) False, of c env], OF alone_trace]
      dispatch_run [OF assms(1,2) HOL.refl, of env] assms(5) by (metis snd_conv)
  then show ?thesis by (auto simp: alone_def same_pc_def advanced_def)
qed

lemma straight_try:
  assumes "p_ctxts q = [] \<or> (\<exists>d. p_ctxts q = [d] \<and> advanced c d)" and "c_handlers c = OuterHandlers"
    and "dispatch env p = (r, q)" and "try_dispatch env p = (r', q')"
  shows "(p_ctxts q' = [] \<and> r' = Inr ()) \<or> (\<exists>d. p_ctxts q' = [d] \<and> advanced c d \<and> r' = Inr ()) \<or> (\<exists>e. r' = Inl e)"
proof (cases "\<exists>t msg. r = Inl (Exception t msg)")
  case True
  then obtain t msg where "r = Inl (Exception t msg)" by blast
  then have "handle_exception t msg q = (r', q')" using assms(3,4) by (simp add: try_dispatch_def)
  with assms(1,2) show ?thesis
    by (auto simp: handle_exception_def bind_run in_ctxt_def pop_context_def advanced_def)
next
  case False
  then have "try_dispatch env p = (r, q)" using assms(3) by (auto simp: try_dispatch_def split: sum.splits exn.splits)
  then show ?thesis using assms(1,4) by (cases r) auto
qed

lemma straight_loop:
  assumes "p_ctxts p = [c]" and "c_handlers c = OuterHandlers" and "length (prog_code (c_prog c)) < 2 ^ 64"
    and "\<forall>b \<in> set (prog_code (c_prog c)). straight b"
    and "length (prog_code (c_prog c)) - unat (c_pc c) + (if c_pc_changed c then 1 else 0) < n"
  shows "run_loop env n p \<noteq> None"
  using assms
proof (induction n arbitrary: p c)
  case (Suc n)
  show ?case
  proof (cases "pc_valid c")
    case False
    then show ?thesis using Suc.prems(1) by (simp add: run_loop.simps(2) pc_valid_def get_pc_def)
  next
    case True
    obtain r q where d: "dispatch env p = (r, q)" by (cases "dispatch env p")
    have st: "straight (prog_code (c_prog c) ! unat (c_pc c))"
      using True Suc.prems(4) by (simp add: pc_valid_def)
    obtain r' q' where t: "try_dispatch env p = (r', q')" by (cases "try_dispatch env p")
    consider "p_ctxts q' = []" "r' = Inr ()" | d where "p_ctxts q' = [d]" "advanced c d" "r' = Inr ()" | e where "r' = Inl e"
      using straight_try [OF straight_dispatch [OF Suc.prems(1) True Suc.prems(3) st d] Suc.prems(2) d t] by blast
    then show ?thesis
    proof cases
      case 1
      then show ?thesis using run_loop_stop [OF Suc.prems(1) True, of env q'] t by simp
    next
      case (2 d)
      let ?e = "Contexts.step d"
      have e: "p_ctxts (step_ctxt q') = [?e]" "c_handlers ?e = OuterHandlers" "c_prog ?e = c_prog c"
        using 2 Suc.prems(2) by (simp_all add: step_ctxt_def Contexts.step_def advanced_def)
      have "length (prog_code (c_prog c)) - unat (c_pc ?e) + (if c_pc_changed ?e then 1 else 0) < n"
        using 2(2) Suc.prems(3,5) True unat_plus_one [of "c_pc d"]
        by (auto simp: Contexts.step_def advanced_def pc_valid_def split: if_splits)
      then have "run_loop env n (step_ctxt q') \<noteq> None"
        using Suc.IH [OF e(1,2)] Suc.prems(3,4) e(3) by simp
      then show ?thesis using run_loop_go [OF Suc.prems(1) True, of env q'] t 2 by simp
    next
      case (3 e)
      then show ?thesis using run_loop_fail [OF Suc.prems(1) True, of env e q'] t by simp
    qed
  qed
qed simp



section \<open>Properties\<close>

text \<open>
  Claim C3.  A program without jumps, calls and creations terminates: whatever the world answers, the
  run returns a result or throws, and the loop takes at most as many iterations as the code has
  bytes, and two more.
\<close>

theorem straight_line_terminates:
  assumes "acc_get_code (env_ops env) callee gs = (Inr code, g)" and "length code < 2 ^ 64"
    and "\<forall>b \<in> set code. straight b" and "length code + 1 < n"
  shows "\<exists>r q. run env n tx caller callee input v tr gs = Some (r, q)"
proof -
  let ?p = "(new_proc g tx tr)\<lparr>p_ctxts := [new_Context caller callee input v (new_Program code) OuterHandlers False]\<rparr>"
  obtain s q where "run_loop env n ?p = Some (s, q)"
    using straight_loop [of ?p "new_Context caller callee input v (new_Program code) OuterHandlers False" n env] assms(2-4)
    by auto
  then show ?thesis by (cases s) (auto simp: run_eq [OF assms(1)])
qed

theorem straight_line_terminates_witness:
  "\<exists>r q. run example_env 6 example_tx 7 1 [] 0 None (example_world [OP_PUSH1, 7, OP_POP, OP_STOP]) = Some (r, q)"
  by (rule straight_line_terminates [of _ _ _ "[OP_PUSH1, 7, OP_POP, OP_STOP]" "example_world [OP_PUSH1, 7, OP_POP, OP_STOP]"])
    (simp_all add: example_env_def example_world_def simple_ops_def ask_entry_def new_SimpleAccount_def straight_def opcodes)

end
