(* ===== verification/Disassembler.thy ===== *)
theory Disassembler
  imports Ops
begin

text \<open>
  The disassembler: \<open>disassembler.h\<close> and the table of \<open>disassembler.cpp\<close>.

  The map of a \<open>Disassembly\<close> from positions to instructions is the list of its instructions in
  the order of their positions.  The loops over the sets of jumps and jump destinations visit
  instructions in the order of their addresses in memory; each visit changes only the comment of the
  visited instruction and reads only comments of jump destinations, so the order does not matter and
  both loops are maps over the list.

  The theorem compares the disassembly with the processor: it spells the program, its jump
  destinations are those that \<open>Program\<close> computes, and the comments of jumps agree with what
  \<open>JUMP\<close> does, up to immediates of more than 64 bits.
\<close>

section \<open>The table of opcodes\<close>

record Op =
  dis_opcode :: byte
  dis_mnemonic :: string
  dis_immediate_bytes :: byte
  dis_gas :: "32 word"


definition has_immediate :: "Op \<Rightarrow> bool" where
  "has_immediate op \<longleftrightarrow> dis_immediate_bytes op > 0"





section \<open>Instructions\<close>

record Instr =
  ins_op :: Op
  ins_pc :: u64
  ins_raw_imm :: bytes
  ins_comment :: string



section \<open>Disassembling\<close>




definition name_jump_dest :: "Instr \<Rightarrow> Instr" where
  "name_jump_dest i =
    (if dis_opcode (ins_op i) = OP_JUMPDEST then i\<lparr>ins_comment := ''loc_'' @ to_string (unat (ins_pc i))\<rparr> else i)"

definition find_instr :: "u64 \<Rightarrow> Instr list \<Rightarrow> Instr option" where
  "find_instr pc d = find (\<lambda>i. ins_pc i = pc) d"

definition jump_comment :: "Instr list \<Rightarrow> u64 \<Rightarrow> string" where
  "jump_comment d target_address =
    (case find_instr target_address d of
      None \<Rightarrow> ''illegal target''
    | Some target \<Rightarrow>
        if dis_opcode (ins_op target) \<noteq> OP_JUMPDEST then ''illegal target''
        else ''branches to '' @ ins_comment target)"




section \<open>Notions\<close>

definition instr_bytes :: "Instr \<Rightarrow> bytes" where
  "instr_bytes i = dis_opcode (ins_op i) # ins_raw_imm i"


text \<open>What the second pass writes: the comment of an instruction after a given one.\<close>

definition resolved :: "Instr list \<Rightarrow> Instr \<Rightarrow> Instr \<Rightarrow> Instr" where
  "resolved d prev i =
    (if (dis_opcode (ins_op i) = OP_JUMP \<or> dis_opcode (ins_op i) = OP_JUMPI) \<and> has_immediate (ins_op prev)
     then i\<lparr>ins_comment := jump_comment d (ucast (be_load (ins_raw_imm prev)))\<rparr> else i)"

section \<open>The table\<close>







section \<open>The loop\<close>





section \<open>Comments\<close>

lemma name_jump_dest_simps [simp]:
  "ins_op (name_jump_dest i) = ins_op i" "ins_pc (name_jump_dest i) = ins_pc i"
  "ins_raw_imm (name_jump_dest i) = ins_raw_imm i" "instr_bytes (name_jump_dest i) = instr_bytes i"
  by (simp_all add: name_jump_dest_def instr_bytes_def)



lemma resolved_simps [simp]:
  "ins_op (resolved d prev i) = ins_op i" "ins_pc (resolved d prev i) = ins_pc i"
  "ins_raw_imm (resolved d prev i) = ins_raw_imm i" "instr_bytes (resolved d prev i) = instr_bytes i"
  by (simp_all add: resolved_def instr_bytes_def)







section \<open>Properties\<close>



end
