(* ===== verification/Json.thy ===== *)
theory Json
  imports Prelude
begin

text \<open>
  The part of the JSON library (\<open>nlohmann/json.hpp\<close>) that the sources use: values, lookup in
  objects, and conversion to the types of C++.  Numbers are integers; the sources read no fractions.
  A failed conversion throws \<open>type_error\<close>.  Reading a missing key with the constant index
  operator fails an assertion of the library.
\<close>

section \<open>Values\<close>

datatype json =
    JNull
  | JBool bool
  | JNumber int
  | JString string
  | JArray "json list"
  | JObject "(string \<times> json) list"

fun type_name :: "json \<Rightarrow> string" where
  "type_name JNull = ''null''"
| "type_name (JBool b) = ''boolean''"
| "type_name (JNumber i) = ''number''"
| "type_name (JString s) = ''string''"
| "type_name (JArray xs) = ''array''"
| "type_name (JObject kvs) = ''object''"

fun is_null :: "json \<Rightarrow> bool" where
  "is_null JNull = True"
| "is_null _ = False"

fun is_string :: "json \<Rightarrow> bool" where
  "is_string (JString s) = True"
| "is_string _ = False"

fun is_object :: "json \<Rightarrow> bool" where
  "is_object (JObject kvs) = True"
| "is_object _ = False"

section \<open>Access\<close>

definition type_error :: "string \<Rightarrow> string \<Rightarrow> exn" where
  "type_error num what = JsonException (''[json.exception.type_error.'' @ num @ ''] '' @ what)"

definition wrong_type :: "string \<Rightarrow> json \<Rightarrow> exn" where
  "wrong_type want j = type_error ''302'' (''type must be '' @ want @ '', but is '' @ type_name j)"

fun json_at :: "json \<Rightarrow> string \<Rightarrow> exn + json" where
  "json_at (JObject kvs) key =
    (case map_of kvs key of
      None \<Rightarrow> Inl (AssertionFailure ''m_value.object->find(key) != m_value.object->end()'')
    | Some v \<Rightarrow> Inr v)"
| "json_at j key = Inl (type_error ''305'' (''cannot use operator[] with a string argument with '' @ type_name j))"

text \<open>\<open>find\<close>; a value that is not an object has no keys.\<close>

fun json_find :: "json \<Rightarrow> string \<Rightarrow> json option" where
  "json_find (JObject kvs) key = map_of kvs key"
| "json_find _ key = None"

fun get_size_t :: "json \<Rightarrow> exn + u64" where
  "get_size_t (JNumber i) = Inr (word_of_int i)"
| "get_size_t j = Inl (wrong_type ''number'' j)"

fun get_bool :: "json \<Rightarrow> exn + bool" where
  "get_bool (JBool b) = Inr b"
| "get_bool j = Inl (wrong_type ''boolean'' j)"

fun get_string :: "json \<Rightarrow> exn + string" where
  "get_string (JString s) = Inr s"
| "get_string j = Inl (wrong_type ''string'' j)"

fun get_array :: "json \<Rightarrow> exn + json list" where
  "get_array (JArray xs) = Inr xs"
| "get_array j = Inl (wrong_type ''array'' j)"

section \<open>Lemmas\<close>

lemma size_map_of: "map_of kvs k = Some v \<Longrightarrow> size v < size (JObject kvs)"
proof -
  assume "map_of kvs k = Some v"
  then have "(k, v) \<in> set kvs" by (rule map_of_SomeD)
  then have "size_prod (\<lambda>_. 0) size (k, v) \<le> size_list (size_prod (\<lambda>_. 0) size) kvs"
    by (rule size_list_estimation') simp
  then show ?thesis by simp
qed

lemma size_json_at: "json_at j key = Inr v \<Longrightarrow> size v < size j"
  using size_map_of by (cases j) (auto split: option.splits)

lemma json_at_object: "json_at j key = Inr v \<Longrightarrow> is_object j"
  by (cases j) auto

end
