(* ===== verification/AbiTypes.thy ===== *)
theory AbiTypes
  imports Json Util
begin

text \<open>
  Type descriptions of the contract ABI and byte helpers: \<open>abi/common.h\<close>,
  \<open>abi/nljsontypes.h\<close>, \<open>abi/parse_types.h\<close> and \<open>abi/utils.h\<close> of \<open>src/tee/src\<close>.

  A type is described by a JSON object; \<open>parse_types\<close> turns it into a \<open>base_type\<close>.  The type
  \<open>size_t\<close> is a 64-bit word where it comes from JSON, and the length of a vector is a natural
  number.  \<open>alignSize\<close> computes with floating-point numbers, exactly for sizes below
  \<open>2 ^ 53\<close>, so it is integer arithmetic here.
\<close>

section \<open>Constants and data\<close>

definition ADDRESS :: string where "ADDRESS = ''address''"

definition UINT :: string where "UINT = ''uint''"

definition INT_NAME :: string where "INT_NAME = ''int''"

definition BOOL :: string where "BOOL = ''bool''"

definition STRING :: string where "STRING = ''string''"

definition BYTES :: string where "BYTES = ''bytes''"

definition FIXED :: string where "FIXED = ''fixed''"

definition UFIXED :: string where "UFIXED = ''ufixed''"

record PackParams =
  pp_Dynamic :: bool
  pp_data :: bytes

record abiParams =
  abi_name :: string
  abi_type :: string

datatype type_value = TV_FOUNDNOT | TV_ADDRESS | TV_BOOL | TV_BYTES | TV_STRING | TV_NUMBER | TV_ARRAY

text \<open>The table of \<open>NLOHMANN_JSON_SERIALIZE_ENUM\<close>; an unknown name reads as the first entry.\<close>

definition type_value_table :: "(type_value \<times> string) list" where
  "type_value_table =
    [(TV_FOUNDNOT, ''null''), (TV_ADDRESS, ''address''), (TV_BOOL, ''bool''), (TV_BYTES, ''bytes''),
     (TV_STRING, ''string''), (TV_NUMBER, ''number''), (TV_ARRAY, ''array'')]"

definition type_value_to_json :: "type_value \<Rightarrow> json" where
  "type_value_to_json e =
    (case find (\<lambda>p. fst p = e) type_value_table of
      None \<Rightarrow> JString (snd (hd type_value_table)) | Some p \<Rightarrow> JString (snd p))"

definition type_value_from_json :: "json \<Rightarrow> type_value" where
  "type_value_from_json j =
    (case find (\<lambda>p. JString (snd p) = j) type_value_table of
      None \<Rightarrow> fst (hd type_value_table) | Some p \<Rightarrow> fst p)"

record base_type =
  bt_name :: json
  bt_length :: u64
  bt_dynamic :: bool
  bt_type :: type_value

record number_type =
  nt_type :: type_value
  nt_bit_size :: u64
  nt_Signed :: bool

definition new_number_type :: "u64 \<Rightarrow> bool \<Rightarrow> number_type" where
  "new_number_type bits Signed = \<lparr>nt_type = TV_NUMBER, nt_bit_size = bits, nt_Signed = Signed\<rparr>"

definition number_type_value :: "number_type \<Rightarrow> base_type" where
  "number_type_value s =
    \<lparr>bt_name = JString (if nt_Signed s then ''int'' else ''uint''), bt_length = nt_bit_size s,
     bt_dynamic = False, bt_type = nt_type s\<rparr>"

record array_type =
  at_type :: type_value
  at_len :: "u64 option"
  at_next :: json

definition new_array_type :: "json \<Rightarrow> u64 \<Rightarrow> array_type" where
  "new_array_type j col = \<lparr>at_type = TV_ARRAY, at_len = Some col, at_next = j\<rparr>"

definition value_or :: "u64 option \<Rightarrow> u64 \<Rightarrow> u64" where
  "value_or x d = (case x of None \<Rightarrow> d | Some v \<Rightarrow> v)"

definition array_type_value :: "array_type \<Rightarrow> base_type" where
  "array_type_value s =
    \<lparr>bt_name = at_next s, bt_length = value_or (at_len s) 0, bt_dynamic = (at_len s = None), bt_type = at_type s\<rparr>"

text \<open>The member \<open>dynamic\<close> of \<open>common_type\<close> is never read and left out.\<close>

record common_type =
  ct_type :: type_value
  ct_len :: "u64 option"

definition new_common_type :: "json \<Rightarrow> u64 \<Rightarrow> common_type" where
  "new_common_type t len = \<lparr>ct_type = type_value_from_json t, ct_len = Some len\<rparr>"

definition cant_parse :: exn where
  "cant_parse = StdException LogicError ''can`t parsing''"

definition common_type_value :: "common_type \<Rightarrow> exn + base_type" where
  "common_type_value s =
    (case ct_type s of
      TV_ADDRESS \<Rightarrow> Inr \<lparr>bt_name = type_value_to_json (ct_type s), bt_length = 0, bt_dynamic = False, bt_type = ct_type s\<rparr>
    | TV_BOOL \<Rightarrow> Inr \<lparr>bt_name = type_value_to_json (ct_type s), bt_length = 0, bt_dynamic = False, bt_type = ct_type s\<rparr>
    | TV_BYTES \<Rightarrow> Inr \<lparr>bt_name = type_value_to_json (ct_type s), bt_length = value_or (ct_len s) 0,
        bt_dynamic = True, bt_type = ct_type s\<rparr>
    | TV_STRING \<Rightarrow> Inr \<lparr>bt_name = type_value_to_json (ct_type s), bt_length = value_or (ct_len s) 0,
        bt_dynamic = True, bt_type = ct_type s\<rparr>
    | _ \<Rightarrow> Inl cant_parse)"

section \<open>JSON descriptions\<close>

text \<open>\<open>require_object\<close>; its message also contains the value, which is left out.\<close>

definition require_object :: "json \<Rightarrow> exn + unit" where
  "require_object j = (if is_object j then Inr () else Inl (StdException InvalidArgument ''Expected object, got: ''))"

definition optional_len :: "json \<Rightarrow> exn + u64 option" where
  "optional_len j =
    (case json_find j ''len'' of
      None \<Rightarrow> Inr None
    | Some v \<Rightarrow> if is_null v then Inr None else tries (get_size_t v) (\<lambda>n. Inr (Some n)))"

definition array_type_from_json :: "json \<Rightarrow> exn + array_type" where
  "array_type_from_json j =
    tries (require_object j) (\<lambda>_.
    tries (json_at j ''type'') (\<lambda>t.
    tries (json_at j ''value_type'') (\<lambda>next.
    tries (optional_len j) (\<lambda>len.
    Inr \<lparr>at_type = type_value_from_json t, at_len = len, at_next = next\<rparr>))))"

definition len_entry :: "u64 option \<Rightarrow> (string \<times> json) list" where
  "len_entry len = (case len of None \<Rightarrow> [] | Some n \<Rightarrow> if n = 0 then [] else [(''len'', JNumber (uint n))])"

definition array_type_to_json :: "array_type \<Rightarrow> json" where
  "array_type_to_json s =
    JObject ([(''type'', type_value_to_json (at_type s)), (''value_type'', at_next s)] @ len_entry (at_len s))"

definition number_type_from_json :: "json \<Rightarrow> exn + number_type" where
  "number_type_from_json j =
    tries (require_object j) (\<lambda>_.
    tries (json_at j ''bit_size'') (\<lambda>b. tries (get_size_t b) (\<lambda>bit_size.
    tries (json_at j ''signed'') (\<lambda>s. tries (get_bool s) (\<lambda>Signed.
    tries (json_at j ''type'') (\<lambda>t.
    Inr \<lparr>nt_type = type_value_from_json t, nt_bit_size = bit_size, nt_Signed = Signed\<rparr>))))))"

definition number_type_to_json :: "number_type \<Rightarrow> json" where
  "number_type_to_json s =
    JObject [(''type'', type_value_to_json (nt_type s)), (''bit_size'', JNumber (uint (nt_bit_size s))),
      (''signed'', JBool (nt_Signed s))]"

definition common_type_from_json :: "json \<Rightarrow> exn + common_type" where
  "common_type_from_json j =
    tries (require_object j) (\<lambda>_.
    tries (json_at j ''type'') (\<lambda>t.
    tries (optional_len j) (\<lambda>len.
    Inr \<lparr>ct_type = type_value_from_json t, ct_len = len\<rparr>)))"

definition common_type_to_json :: "common_type \<Rightarrow> json" where
  "common_type_to_json s = JObject ([(''type'', type_value_to_json (ct_type s))] @ len_entry (ct_len s))"

section \<open>Parsing descriptions\<close>

text \<open>\<open>None\<close> is the null pointer.\<close>

definition parse_types :: "json \<Rightarrow> exn + base_type option" where
  "parse_types j =
    (if is_null j \<or> is_string j then Inr None
     else tries (json_at j ''type'') (\<lambda>t.
       case type_value_from_json t of
         TV_NUMBER \<Rightarrow> tries (number_type_from_json j) (\<lambda>v. Inr (Some (number_type_value v)))
       | TV_ARRAY \<Rightarrow> tries (array_type_from_json j) (\<lambda>v. Inr (Some (array_type_value v)))
       | TV_FOUNDNOT \<Rightarrow> Inl cant_parse
       | _ \<Rightarrow> tries (common_type_from_json j) (\<lambda>v. tries (common_type_value v) (\<lambda>b. Inr (Some b)))))"

definition deref_type :: "base_type option \<Rightarrow> exn + base_type" where
  "deref_type p = (case p of None \<Rightarrow> Inl (UndefinedBehaviour ''null type'') | Some b \<Rightarrow> Inr b)"

lemma parse_types_cases:
  assumes "parse_types j = Inr (Some b)"
  shows "is_string (bt_name b) \<and> bt_type b \<noteq> TV_ARRAY \<or> bt_type b = TV_ARRAY \<and> size (bt_name b) < size j"
proof -
  from assms obtain t where t: "json_at j ''type'' = Inr t"
    by (auto simp: parse_types_def tries_Inr split: if_splits)
  show ?thesis
  proof (cases "type_value_from_json t")
    case TV_ARRAY
    then show ?thesis using assms t size_json_at
      by (auto simp: parse_types_def tries_Inr array_type_from_json_def array_type_value_def split: if_splits)
  next
    case TV_NUMBER
    then show ?thesis using assms t
      by (auto simp: parse_types_def tries_Inr number_type_from_json_def number_type_value_def split: if_splits)
  qed (use assms t in \<open>auto simp: parse_types_def tries_Inr common_type_from_json_def common_type_value_def
      type_value_to_json_def type_value_table_def split: if_splits\<close>)
qed

function check_dynamic :: "json \<Rightarrow> exn + bool" where
  "check_dynamic j =
    tries (parse_types j) (\<lambda>p.
    tries (deref_type p) (\<lambda>v.
    if bt_dynamic v then Inr True
    else if is_string (bt_name v) \<or> is_null (bt_name v) then Inr False
    else check_dynamic (bt_name v)))"
  by pat_completeness auto
termination
proof (relation "measure size")
  fix j p v
  assume "parse_types j = Inr p" "deref_type p = Inr v" "\<not> (is_string (bt_name v) \<or> is_null (bt_name v))"
  then show "(bt_name v, j) \<in> measure size"
    using parse_types_cases [of j v] by (auto simp: deref_type_def split: option.splits)
qed simp

declare check_dynamic.simps [simp del]

section \<open>Helpers\<close>

definition ABIException :: "string \<Rightarrow> exn" where
  "ABIException msg = CloakException msg"

definition range_check :: exn where
  "range_check = StdException OutOfRange ''vector::_M_range_check''"

definition sub_vector :: "bytes \<Rightarrow> nat \<Rightarrow> nat \<Rightarrow> exn + bytes" where
  "sub_vector inputs first offset =
    (if offset > length inputs then
       Inl (ABIException (''Insufficient array length, want ['' @ to_string offset @ ''] get ['' @
         to_string (length inputs) @ '']''))
     else if first > offset then Inl (UndefinedBehaviour ''range that runs backwards'')
     else Inr (segment first (offset - first) inputs))"

definition alignSize :: "nat \<Rightarrow> nat" where
  "alignSize sz = 32 * ((sz + 31) div 32)"

definition to_array :: "bytes \<Rightarrow> bytes \<Rightarrow> nat \<Rightarrow> exn + bytes" where
  "to_array result v offset =
    (if v = [] \<or> offset + length v \<le> length result then Inr (write_at offset v result) else Inl range_check)"

text \<open>The case \<open>signal = false\<close>: from the last byte to the first, until the result is full.\<close>

definition to_array_reversed :: "bytes \<Rightarrow> bytes \<Rightarrow> nat \<Rightarrow> exn + bytes" where
  "to_array_reversed result v offset =
    (if offset \<ge> length result then Inr result
     else if length result - offset > length v then Inl range_check
     else Inr (take offset result @ take (length result - offset) (rev v)))"

definition to_array_byte :: "bytes \<Rightarrow> byte \<Rightarrow> nat \<Rightarrow> exn + bytes" where
  "to_array_byte result v offset = (if offset < length result then Inr (result[offset := v]) else Inl range_check)"

fun to_bytes_loop :: "string \<Rightarrow> nat \<Rightarrow> bytes \<Rightarrow> exn + bytes" where
  "to_bytes_loop [] offset h = Inr h"
| "to_bytes_loop s offset h =
    (if offset \<ge> length h then
       Inl (ABIException ''Handle encoding string to uint8 array error, offset out of maximum range 32'')
     else to_bytes_loop (drop 2 s) (offset + 1) (h[offset := ucast (strtoull16 (take 2 s))]))"

definition abi_to_bytes :: "string \<Rightarrow> nat \<Rightarrow> bool \<Rightarrow> exn + bytes" where
  "abi_to_bytes str offset boolean =
    (let s = strip str
     in if length s > 64 then
          Inl (ABIException (''Invalid length, want 32 but get '' @ to_string (length s)))
        else
          let h = (if boolean then replicate 32 0 else replicate ((length s + 1) div 2) 0)
          in if s = [] then Inr h
             else if offset > length h then Inl range_check
             else to_bytes_loop s offset h)"

definition bytes_strip :: "string \<Rightarrow> bytes" where
  "bytes_strip src = (if length src \<ge> 2 \<and> src ! 1 = CHR ''x'' then to_bytes src else bytes_of_string src)"

definition string_to_bytes :: "string \<Rightarrow> bytes" where
  "string_to_bytes s = bytes_of_string s"

section \<open>Descriptions of arrays\<close>

fun make_array_types :: "json \<Rightarrow> u64 list \<Rightarrow> json" where
  "make_array_types j [] = j"
| "make_array_types j (n # ns) = make_array_types (array_type_to_json (new_array_type j n)) ns"

definition make_array_type :: "json \<Rightarrow> u64 list \<Rightarrow> json" where
  "make_array_type j num = (if num = [] then array_type_to_json (new_array_type j 0) else make_array_types j num)"

text \<open>The arguments of the constructor are swapped in the source, and convert implicitly.\<close>

definition make_number_array :: "bool \<Rightarrow> u64 \<Rightarrow> u64 list \<Rightarrow> json" where
  "make_number_array isSigned len num =
    make_array_type (number_type_to_json (new_number_type (if isSigned then 1 else 0) (len \<noteq> 0))) num"

definition make_bytes_array :: "u64 \<Rightarrow> u64 list \<Rightarrow> json" where
  "make_bytes_array len num = make_array_type (common_type_to_json (new_common_type (JString ''bytes'') len)) num"

definition make_common_array :: "string \<Rightarrow> u64 list \<Rightarrow> json" where
  "make_common_array t num = make_array_type (common_type_to_json (new_common_type (JString t) 0)) num"

section \<open>Printing\<close>

definition split_abi_data :: "bytes \<Rightarrow> string list" where
  "split_abi_data data =
    (let count = length data div 32
     in map (\<lambda>i. to_hex_string_bytes (segment (i * 32) 32 data)) [0..<count] @
        (if length data mod 32 \<noteq> 0 then [to_hex_string_bytes (drop (count * 32) data)] else []))"

fun join :: "string \<Rightarrow> string list \<Rightarrow> string" where
  "join sep [] = []"
| "join sep [s] = s"
| "join sep (s # ss) = s @ sep @ join sep ss"

definition split_abi_data_to_str :: "bytes \<Rightarrow> string" where
  "split_abi_data_to_str data = join [CHR 10] (split_abi_data data)"

function get_static_array_size :: "json \<Rightarrow> exn + u64" where
  "get_static_array_size t =
    tries (json_at t ''type'') (\<lambda>ty.
    if ty \<noteq> JString ''array'' \<or> json_find t ''len'' = None then Inr 1
    else tries (json_at t ''len'') (\<lambda>l. tries (get_size_t l) (\<lambda>n.
      tries (json_at t ''value_type'') (\<lambda>u.
      tries (get_static_array_size u) (\<lambda>m. Inr (n * m))))))"
  by pat_completeness auto
termination
  by (relation "measure size") (auto dest: size_json_at)

declare get_static_array_size.simps [simp del]

end
