(* ===== verification/AbiCoder.thy ===== *)
theory AbiCoder
  imports AbiTypes
begin

text \<open>
  The coders of the contract ABI: \<open>abi/types/type.h\<close>, \<open>abi/types/array.h\<close>,
  \<open>abi/coder.h\<close>, \<open>abi/encoder.h\<close> and \<open>abi/decoder.h\<close> of \<open>src/tee/src\<close>.

  The classes below \<open>Type\<close> are the constructors of the datatype \<open>coder\<close>, with their members.
  A method that changes its object returns the changed coder.  Encoding an array makes one coder per
  element and keeps them in its parameters; encoding it again adds them a second time.
\<close>

section \<open>Coders\<close>

text \<open>
  \<open>DynamicArray\<close> passes \<open>dynamicType()\<close>, which is true, to the constructor of its base class,
  and \<open>StaticArray\<close> passes false; so the member \<open>isDynamicType\<close> is the constructor here.
\<close>

definition MAX_BIT_LENGTH :: nat where
  "MAX_BIT_LENGTH = 256"

definition MAX_BYTE_LENGTH :: nat where
  "MAX_BYTE_LENGTH = MAX_BIT_LENGTH div 8"

datatype coder =
    Address bytes
  | NumericType string u256
  | Boolean bool
  | Bytes u64 string bytes
  | DynamicBytes bytes
  | Utf8String bytes
  | DynamicArray json "json list" "coder list"
  | StaticArray json u64 bool "json list" "coder list"

definition no_space :: exn where
  "no_space = ABIException ''Input value length has no enough space''"

section \<open>Constructors\<close>

definition new_Address :: "string \<Rightarrow> exn + coder" where
  "new_Address v = tries (abi_to_bytes v 12 True) (\<lambda>bs. Inr (Address bs))"

definition calc_bitSize :: "u64 \<Rightarrow> u64" where
  "calc_bitSize sz = (if sz = 0 then word_of_nat MAX_BIT_LENGTH else sz)"

definition isValidBitSize :: "u64 \<Rightarrow> bool" where
  "isValidBitSize bitSize \<longleftrightarrow> bitSize mod 8 = 0 \<and> bitSize > 0 \<and> bitSize \<le> word_of_nat MAX_BIT_LENGTH"

definition parse_int :: "string \<Rightarrow> u64 \<Rightarrow> exn + string" where
  "parse_int typePrefix size0 =
    (let bitSize = calc_bitSize size0
     in if \<not> isValidBitSize bitSize then
          Inl (ABIException (''Bitsize must be 8 bit aligned, and in range 0 < bitSize <= '' @
            ''256, and in valid '' @ ''range.''))
        else if typePrefix = [] then Inr typePrefix
        else Inr (typePrefix @ to_string (unat bitSize)))"

definition new_IntType :: "u64 \<Rightarrow> u256 \<Rightarrow> string \<Rightarrow> exn + coder" where
  "new_IntType bitSize v typePrefix = tries (parse_int typePrefix bitSize) (\<lambda>t. Inr (NumericType t v))"

definition new_Int :: "string \<Rightarrow> u64 \<Rightarrow> exn + coder" where
  "new_Int v bitSize = tries (to_uint256 v) (\<lambda>x. new_IntType bitSize x INT_NAME)"

definition new_Uint :: "string \<Rightarrow> u64 \<Rightarrow> exn + coder" where
  "new_Uint v bitSize = tries (to_uint256 v) (\<lambda>x. new_IntType bitSize x UINT)"

text \<open>The index \<open>v[0]\<close> of an empty vector is undefined.\<close>

definition new_Boolean :: "string \<Rightarrow> exn + coder" where
  "new_Boolean str =
    (let v = to_bytes str
     in if length v > 1 then Inl (ABIException ''Input value length is greater than 1'')
        else if v = [] then Inl (UndefinedBehaviour ''index into an empty vector'')
        else if unat (v ! 0) > 1 then
          Inl (ABIException ''The input value exceeds the maximum range of the bool type'')
        else Inr (Boolean (unat (v ! 0) = 1)))"

definition isValid_bytes :: "u64 \<Rightarrow> bytes \<Rightarrow> bool" where
  "isValid_bytes byteSize v \<longleftrightarrow> length v > 0 \<and> length v \<le> MAX_BYTE_LENGTH \<and> length v = unat byteSize"

definition new_Bytes :: "u64 \<Rightarrow> bytes \<Rightarrow> exn + coder" where
  "new_Bytes byteSize v =
    (if \<not> isValid_bytes byteSize v then
       Inl (ABIException (''Input bytes must be in range 0 < M <= 32 and length must '' @ ''match type, '' @
         ''get bytes size '' @ to_string (unat byteSize) @ '', but value size '' @ to_string (length v)))
     else Inr (Bytes byteSize (BYTES @ to_string (length v)) v))"

section \<open>Numbers\<close>

text \<open>The bytes of the four 64-bit words of an integer, as they lie in memory.\<close>

definition memory_of :: "u256 \<Rightarrow> bytes" where
  "memory_of v = map (\<lambda>i. ucast (drop_bit (8 * i) v)) [0..<32]"

definition NumericType_encode :: "u256 \<Rightarrow> exn + bytes" where
  "NumericType_encode v =
    (let result = replicate MAX_BYTE_LENGTH 0; desh_hash = memory_of v
     in to_array_reversed result desh_hash 0)"

definition to_uint64_of :: "u256 \<Rightarrow> exn + u64" where
  "to_uint64_of v =
    (if v > 2 ^ 64 - 1 then Inl (ABIException (''Value on NumbericType '' @ to_hex_string v @ '' is larger than 2^64''))
     else Inr (ucast v))"

definition decode_to_uint64_32 :: "bytes \<Rightarrow> exn + u64" where
  "decode_to_uint64_32 inputs =
    (if length inputs \<noteq> 32 then
       Inl (ABIException (''Cant't convert to uint64, want 32 but get '' @ to_string (length inputs)))
     else tries (from_big_endian inputs) to_uint64_of)"

definition decode_to_uint64 :: "bytes \<Rightarrow> nat \<Rightarrow> nat \<Rightarrow> exn + u64" where
  "decode_to_uint64 inputs first offset = tries (sub_vector inputs first offset) decode_to_uint64_32"

definition encode_to_vector :: "nat \<Rightarrow> exn + bytes" where
  "encode_to_vector v = NumericType_encode (word_of_nat v)"

section \<open>Making coders\<close>

definition has_prefix :: "string \<Rightarrow> string \<Rightarrow> bool" where
  "has_prefix s pre \<longleftrightarrow> take (length pre) s = pre"

definition generate_coders_raw :: "string \<Rightarrow> u64 \<Rightarrow> string \<Rightarrow> exn + coder" where
  "generate_coders_raw rawType len v =
    (if has_prefix rawType UINT then new_Uint v len
     else if has_prefix rawType INT_NAME then new_Int v len
     else if has_prefix rawType ADDRESS then new_Address v
     else if has_prefix rawType STRING then Inr (Utf8String (string_to_bytes v))
     else if has_prefix rawType BOOL then new_Boolean v
     else if has_prefix rawType BYTES then
       (if c_str rawType = BYTES \<and> len = 0 then Inr (DynamicBytes (bytes_strip v))
        else if v = [] then new_Bytes len (replicate (unat len) 0)
        else new_Bytes len (bytes_strip v))
     else if has_prefix rawType FIXED \<or> has_prefix rawType UFIXED then
       Inl (ABIException (''Unsupported type: '' @ rawType))
     else Inl (ABIException (''Unrecognized type: '' @ rawType)))"

definition MAX_SIZE_OF_STATIC_ARRAY :: nat where
  "MAX_SIZE_OF_STATIC_ARRAY = 1024 * MAX_BYTE_LENGTH"

definition new_StaticArray_decode :: "json \<Rightarrow> u64 \<Rightarrow> exn + coder" where
  "new_StaticArray_decode t expectedSize =
    tries (check_dynamic t) (\<lambda>dynamic.
    if expectedSize < 1 then
      Inl (ABIException (''Invalid expected size in static array, get '' @ to_string (unat expectedSize)))
    else Inr (StaticArray t expectedSize dynamic [] []))"

definition isValid_array :: "u64 \<Rightarrow> json list \<Rightarrow> exn + unit" where
  "isValid_array expectedSize v =
    (if expectedSize = 0 \<and> length v > MAX_SIZE_OF_STATIC_ARRAY then
       Inl (ABIException (''Static arrays with a length greater than 1024 are not '' @ ''supported''))
     else if expectedSize \<noteq> 0 \<and> length v \<noteq> unat expectedSize then
       Inl (ABIException (''Expected array of type ['' @ to_string (unat expectedSize) @ ''] to have ['' @
         to_string (unat expectedSize) @ ''] elements, but get '' @ to_string (length v)))
     else Inr ())"

definition new_StaticArray :: "json \<Rightarrow> u64 \<Rightarrow> json \<Rightarrow> exn + coder" where
  "new_StaticArray t expectedSize v =
    tries (get_array v) (\<lambda>vs.
    tries (check_dynamic t) (\<lambda>dynamic.
    tries (isValid_array expectedSize vs) (\<lambda>_.
    Inr (StaticArray t expectedSize dynamic vs []))))"

definition new_DynamicArray :: "json \<Rightarrow> json \<Rightarrow> exn + coder" where
  "new_DynamicArray t v = tries (get_array v) (\<lambda>vs. Inr (DynamicArray t vs []))"

definition entry_identity :: "json \<Rightarrow> exn + coder" where
  "entry_identity t =
    tries (parse_types t) (\<lambda>p. tries (deref_type p) (\<lambda>ty.
    if bt_type ty = TV_ARRAY then
      if bt_length ty > 0 then new_StaticArray_decode (bt_name ty) (bt_length ty)
      else new_DynamicArray (bt_name ty) (JArray [])
    else tries (get_string (bt_name ty)) (\<lambda>name. generate_coders_raw name (bt_length ty) [])))"

definition generate_coders :: "json \<Rightarrow> json \<Rightarrow> exn + coder" where
  "generate_coders t v =
    tries (parse_types t) (\<lambda>p. tries (deref_type p) (\<lambda>ty.
    if bt_type ty = TV_ARRAY then
      if bt_length ty > 0 then new_StaticArray (bt_name ty) (bt_length ty) v
      else new_DynamicArray (bt_name ty) v
    else tries (get_string (bt_name ty)) (\<lambda>name.
      tries (get_string v) (\<lambda>s. generate_coders_raw name (bt_length ty) s))))"

section \<open>Properties of a coder\<close>

fun dynamicType :: "coder \<Rightarrow> bool" where
  "dynamicType (DynamicBytes v) = True"
| "dynamicType (Utf8String v) = True"
| "dynamicType (DynamicArray t v ps) = True"
| "dynamicType (StaticArray t n dynamic v ps) = dynamic"
| "dynamicType _ = False"

fun offset_of :: "coder \<Rightarrow> u64" where
  "offset_of (DynamicBytes v) = word_of_nat (alignSize (length v))"
| "offset_of (Utf8String v) = word_of_nat (alignSize (length v))"
| "offset_of (StaticArray t n dynamic v ps) = n * word_of_nat MAX_BYTE_LENGTH"
| "offset_of _ = word_of_nat MAX_BYTE_LENGTH"

fun getTypeAsString :: "coder \<Rightarrow> string" where
  "getTypeAsString (Address v) = ADDRESS"
| "getTypeAsString (NumericType t v) = t"
| "getTypeAsString (Boolean v) = BOOL"
| "getTypeAsString (Bytes n t v) = t"
| "getTypeAsString (DynamicBytes v) = BYTES"
| "getTypeAsString (Utf8String v) = STRING"
| "getTypeAsString (DynamicArray t v ps) = []"
| "getTypeAsString (StaticArray t n dynamic v ps) = ''['' @ to_string (unat n) @ '']''"

definition Boolean_encode :: "bool \<Rightarrow> exn + bytes" where
  "Boolean_encode v =
    to_array_byte (replicate MAX_BYTE_LENGTH 0) (if v then 1 else 0) (MAX_BYTE_LENGTH - 1)"

fun get_value :: "coder \<Rightarrow> exn + bytes" where
  "get_value (Address v) = Inr v"
| "get_value (NumericType t v) = Inr (to_big_endian v)"
| "get_value (Boolean v) = Boolean_encode v"
| "get_value (Bytes n t v) = Inr v"
| "get_value (DynamicBytes v) = Inr v"
| "get_value (Utf8String v) = Inr v"
| "get_value (DynamicArray t v ps) = tries (map_tries get_value ps) (\<lambda>vs. Inr (concat vs))"
| "get_value (StaticArray t n dynamic v ps) = tries (map_tries get_value ps) (\<lambda>vs. Inr (concat vs))"

fun set_value :: "coder \<Rightarrow> string \<Rightarrow> exn + coder" where
  "set_value (Address v) src = new_Address src"
| "set_value (Utf8String v) src = Inr (Utf8String (string_to_bytes src))"
| "set_value c src = Inr c"

section \<open>Packing\<close>

definition staticSize_of :: "PackParams list \<Rightarrow> nat" where
  "staticSize_of parts = (\<Sum>part \<leftarrow> parts. if pp_Dynamic part then 32 else alignSize (length (pp_data part)))"

definition dynamicSize_of :: "PackParams list \<Rightarrow> nat" where
  "dynamicSize_of parts = (\<Sum>part \<leftarrow> parts. if pp_Dynamic part then alignSize (length (pp_data part)) else 0)"

fun pack_loop :: "PackParams list \<Rightarrow> nat \<Rightarrow> nat \<Rightarrow> bytes \<Rightarrow> exn + bytes" where
  "pack_loop [] offset dynamicOffset data = Inr data"
| "pack_loop (part # parts) offset dynamicOffset data =
    (if pp_Dynamic part then
       tries (encode_to_vector dynamicOffset) (\<lambda>header.
       tries (to_array data header offset) (\<lambda>data.
       tries (to_array data (pp_data part) dynamicOffset) (\<lambda>data.
       pack_loop parts (offset + 32) (dynamicOffset + alignSize (length (pp_data part))) data)))
     else
       tries (to_array data (pp_data part) offset) (\<lambda>data.
       pack_loop parts (offset + alignSize (length (pp_data part))) dynamicOffset data))"

definition basic_pack :: "PackParams list \<Rightarrow> exn + bytes" where
  "basic_pack parts =
    pack_loop parts 0 (staticSize_of parts) (replicate (staticSize_of parts + dynamicSize_of parts) 0)"

section \<open>Encoding\<close>

definition BytesType_encode :: "bytes \<Rightarrow> exn + bytes" where
  "BytesType_encode v =
    (let result = replicate (MAX_BYTE_LENGTH + alignSize (length v)) 0
     in tries (encode_to_vector (length v)) (\<lambda>header.
        tries (to_array result header 0) (\<lambda>result.
        to_array result v MAX_BYTE_LENGTH)))"

definition Bytes_pad :: "bytes \<Rightarrow> bytes" where
  "Bytes_pad v =
    (let m = length v mod MAX_BYTE_LENGTH
     in if m \<noteq> 0 then v @ replicate (MAX_BYTE_LENGTH - m) 0 else v)"

text \<open>The nesting depth of a coder bounds the recursion of \<open>encode\<close>.\<close>

fun depth :: "coder \<Rightarrow> nat" where
  "depth (DynamicArray t v ps) = Suc (max (size t) (foldr max (map depth ps) 0))"
| "depth (StaticArray t n dynamic v ps) = Suc (max (size t) (foldr max (map depth ps) 0))"
| "depth _ = 0"

definition depths :: "coder list \<Rightarrow> nat" where
  "depths cs = foldr max (map depth cs) 0"

lemma depths_simps [simp]: "depths [] = 0" "depths (c # cs) = max (depth c) (depths cs)"
  "depths (cs @ ds) = max (depths cs) (depths ds)"
  by (simp_all add: depths_def) (induction cs, simp_all)

lemma depth_array [simp]:
  "depth (DynamicArray t v ps) = Suc (max (size t) (depths ps))"
  "depth (StaticArray t n dynamic v ps) = Suc (max (size t) (depths ps))"
  by (simp_all add: depths_def)

declare depth.simps(1,2) [simp del]

lemma depth_generate_raw: "generate_coders_raw name len s = Inr c \<Longrightarrow> depth c = 0"
  by (auto simp: generate_coders_raw_def new_Uint_def new_Int_def new_IntType_def new_Address_def new_Boolean_def
      new_Bytes_def tries_Inr Let_def split: if_splits)

lemma depth_generate: "generate_coders t v = Inr c \<Longrightarrow> depth c \<le> size t"
  using parse_types_cases [of t] depth_generate_raw
  by (fastforce simp: generate_coders_def tries_Inr deref_type_def new_StaticArray_def new_DynamicArray_def
      split: if_splits option.splits)

lemma depths_generate: "map_tries (generate_coders t) vs = Inr cs \<Longrightarrow> depths cs \<le> size t"
proof -
  assume "map_tries (generate_coders t) vs = Inr cs"
  then have "list_all2 (\<lambda>x y. generate_coders t x = Inr y) vs cs" by (simp add: map_tries_Inr)
  then show ?thesis by (induction) (auto dest: depth_generate)
qed

function encode_coder :: "coder \<Rightarrow> exn + bytes \<times> coder"
  and encode_parts :: "coder list \<Rightarrow> exn + PackParams list \<times> coder list" where
  "encode_coder (Address v) = Inr (v, Address v)"
| "encode_coder (NumericType t v) = tries (NumericType_encode v) (\<lambda>bs. Inr (bs, NumericType t v))"
| "encode_coder (Boolean v) = tries (Boolean_encode v) (\<lambda>bs. Inr (bs, Boolean v))"
| "encode_coder (Bytes n t v) = Inr (Bytes_pad v, Bytes n t (Bytes_pad v))"
| "encode_coder (DynamicBytes v) = tries (BytesType_encode v) (\<lambda>bs. Inr (bs, DynamicBytes v))"
| "encode_coder (Utf8String v) = tries (BytesType_encode v) (\<lambda>bs. Inr (bs, Utf8String v))"
| "encode_coder (DynamicArray t v ps) =
    (if v = [] then Inr (replicate 32 0, DynamicArray t v ps)
     else tries (map_tries (generate_coders t) v) (\<lambda>new.
       tries (encode_parts (ps @ new)) (\<lambda>(parts, cs).
       tries (if cs = [] then Inr [] else basic_pack parts) (\<lambda>data.
       tries (encode_to_vector (length v)) (\<lambda>result.
       Inr (result @ data, DynamicArray t v cs))))))"
| "encode_coder (StaticArray t n dynamic v ps) =
    (if v = [] then Inr (replicate 32 0, StaticArray t n dynamic v ps)
     else tries (map_tries (generate_coders t) v) (\<lambda>new.
       tries (encode_parts (ps @ new)) (\<lambda>(parts, cs).
       tries (if cs = [] then Inr [] else basic_pack parts) (\<lambda>data.
       Inr (data, StaticArray t n dynamic v cs)))))"
| "encode_parts [] = Inr ([], [])"
| "encode_parts (c # cs) =
    tries (encode_coder c) (\<lambda>(data, c').
    tries (encode_parts cs) (\<lambda>(parts, cs').
    Inr (\<lparr>pp_Dynamic = dynamicType c, pp_data = data\<rparr> # parts, c' # cs')))"
  by pat_completeness auto
termination
  by (relation "inv_image (less_than <*lex*> less_than)
      (\<lambda>x. case x of Inl c \<Rightarrow> (depth c, 0) | Inr cs \<Rightarrow> (depths cs, Suc (length cs)))")
    (auto dest: depths_generate)

definition pack :: "coder list \<Rightarrow> exn + bytes \<times> coder list" where
  "pack coders =
    (if coders = [] then Inr ([], [])
     else tries (encode_parts coders) (\<lambda>(parts, cs). tries (basic_pack parts) (\<lambda>data. Inr (data, cs))))"

section \<open>Encoder\<close>

record Encoder =
  enc_coders :: "coder list"
  enc_abi :: "abiParams list"
  enc_entry :: string

definition new_Encoder :: "string \<Rightarrow> Encoder" where
  "new_Encoder entry = \<lparr>enc_coders = [], enc_abi = [], enc_entry = entry\<rparr>"

definition enc_add_params :: "Encoder \<Rightarrow> string \<Rightarrow> string \<Rightarrow> Encoder" where
  "enc_add_params e name ty = e\<lparr>enc_abi := enc_abi e @ [\<lparr>abi_name = name, abi_type = ty\<rparr>]\<rparr>"

definition paramsCoder :: "Encoder \<Rightarrow> json \<Rightarrow> json \<Rightarrow> exn + Encoder" where
  "paramsCoder e type_value value = tries (generate_coders type_value value) (\<lambda>coder.
    Inr (e\<lparr>enc_coders := enc_coders e @ [coder]\<rparr>))"

definition add_inputs :: "Encoder \<Rightarrow> string \<Rightarrow> string \<Rightarrow> json \<Rightarrow> json \<Rightarrow> exn + Encoder" where
  "add_inputs e name ty value type_value = paramsCoder (enc_add_params e name ty) type_value value"

definition Encoder_encode :: "Encoder \<Rightarrow> exn + bytes \<times> Encoder" where
  "Encoder_encode e = tries (pack (enc_coders e)) (\<lambda>(data, cs). Inr (data, e\<lparr>enc_coders := cs\<rparr>))"

definition encode_value :: "string \<Rightarrow> json \<Rightarrow> json \<Rightarrow> exn + bytes" where
  "encode_value ty value j_type =
    tries (add_inputs (new_Encoder []) [] ty value j_type) (\<lambda>e.
    tries (Encoder_encode e) (\<lambda>(data, _). Inr data))"

definition encode_after :: "Encoder \<Rightarrow> bytes \<Rightarrow> exn + bytes" where
  "encode_after e signature_function =
    (if length signature_function < 4 then Inl (UndefinedBehaviour ''iterator past the end of the signature'')
     else tries (Encoder_encode e) (\<lambda>(data, _). Inr (take 4 signature_function @ data)))"

definition build_method_signature :: "Encoder \<Rightarrow> bytes" where
  "build_method_signature e =
    take 4 (Keccak256 (bytes_of_string (enc_entry e @ ''('' @ join '','' (map abi_type (enc_abi e)) @ '')'')))"

definition encodeWithSignatrue :: "Encoder \<Rightarrow> exn + bytes" where
  "encodeWithSignatrue e = tries (Encoder_encode e) (\<lambda>(data, _). Inr (build_method_signature e @ data))"

section \<open>Decoding\<close>

definition Address_decode :: "bytes \<Rightarrow> exn + coder" where
  "Address_decode inputs =
    (if length inputs < MAX_BYTE_LENGTH then Inl no_space else Inr (Address (take MAX_BYTE_LENGTH inputs)))"

definition NumericType_decode :: "string \<Rightarrow> bytes \<Rightarrow> exn + coder" where
  "NumericType_decode t inputs =
    (if length inputs < MAX_BYTE_LENGTH then Inl no_space
     else tries (sub_vector inputs 0 MAX_BYTE_LENGTH) (\<lambda>val.
       tries (from_big_endian val) (\<lambda>value. Inr (NumericType t value))))"

definition Boolean_decode :: "bytes \<Rightarrow> exn + coder" where
  "Boolean_decode inputs =
    (if length inputs < MAX_BYTE_LENGTH then Inl no_space
     else tries (sub_vector inputs 0 MAX_BYTE_LENGTH) (\<lambda>val_inputs.
       tries (from_big_endian val_inputs) (\<lambda>val.
       let match = and val (0 - 1)
       in if match = 1 then Inr (Boolean True)
          else if match = 0 then Inr (Boolean False)
          else Inl (ABIException ''decode bool failed''))))"

definition BytesType_decode :: "bytes \<Rightarrow> exn + bytes" where
  "BytesType_decode inputs =
    (if length inputs < MAX_BYTE_LENGTH then Inl no_space
     else tries (decode_to_uint64 inputs 0 MAX_BYTE_LENGTH) (\<lambda>header.
       sub_vector inputs MAX_BYTE_LENGTH (unat (word_of_nat MAX_BYTE_LENGTH + header))))"

text \<open>Too short an input passes the guard; copying from it reads past its end.\<close>

definition Bytes_decode :: "u64 \<Rightarrow> string \<Rightarrow> bytes \<Rightarrow> bytes \<Rightarrow> exn + coder" where
  "Bytes_decode len t v inputs =
    (if length inputs < MAX_BYTE_LENGTH \<and> length inputs > unat len then Inl no_space
     else if length inputs < unat len then Inl (UndefinedBehaviour ''copy from past the end of the input'')
     else Inr (Bytes len t (take (unat len) inputs @ drop (unat len) v)))"

lemma depth_entry_identity: "entry_identity t = Inr c \<Longrightarrow> depth c \<le> size t"
  using parse_types_cases [of t] depth_generate_raw
  by (fastforce simp: entry_identity_def tries_Inr deref_type_def new_StaticArray_decode_def new_DynamicArray_def
      split: if_splits option.splits)

text \<open>\<open>decode_elements\<close> is the loop around \<open>basic_decode\<close>.\<close>

function decode_coder :: "coder \<Rightarrow> bytes \<Rightarrow> exn + coder"
  and decode_elements :: "json \<Rightarrow> nat \<Rightarrow> bytes \<Rightarrow> nat \<Rightarrow> exn + coder list" where
  "decode_coder (Address v) inputs = Address_decode inputs"
| "decode_coder (NumericType t v) inputs = NumericType_decode t inputs"
| "decode_coder (Boolean v) inputs = Boolean_decode inputs"
| "decode_coder (Bytes len t v) inputs = Bytes_decode len t v inputs"
| "decode_coder (DynamicBytes v) inputs = tries (BytesType_decode inputs) (\<lambda>v. Inr (DynamicBytes v))"
| "decode_coder (Utf8String v) inputs = tries (BytesType_decode inputs) (\<lambda>v. Inr (Utf8String v))"
| "decode_coder (DynamicArray t v ps) inputs =
    (let len = length inputs div MAX_BYTE_LENGTH
     in if len < 2 then
          Inl (ABIException (''The minimum length of the dynamic array type is 1, get '' @
            to_string (if len = 0 then 2 ^ 64 - 1 else 0)))
        else tries (decode_to_uint64 inputs 0 MAX_BYTE_LENGTH) (\<lambda>header.
          if unat header > len - 1 then
            Inl (ABIException (''The parsed dynamic type length does not match the actual '' @ ''array '' @
              ''length, want '' @ to_string (len - 1) @ '', but get '' @ to_string (unat header)))
          else tries (decode_elements t (unat header) inputs MAX_BYTE_LENGTH) (\<lambda>new.
            Inr (DynamicArray t v (ps @ new)))))"
| "decode_coder (StaticArray t n dynamic v ps) inputs =
    (if length inputs div MAX_BYTE_LENGTH < 1 then
       Inl (ABIException ''The minimum length of the static array type is 1, get 0'')
     else tries (decode_elements t (unat n) inputs 0) (\<lambda>new.
       Inr (StaticArray t n dynamic v (ps @ new))))"
| "decode_elements t 0 inputs offset = Inr []"
| "decode_elements t (Suc n) inputs offset =
    tries (entry_identity t) (\<lambda>parameter.
    tries (if dynamicType parameter then
        tries (decode_to_uint64 inputs offset (offset + MAX_BYTE_LENGTH)) (\<lambda>offDst.
        if unat offDst + MAX_BYTE_LENGTH > length inputs then
          Inl (UndefinedBehaviour ''iterator past the end of the input'')
        else Inr (drop (unat offDst + MAX_BYTE_LENGTH) inputs))
      else sub_vector inputs offset (offset + MAX_BYTE_LENGTH)) (\<lambda>part.
    tries (decode_coder parameter part) (\<lambda>parameter.
    tries (decode_elements t n inputs (offset + MAX_BYTE_LENGTH)) (\<lambda>parameters.
    Inr (parameter # parameters)))))"
  by pat_completeness auto
termination
  by (relation "inv_image (less_than <*lex*> less_than)
      (\<lambda>x. case x of Inl (c, inputs) \<Rightarrow> (depth c, 0) | Inr (t, n, inputs, offset) \<Rightarrow> (size t, Suc n))")
    (auto dest: depth_entry_identity)

section \<open>Decoder\<close>

record Decoder =
  dec_coders :: "coder list"
  dec_abi :: "abiParams list"

definition new_Decoder :: Decoder where
  "new_Decoder = \<lparr>dec_coders = [], dec_abi = []\<rparr>"

definition dec_add_params :: "Decoder \<Rightarrow> string \<Rightarrow> string \<Rightarrow> json \<Rightarrow> exn + Decoder" where
  "dec_add_params d name ty type_value =
    tries (entry_identity type_value) (\<lambda>coder.
    Inr \<lparr>dec_coders = dec_coders d @ [coder], dec_abi = dec_abi d @ [\<lparr>abi_name = name, abi_type = ty\<rparr>]\<rparr>)"

fun decode_coders :: "coder list \<Rightarrow> bytes \<Rightarrow> u64 \<Rightarrow> exn + coder list" where
  "decode_coders [] inputs offset = Inr []"
| "decode_coders (c # cs) inputs offset =
    tries (if dynamicType c then
        tries (decode_to_uint64 inputs (unat offset) (unat (32 + offset))) (\<lambda>jump.
        if unat jump > length inputs then Inl (UndefinedBehaviour ''iterator past the end of the input'')
        else Inr (drop (unat jump) inputs))
      else if unat offset > length inputs then Inl (UndefinedBehaviour ''iterator past the end of the input'')
      else Inr (drop (unat offset) inputs)) (\<lambda>part.
    tries (decode_coder c part) (\<lambda>c.
    tries (decode_coders cs inputs (offset + offset_of c)) (\<lambda>cs.
    Inr (c # cs))))"

definition Decoder_decode :: "Decoder \<Rightarrow> bytes \<Rightarrow> u64 \<Rightarrow> exn + coder list \<times> Decoder" where
  "Decoder_decode d inputs offset =
    tries (decode_coders (dec_coders d) inputs offset) (\<lambda>cs. Inr (cs, d\<lparr>dec_coders := cs\<rparr>))"

fun add_all_params :: "Decoder \<Rightarrow> string list \<Rightarrow> json list \<Rightarrow> exn + Decoder" where
  "add_all_params d [] vs = Inr d"
| "add_all_params d (t # ts) [] = Inl (UndefinedBehaviour ''index past the end of a vector'')"
| "add_all_params d (t # ts) (v # vs) = tries (dec_add_params d [] t v) (\<lambda>d. add_all_params d ts vs)"

definition decode_values :: "bytes \<Rightarrow> string list \<Rightarrow> json list \<Rightarrow> exn + coder list" where
  "decode_values inputs types type_values =
    tries (add_all_params new_Decoder types type_values) (\<lambda>d.
    tries (Decoder_decode d inputs 0) (\<lambda>(cs, _). Inr cs))"

definition decode_bytes_array :: "bytes \<Rightarrow> exn + string list" where
  "decode_bytes_array inputs =
    tries (dec_add_params new_Decoder [] ''bytes[]'' (make_bytes_array 0 [])) (\<lambda>d.
    tries (Decoder_decode d inputs 0) (\<lambda>(cs, _).
    case cs ! 0 of
      DynamicArray t v ps \<Rightarrow>
        tries (map_tries get_value ps) (\<lambda>vs. Inr (map to_hex_string_bytes vs))
    | _ \<Rightarrow> Inl (StdException LogicError ''Internal Error'')))"

end
