(* ===== verification/AbiRoundTrip.thy ===== *)
theory AbiRoundTrip
  imports AbiCoder
begin

text \<open>
  What the ABI coders compute: the layout of \<open>Coder::pack\<close>, and that decoding undoes encoding.
\<close>

section \<open>Reference layout\<close>

definition padded :: "bytes \<Rightarrow> bytes" where
  "padded bs = bs @ replicate (alignSize (length bs) - length bs) 0"

fun heads :: "nat \<Rightarrow> PackParams list \<Rightarrow> bytes" where
  "heads d [] = []"
| "heads d (p # ps) =
    (if pp_Dynamic p then to_big_endian (word_of_nat d) @ heads (d + alignSize (length (pp_data p))) ps
     else padded (pp_data p) @ heads d ps)"

definition tails :: "PackParams list \<Rightarrow> bytes" where
  "tails ps = concat (map (\<lambda>p. if pp_Dynamic p then padded (pp_data p) else []) ps)"

definition packed :: "PackParams list \<Rightarrow> bytes" where
  "packed ps = heads (staticSize_of ps) ps @ tails ps"

definition bytes_layout :: "bytes \<Rightarrow> bytes" where
  "bytes_layout v = to_big_endian (word_of_nat (length v)) @ padded v"

text \<open>The array of dynamic elements: what may be encoded, and how it is laid out.\<close>

definition element_parts :: "('v \<Rightarrow> bytes) \<Rightarrow> 'v list \<Rightarrow> PackParams list" where
  "element_parts layout xs = map (\<lambda>x. \<lparr>pp_Dynamic = True, pp_data = layout x\<rparr>) xs"

definition array_layout :: "('v \<Rightarrow> bytes) \<Rightarrow> 'v list \<Rightarrow> bytes" where
  "array_layout layout xs = to_big_endian (word_of_nat (length xs)) @ packed (element_parts layout xs)"

definition array_valid :: "('v \<Rightarrow> bool) \<Rightarrow> ('v \<Rightarrow> bytes) \<Rightarrow> 'v list \<Rightarrow> bool" where
  "array_valid valid layout xs \<longleftrightarrow>
    xs \<noteq> [] \<and> list_all valid xs \<and> 32 * length xs + sum_list (map (length \<circ> layout) xs) < 2 ^ 64"

definition dynamic_array_of :: "json \<Rightarrow> json" where
  "dynamic_array_of t = make_array_type t []"

definition bytes_json :: json where
  "bytes_json = common_type_to_json (new_common_type (JString ''bytes'') 0)"

definition string_json :: json where
  "string_json = common_type_to_json (new_common_type (JString ''string'') 0)"

definition uint_json :: json where
  "uint_json = number_type_to_json (new_number_type 256 False)"

section \<open>Helpers\<close>

lemma alignSize_ge [simp]: "n \<le> alignSize n"
  unfolding alignSize_def by presburger

lemma alignSize_dvd [simp]: "32 dvd alignSize n"
  by (simp add: alignSize_def)

lemma alignSize_aligned [simp]: "32 dvd n \<Longrightarrow> alignSize n = n"
  by (auto simp: alignSize_def elim!: dvdE)

lemma alignSize_32 [simp]: "alignSize 32 = 32"
  by (simp add: alignSize_def)

lemma length_padded [simp]: "length (padded bs) = alignSize (length bs)"
  by (simp add: padded_def)

lemma padded_aligned [simp]: "32 dvd length bs \<Longrightarrow> padded bs = bs"
  by (simp add: padded_def)

lemma NumericType_encode [simp]: "NumericType_encode v = Inr (to_big_endian v)"
proof -
  have "rev (memory_of v) = to_big_endian v"
    by (rule nth_equalityI) (simp_all add: memory_of_def to_big_endian_def rev_nth less_imp_diff_less)
  moreover have "length (memory_of v) = 32" by (simp add: memory_of_def)
  ultimately show ?thesis
    by (simp add: NumericType_encode_def to_array_reversed_def MAX_BYTE_LENGTH_def MAX_BIT_LENGTH_def)
qed

lemma encode_to_vector [simp]: "encode_to_vector n = Inr (to_big_endian (word_of_nat n))"
  by (simp add: encode_to_vector_def)

lemma to_array_fill:
  assumes "length v \<le> n" "off = length A"
  shows "to_array (A @ replicate n 0 @ C) v off = Inr (A @ (v @ replicate (n - length v) 0) @ C)"
  using assms by (auto simp: to_array_def write_at_def)

lemma MAX_BYTE_LENGTH [simp]: "MAX_BYTE_LENGTH = 32"
  by (simp add: MAX_BYTE_LENGTH_def MAX_BIT_LENGTH_def)

lemma BytesType_encode [simp]: "BytesType_encode v = Inr (bytes_layout v)"
proof -
  let ?h = "to_big_endian (word_of_nat (length v))" and ?n = "alignSize (length v)"
  have 1: "to_array (replicate (32 + ?n) 0) ?h 0 = Inr (?h @ replicate ?n 0)"
    using to_array_fill [of ?h "32 + ?n" 0 "[]" "[]"] by (simp only: append_Nil append_Nil2 length_to_big_endian
        list.size diff_add_inverse le_add1 simp_thms True_implies_equals)
  have 2: "to_array (?h @ replicate ?n 0) v 32 = Inr (?h @ padded v)"
    using to_array_fill [of v ?n 32 ?h "[]"] by (simp only: append_Nil2 length_to_big_endian alignSize_ge
        padded_def simp_thms True_implies_equals)
  show ?thesis
    by (simp only: BytesType_encode_def bytes_layout_def Let_def MAX_BYTE_LENGTH encode_to_vector tries_simps 1 2)
qed

lemma length_bytes_layout [simp]: "length (bytes_layout v) = 32 + alignSize (length v)"
  by (simp add: bytes_layout_def)

lemma staticSize_simps [simp]: "staticSize_of [] = 0"
  "staticSize_of (p # ps) = (if pp_Dynamic p then 32 else alignSize (length (pp_data p))) + staticSize_of ps"
  by (simp_all add: staticSize_of_def)

lemma dynamicSize_simps [simp]: "dynamicSize_of [] = 0"
  "dynamicSize_of (p # ps) = (if pp_Dynamic p then alignSize (length (pp_data p)) else 0) + dynamicSize_of ps"
  by (simp_all add: dynamicSize_of_def)

lemma tails_simps [simp]: "tails [] = []"
  "tails (p # ps) = (if pp_Dynamic p then padded (pp_data p) else []) @ tails ps"
  by (simp_all add: tails_def)

lemma length_heads [simp]: "length (heads d ps) = staticSize_of ps"
  by (induction ps arbitrary: d) simp_all

lemma length_tails [simp]: "length (tails ps) = dynamicSize_of ps"
  by (induction ps) simp_all

lemma length_packed: "length (packed ps) = staticSize_of ps + dynamicSize_of ps"
  by (simp add: packed_def)

lemma packed_dvd [simp]: "32 dvd staticSize_of ps" "32 dvd dynamicSize_of ps"
  by (induction ps) simp_all

lemma pack_loop_layout:
  "pack_loop ps (length A) (length A + staticSize_of ps + length B)
      (A @ replicate (staticSize_of ps) 0 @ B @ replicate (dynamicSize_of ps) 0)
    = Inr (A @ heads (length A + staticSize_of ps + length B) ps @ B @ tails ps)"
proof (induction ps arbitrary: A B)
  case (Cons p ps)
  let ?d = "pp_data p"
  let ?n = "alignSize (length ?d)" and ?s = "staticSize_of ps" and ?t = "dynamicSize_of ps"
  show ?case
  proof (cases "pp_Dynamic p")
    case True
    let ?dyn = "length A + (32 + ?s) + length B"
    let ?h = "to_big_endian (word_of_nat ?dyn)"
    have "to_array (A @ replicate (32 + ?s) 0 @ B @ replicate (?n + ?t) 0) ?h (length A) =
        Inr (A @ (?h @ replicate ?s 0) @ B @ replicate (?n + ?t) 0)"
      using to_array_fill [of ?h "32 + ?s" "length A" A "B @ replicate (?n + ?t) 0"] by simp
    moreover have "to_array (A @ (?h @ replicate ?s 0) @ B @ replicate (?n + ?t) 0) ?d ?dyn =
        Inr ((A @ ?h) @ replicate ?s 0 @ (B @ padded ?d) @ replicate ?t 0)"
      using to_array_fill [of ?d ?n ?dyn "A @ ?h @ replicate ?s 0 @ B" "replicate ?t 0"]
      by (simp add: replicate_add padded_def)
    ultimately show ?thesis
      using True Cons.IH [of "A @ ?h" "B @ padded ?d"] by (simp add: algebra_simps)
  next
    case False
    have "to_array (A @ replicate (?n + ?s) 0 @ B @ replicate ?t 0) ?d (length A) =
        Inr ((A @ padded ?d) @ replicate ?s 0 @ B @ replicate ?t 0)"
      using to_array_fill [of ?d ?n "length A" A "replicate ?s 0 @ B @ replicate ?t 0"]
      by (simp add: replicate_add padded_def)
    then show ?thesis using False Cons.IH [of "A @ padded ?d" B] by (simp add: algebra_simps)
  qed
qed simp

lemma basic_pack_layout [simp]: "basic_pack ps = Inr (packed ps)"
  using pack_loop_layout [of ps "[]" "[]"] by (simp add: basic_pack_def packed_def replicate_add)

section \<open>Reading back\<close>

lemma decode_to_uint64_at:
  assumes "n < 2 ^ 64" "off = length P" "stop = off + 32"
  shows "decode_to_uint64 (P @ to_big_endian (word_of_nat n) @ R) off stop = Inr (word_of_nat n)"
proof -
  let ?w = "word_of_nat n :: u256"
  have u: "unat ?w = n" using assms(1) by (simp add: unat_of_nat)
  have "sub_vector (P @ to_big_endian ?w @ R) off stop = Inr (to_big_endian ?w)"
    using assms by (simp add: sub_vector_def segment_def)
  moreover have "from_big_endian (to_big_endian ?w) = Inr ?w" by (simp add: from_big_endian_load)
  moreover have "\<not> ?w > 2 ^ 64 - 1"
    unfolding word_less_nat_alt u using assms(1) by simp
  moreover have "(ucast ?w :: u64) = word_of_nat n"
    by (metis of_nat_unat u)
  ultimately show ?thesis by (simp add: decode_to_uint64_def decode_to_uint64_32_def to_uint64_of_def)
qed

lemma decode_to_uint64_first:
  "n < 2 ^ 64 \<Longrightarrow> decode_to_uint64 (to_big_endian (word_of_nat n) @ R) 0 32 = Inr (word_of_nat n)"
  using decode_to_uint64_at [of n 0 "[]" 32 R] by simp

lemma BytesType_decode:
  assumes "32 + length v < 2 ^ 64"
  shows "BytesType_decode (bytes_layout v @ rest) = Inr v"
proof -
  have "unat (32 + word_of_nat (length v) :: u64) = 32 + length v"
    using assms by (simp add: unat_word_ariths unat_of_nat)
  moreover have "decode_to_uint64 (bytes_layout v @ rest) 0 32 = Inr (word_of_nat (length v))"
    using decode_to_uint64_first [of "length v"] assms by (simp add: bytes_layout_def)
  moreover have "sub_vector (bytes_layout v @ rest) 32 (32 + length v) = Inr v"
    by (simp add: sub_vector_def segment_def bytes_layout_def padded_def)
  ultimately show ?thesis by (simp add: BytesType_decode_def)
qed

lemma element_parts_simps [simp]: "element_parts layout [] = []"
  "element_parts layout (x # xs) = \<lparr>pp_Dynamic = True, pp_data = layout x\<rparr> # element_parts layout xs"
  by (simp_all add: element_parts_def)

lemma staticSize_elements [simp]: "staticSize_of (element_parts layout xs) = 32 * length xs"
  by (induction xs) simp_all

lemma dynamicSize_elements [simp]:
  "dynamicSize_of (element_parts layout xs) = sum_list (map (alignSize \<circ> length \<circ> layout) xs)"
  by (induction xs) simp_all

lemma length_array_layout: "length (array_layout layout xs) =
    32 + 32 * length xs + sum_list (map (alignSize \<circ> length \<circ> layout) xs)"
  by (simp add: array_layout_def length_packed)

lemma array_layout_dvd: "32 dvd length (array_layout layout xs)"
  using packed_dvd [of "element_parts layout xs"] by (simp add: array_layout_def length_packed)

lemma parse_array: "parse_types (dynamic_array_of t) =
    Inr (Some \<lparr>bt_name = t, bt_length = 0, bt_dynamic = True, bt_type = TV_ARRAY\<rparr>)"
  by (simp add: dynamic_array_of_def make_array_type_def array_type_to_json_def new_array_type_def len_entry_def
      type_value_to_json_def type_value_from_json_def type_value_table_def parse_types_def array_type_from_json_def
      array_type_value_def optional_len_def require_object_def value_or_def)

lemma array_coders [simp]:
  "generate_coders (dynamic_array_of t) (JArray vs) = Inr (DynamicArray t vs [])"
  "entry_identity (dynamic_array_of t) = Inr (DynamicArray t [] [])"
  by (simp_all add: generate_coders_def entry_identity_def parse_array deref_type_def new_DynamicArray_def)

section \<open>Elements and arrays of them\<close>

locale abi_element =
  fixes t :: json
    and jval :: "'v \<Rightarrow> json"
    and valid :: "'v \<Rightarrow> bool"
    and layout :: "'v \<Rightarrow> bytes"
    and blank :: coder
    and fresh :: "'v \<Rightarrow> coder"
    and kept :: "'v \<Rightarrow> coder"
    and got :: "'v \<Rightarrow> coder"
  assumes generate: "valid x \<Longrightarrow> generate_coders t (jval x) = Inr (fresh x)"
    and encode_fresh: "valid x \<Longrightarrow> encode_coder (fresh x) = Inr (layout x, kept x)"
    and dynamic_fresh: "dynamicType (fresh x)"
    and entry: "entry_identity t = Inr blank"
    and dynamic_blank: "dynamicType blank"
    and decode_blank: "valid x \<Longrightarrow> decode_coder blank (layout x @ rest) = Inr (got x)"
    and aligned: "valid x \<Longrightarrow> 32 dvd length (layout x)"
begin

lemma generate_all: "list_all valid xs \<Longrightarrow> map_tries (generate_coders t) (map jval xs) = Inr (map fresh xs)"
  by (induction xs) (simp_all add: generate)

lemma encode_all:
  "list_all valid xs \<Longrightarrow> encode_parts (map fresh xs) = Inr (element_parts layout xs, map kept xs)"
  by (induction xs) (simp_all add: encode_fresh dynamic_fresh)

lemma encode_array:
  assumes "xs \<noteq> []" "list_all valid xs"
  shows "encode_coder (DynamicArray t (map jval xs) []) =
    Inr (array_layout layout xs, DynamicArray t (map jval xs) (map kept xs))"
  using assms by (simp add: generate_all encode_all array_layout_def)

lemma decode_all:
  assumes "list_all valid xs" "d + sum_list (map (length \<circ> layout) xs) < 2 ^ 64"
    and "d + 32 = length P + 32 * length xs + length Q"
  shows "decode_elements t (length xs)
      (P @ heads d (element_parts layout xs) @ Q @ tails (element_parts layout xs) @ rest) (length P) =
    Inr (map got xs)"
  using assms
proof (induction xs arbitrary: P Q d)
  case (Cons x xs)
  let ?w = "to_big_endian (word_of_nat d)" and ?ps = "element_parts layout xs" and ?l = "length (layout x)"
  let ?inputs = "(P @ ?w) @ heads (d + ?l) ?ps @ (Q @ layout x) @ tails ?ps @ rest"
  have x: "valid x" "32 dvd ?l" using Cons.prems(1) aligned by simp_all
  have d: "d < 2 ^ 64" using Cons.prems(2) by simp
  have eq: "P @ heads d (element_parts layout (x # xs)) @ Q @ tails (element_parts layout (x # xs)) @ rest = ?inputs"
    using x by simp
  have jump: "decode_to_uint64 ?inputs (length P) (length P + 32) = Inr (word_of_nat d)"
    using decode_to_uint64_at [OF d HOL.refl HOL.refl, of P "heads (d + ?l) ?ps @ (Q @ layout x) @ tails ?ps @ rest"]
    by simp
  have len: "d + 32 = length ((P @ ?w) @ heads (d + ?l) ?ps @ Q)"
    using Cons.prems(3) by simp
  then have part: "drop (d + 32) ?inputs = layout x @ tails ?ps @ rest" by simp
  have "decode_elements t (length xs) ?inputs (length (P @ ?w)) = Inr (map got xs)"
    by (rule Cons.IH) (use Cons.prems in simp_all)
  moreover have "unat (word_of_nat d :: u64) = d" using d by (simp add: unat_of_nat)
  moreover have "d + 32 \<le> length ?inputs" using len by simp
  ultimately show ?case
    unfolding eq by (simp add: entry dynamic_blank jump part decode_blank x del: append_assoc drop_append)
qed simp

lemma decode_array:
  assumes "array_valid valid layout xs"
  shows "decode_coder (DynamicArray t [] []) (array_layout layout xs @ rest) = Inr (DynamicArray t [] (map got xs))"
proof -
  let ?n = "length xs" and ?i = "array_layout layout xs @ rest"
  have v: "xs \<noteq> []" "list_all valid xs" "32 * ?n + sum_list (map (length \<circ> layout) xs) < 2 ^ 64"
    using assms by (simp_all add: array_valid_def)
  have n: "?n < 2 ^ 64" using v(3) by linarith
  have h: "decode_to_uint64 ?i 0 32 = Inr (word_of_nat ?n)"
    using decode_to_uint64_first [OF n] by (simp add: array_layout_def)
  have u: "unat (word_of_nat ?n :: u64) = ?n" using n by (simp add: unat_of_nat)
  have e: "decode_elements t ?n ?i 32 = Inr (map got xs)"
    using decode_all [OF v(2) v(3), of "to_big_endian (word_of_nat ?n)" "[]"] by (simp add: array_layout_def packed_def)
  have "32 * (1 + ?n) \<le> length ?i" by (simp add: length_array_layout)
  then have l: "1 + ?n \<le> length ?i div 32" by simp
  moreover have "0 < ?n" using v(1) by simp
  ultimately have "\<not> length ?i div 32 < 2" "\<not> ?n > length ?i div 32 - 1" by linarith+
  then show ?thesis by (simp add: h u e Let_def del: length_append)
qed

lemma encode_one:
  assumes "valid x"
  shows "encode_value ty (jval x) t = Inr (to_big_endian 32 @ layout x)"
  using assms by (simp add: encode_value_def add_inputs_def paramsCoder_def enc_add_params_def new_Encoder_def
      generate Encoder_encode_def pack_def encode_fresh dynamic_fresh packed_def aligned)

lemma decode_one:
  assumes "valid x"
  shows "decode_values (to_big_endian 32 @ layout x @ rest) [ty] [t] = Inr [got x]"
  using assms decode_to_uint64_first [of 32 "layout x @ rest"]
  by (simp add: decode_values_def dec_add_params_def new_Decoder_def entry Decoder_decode_def dynamic_blank decode_blank)

lemma array_element:
  "abi_element (dynamic_array_of t) (\<lambda>xs. JArray (map jval xs)) (array_valid valid layout) (array_layout layout)
    (DynamicArray t [] []) (\<lambda>xs. DynamicArray t (map jval xs) [])
    (\<lambda>xs. DynamicArray t (map jval xs) (map kept xs)) (\<lambda>xs. DynamicArray t [] (map got xs))"
proof (rule abi_element.intro)
  fix xs and rest
  assume v: "array_valid valid layout xs"
  show "encode_coder (DynamicArray t (map jval xs) []) =
      Inr (array_layout layout xs, DynamicArray t (map jval xs) (map kept xs))"
    using v by (intro encode_array) (simp_all add: array_valid_def)
  show "decode_coder (DynamicArray t [] []) (array_layout layout xs @ rest) = Inr (DynamicArray t [] (map got xs))"
    using v by (rule decode_array)
qed (simp_all add: array_layout_dvd)

end

section \<open>Byte strings, strings and arrays of them\<close>

lemma parse_common [simp]:
  "parse_types bytes_json = Inr (Some \<lparr>bt_name = JString ''bytes'', bt_length = 0, bt_dynamic = True, bt_type = TV_BYTES\<rparr>)"
  "parse_types string_json = Inr (Some \<lparr>bt_name = JString ''string'', bt_length = 0, bt_dynamic = True, bt_type = TV_STRING\<rparr>)"
  by (simp_all add: bytes_json_def string_json_def common_type_to_json_def new_common_type_def len_entry_def
      type_value_to_json_def type_value_from_json_def type_value_table_def parse_types_def common_type_from_json_def
      common_type_value_def optional_len_def require_object_def value_or_def)

lemma parse_uint [simp]:
  "parse_types uint_json = Inr (Some \<lparr>bt_name = JString ''uint'', bt_length = 256, bt_dynamic = False, bt_type = TV_NUMBER\<rparr>)"
  by (simp add: uint_json_def number_type_to_json_def new_number_type_def
      type_value_to_json_def type_value_from_json_def type_value_table_def parse_types_def number_type_from_json_def
      number_type_value_def require_object_def)

lemmas type_names = UINT_def INT_NAME_def ADDRESS_def STRING_def BOOL_def BYTES_def

lemma common_coders [simp]:
  "generate_coders bytes_json (JString s) = Inr (DynamicBytes (bytes_strip s))"
  "entry_identity bytes_json = Inr (DynamicBytes [])"
  "generate_coders string_json (JString s) = Inr (Utf8String (string_to_bytes s))"
  "entry_identity string_json = Inr (Utf8String [])"
  by (simp_all add: generate_coders_def entry_identity_def deref_type_def generate_coders_raw_def has_prefix_def
      type_names c_str_def bytes_strip_def string_to_bytes_def bytes_of_string_def)

interpretation bytes_element: abi_element bytes_json JString "\<lambda>s. 32 + length (bytes_strip s) < 2 ^ 64"
  "\<lambda>s. bytes_layout (bytes_strip s)" "DynamicBytes []" "\<lambda>s. DynamicBytes (bytes_strip s)"
  "\<lambda>s. DynamicBytes (bytes_strip s)" "\<lambda>s. DynamicBytes (bytes_strip s)"
  by unfold_locales (simp_all add: BytesType_decode)

interpretation string_element: abi_element string_json JString "\<lambda>s. 32 + length (string_to_bytes s) < 2 ^ 64"
  "\<lambda>s. bytes_layout (string_to_bytes s)" "Utf8String []" "\<lambda>s. Utf8String (string_to_bytes s)"
  "\<lambda>s. Utf8String (string_to_bytes s)" "\<lambda>s. Utf8String (string_to_bytes s)"
  by unfold_locales (simp_all add: BytesType_decode)

interpretation bytes_array: abi_element "dynamic_array_of bytes_json" "\<lambda>ss. JArray (map JString ss)"
  "array_valid (\<lambda>s. 32 + length (bytes_strip s) < 2 ^ 64) (\<lambda>s. bytes_layout (bytes_strip s))"
  "array_layout (\<lambda>s. bytes_layout (bytes_strip s))" "DynamicArray bytes_json [] []"
  "\<lambda>ss. DynamicArray bytes_json (map JString ss) []"
  "\<lambda>ss. DynamicArray bytes_json (map JString ss) (map (\<lambda>s. DynamicBytes (bytes_strip s)) ss)"
  "\<lambda>ss. DynamicArray bytes_json [] (map (\<lambda>s. DynamicBytes (bytes_strip s)) ss)"
  by (rule bytes_element.array_element)

interpretation bytes_array_array: abi_element "dynamic_array_of (dynamic_array_of bytes_json)"
  "\<lambda>sss. JArray (map (\<lambda>ss. JArray (map JString ss)) sss)"
  "array_valid (array_valid (\<lambda>s. 32 + length (bytes_strip s) < 2 ^ 64) (\<lambda>s. bytes_layout (bytes_strip s)))
    (array_layout (\<lambda>s. bytes_layout (bytes_strip s)))"
  "array_layout (array_layout (\<lambda>s. bytes_layout (bytes_strip s)))" "DynamicArray (dynamic_array_of bytes_json) [] []"
  "\<lambda>sss. DynamicArray (dynamic_array_of bytes_json) (map (\<lambda>ss. JArray (map JString ss)) sss) []"
  "\<lambda>sss. DynamicArray (dynamic_array_of bytes_json) (map (\<lambda>ss. JArray (map JString ss)) sss)
    (map (\<lambda>ss. DynamicArray bytes_json (map JString ss) (map (\<lambda>s. DynamicBytes (bytes_strip s)) ss)) sss)"
  "\<lambda>sss. DynamicArray (dynamic_array_of bytes_json) []
    (map (\<lambda>ss. DynamicArray bytes_json [] (map (\<lambda>s. DynamicBytes (bytes_strip s)) ss)) sss)"
  by (rule bytes_array.array_element)

declare to_string.simps [simp del]

lemma bytes_array_json: "dynamic_array_of bytes_json = make_bytes_array 0 []"
  by (simp add: dynamic_array_of_def bytes_json_def make_bytes_array_def)

lemma bytes_array_array_json:
  "make_array_type (make_bytes_array 0 []) [] = dynamic_array_of (dynamic_array_of bytes_json)"
  unfolding bytes_array_json by (simp only: dynamic_array_of_def)

lemma bytes_array_size: "32 * length ss + (\<Sum>s \<leftarrow> ss. 32 + alignSize (length (bytes_strip s))) \<le>
    (\<Sum>s \<leftarrow> ss. 96 + length (bytes_strip s))"
proof (induction ss)
  case (Cons s ss)
  have "alignSize n \<le> n + 31" for n unfolding alignSize_def by presburger
  then have "alignSize (length (bytes_strip s)) \<le> length (bytes_strip s) + 31" .
  then show ?case using Cons by simp
qed simp

lemma array_valid_bytes:
  assumes "ss \<noteq> []" "(\<Sum>s \<leftarrow> ss. 96 + length (bytes_strip s)) < 2 ^ 64"
  shows "array_valid (\<lambda>s. 32 + length (bytes_strip s) < 2 ^ 64) (\<lambda>s. bytes_layout (bytes_strip s)) ss"
proof -
  have "list_all (\<lambda>s. 32 + length (bytes_strip s) < 2 ^ 64) ss"
    unfolding list_all_iff
  proof
    fix s assume "s \<in> set ss"
    then have "96 + length (bytes_strip s) \<le> (\<Sum>s \<leftarrow> ss. 96 + length (bytes_strip s))"
      by (intro member_le_sum_list) simp_all
    then show "32 + length (bytes_strip s) < 2 ^ 64" using assms(2) by linarith
  qed
  then show ?thesis using assms bytes_array_size [of ss] by (simp add: array_valid_def comp_def)
qed

lemma decode_bytes_array_values: "decode_bytes_array inputs =
    tries (decode_values inputs [''bytes[]''] [dynamic_array_of bytes_json]) (\<lambda>cs.
      case cs ! 0 of
        DynamicArray t v ps \<Rightarrow> tries (map_tries get_value ps) (\<lambda>vs. Inr (map to_hex_string_bytes vs))
      | _ \<Rightarrow> Inl (StdException LogicError ''Internal Error''))"
  unfolding decode_bytes_array_def decode_values_def bytes_array_json [symmetric]
  by (simp add: dec_add_params_def tries_def case_prod_beta split: sum.split)

lemma map_tries_values: "map_tries get_value (map (\<lambda>s. DynamicBytes (f s)) ss) = Inr (map f ss)"
  by (induction ss) simp_all

lemma to_string_zero: "to_string 0 = ''0''"
  by code_simp

lemma empty_bytes_array:
  "encode_value ''bytes[]'' (JArray []) (make_bytes_array 0 []) = Inr (to_big_endian 32 @ replicate 32 0)"
  "decode_bytes_array (to_big_endian 32 @ replicate 32 0) =
      Inl (ABIException ''The minimum length of the dynamic array type is 1, get 0'')"
  using decode_to_uint64_first [of 32 "replicate 32 0"]
  unfolding bytes_array_json [symmetric] decode_bytes_array_values
  by (simp_all add: encode_value_def add_inputs_def paramsCoder_def enc_add_params_def new_Encoder_def
      Encoder_encode_def pack_def packed_def decode_values_def dec_add_params_def new_Decoder_def
      Decoder_decode_def to_string_zero)

text \<open>Claim C12.  Byte strings survive the round trip through \<open>bytes[]\<close>: for a list that is not empty, whose
  encoding fits 64-bit offsets, \<open>Encoder::encode\<close> succeeds and \<open>Decoder::decode_bytes_array\<close> gives
  back every element as a hex string, whatever bytes follow.  The empty list is encoded as
  well, but its encoding is refused by the decoder.\<close>

theorem bytes_array_round_trip:
  assumes "ss \<noteq> []" "(\<Sum>s \<leftarrow> ss. 96 + length (bytes_strip s)) < 2 ^ 64"
  shows "(\<exists>data. encode_value ''bytes[]'' (JArray (map JString ss)) (make_bytes_array 0 []) = Inr data \<and>
      decode_bytes_array (data @ rest) = Inr (map (\<lambda>s. to_hex_string_bytes (bytes_strip s)) ss)) \<and>
    encode_value ''bytes[]'' (JArray []) (make_bytes_array 0 []) = Inr (to_big_endian 32 @ replicate 32 0) \<and>
    decode_bytes_array (to_big_endian 32 @ replicate 32 0) =
      Inl (ABIException ''The minimum length of the dynamic array type is 1, get 0'')"
proof -
  have v: "array_valid (\<lambda>s. 32 + length (bytes_strip s) < 2 ^ 64) (\<lambda>s. bytes_layout (bytes_strip s)) ss"
    using assms by (rule array_valid_bytes)
  have "decode_bytes_array ((to_big_endian 32 @ array_layout (\<lambda>s. bytes_layout (bytes_strip s)) ss) @ rest) =
      Inr (map (\<lambda>s. to_hex_string_bytes (bytes_strip s)) ss)"
    using bytes_array.decode_one [OF v, of rest "''bytes[]''"]
    by (simp add: decode_bytes_array_values comp_def map_tries_values)
  then show ?thesis
    using bytes_array.encode_one [OF v, of "''bytes[]''"] by (simp add: bytes_array_json empty_bytes_array)
qed

theorem bytes_array_round_trip_witness:
  "(\<exists>data. encode_value ''bytes[]'' (JArray (map JString [''a'', ''hi''])) (make_bytes_array 0 []) = Inr data \<and>
    decode_bytes_array (data @ [7]) = Inr [''0x61'', ''0x6869''])"
proof -
  have "bytes_strip ''a'' = [97]" "bytes_strip ''hi'' = [104, 105]"
    "to_hex_string_bytes [97] = ''0x61''" "to_hex_string_bytes [104, 105] = ''0x6869''"
    by (simp_all add: bytes_strip_def bytes_of_string_def to_hex_string_bytes_def hex_byte_def digit_char_def char_of_def
        bit_Suc_0_iff)
  then show ?thesis using bytes_array_round_trip [of "[''a'', ''hi'']" "[7]"] by simp
qed

text \<open>Claim C13.  Nesting composes: a list of lists of byte strings, none of them empty, encoded as \<open>bytes[][]\<close> and
  decoded with the same type description gives one array coder holding the array coders of the inner
  lists, which hold exactly the byte strings.\<close>

theorem nested_array_round_trip:
  assumes "sss \<noteq> []" "\<forall>ss \<in> set sss. ss \<noteq> []"
    and "(\<Sum>ss \<leftarrow> sss. 64 + (\<Sum>s \<leftarrow> ss. 96 + length (bytes_strip s))) < 2 ^ 64"
  shows "\<exists>data. encode_value ''bytes[][]'' (JArray (map (\<lambda>ss. JArray (map JString ss)) sss))
      (make_array_type (make_bytes_array 0 []) []) = Inr data \<and>
    decode_values (data @ rest) [''bytes[][]''] [make_array_type (make_bytes_array 0 []) []] =
      Inr [DynamicArray (make_bytes_array 0 []) []
        (map (\<lambda>ss. DynamicArray bytes_json [] (map (\<lambda>s. DynamicBytes (bytes_strip s)) ss)) sss)]"
proof -
  let ?v = "array_valid (\<lambda>s. 32 + length (bytes_strip s) < 2 ^ 64) (\<lambda>s. bytes_layout (bytes_strip s))"
    and ?l = "array_layout (\<lambda>s. bytes_layout (bytes_strip s))"
  have le: "length (?l ss) + 32 \<le> 64 + (\<Sum>s \<leftarrow> ss. 96 + length (bytes_strip s))" for ss
    using bytes_array_size [of ss] by (simp add: length_array_layout comp_def)
  have "?v ss" if "ss \<in> set sss" for ss
  proof (rule array_valid_bytes)
    show "ss \<noteq> []" using assms(2) that by blast
    have "64 + (\<Sum>s \<leftarrow> ss. 96 + length (bytes_strip s)) \<le>
        (\<Sum>ss \<leftarrow> sss. 64 + (\<Sum>s \<leftarrow> ss. 96 + length (bytes_strip s)))"
      using that by (intro member_le_sum_list) simp_all
    then show "(\<Sum>s \<leftarrow> ss. 96 + length (bytes_strip s)) < 2 ^ 64" using assms(3) by linarith
  qed
  moreover have "32 * length sss + sum_list (map (length \<circ> ?l) sss) \<le>
      (\<Sum>ss \<leftarrow> sss. 64 + (\<Sum>s \<leftarrow> ss. 96 + length (bytes_strip s)))"
  proof (induction sss)
    case (Cons ss sss)
    then show ?case using le [of ss] by simp
  qed simp
  ultimately have v: "array_valid ?v ?l sss" using assms(1,3) by (simp add: array_valid_def list_all_iff)
  show ?thesis
    unfolding bytes_array_array_json unfolding bytes_array_json [symmetric]
    using bytes_array_array.encode_one [OF v, of "''bytes[][]''"] bytes_array_array.decode_one [OF v, of rest "''bytes[][]''"]
    by simp
qed

theorem nested_array_round_trip_witness:
  "\<exists>data. encode_value ''bytes[][]'' (JArray (map (\<lambda>ss. JArray (map JString ss)) [[''a''], [''bc'', ''d'']]))
      (make_array_type (make_bytes_array 0 []) []) = Inr data \<and>
    decode_values (data @ []) [''bytes[][]''] [make_array_type (make_bytes_array 0 []) []] =
      Inr [DynamicArray (make_bytes_array 0 []) []
        [DynamicArray bytes_json [] [DynamicBytes [97]],
         DynamicArray bytes_json [] [DynamicBytes [98, 99], DynamicBytes [100]]]]"
proof -
  have "bytes_strip ''a'' = [97]" "bytes_strip ''bc'' = [98, 99]" "bytes_strip ''d'' = [100]"
    by (simp_all add: bytes_strip_def bytes_of_string_def)
  then show ?thesis using nested_array_round_trip [of "[[''a''], [''bc'', ''d'']]" "[]"] by simp
qed

section \<open>Layout of packed parts\<close>

lemma sizes_append [simp]: "staticSize_of (ps @ qs) = staticSize_of ps + staticSize_of qs"
  "dynamicSize_of (ps @ qs) = dynamicSize_of ps + dynamicSize_of qs"
  by (induction ps) simp_all

lemma heads_append: "heads d (ps @ qs) = heads d ps @ heads (d + dynamicSize_of ps) qs"
  by (induction ps arbitrary: d) (simp_all add: add.assoc)

lemma tails_append: "tails (ps @ qs) = tails ps @ tails qs"
  by (simp add: tails_def)

lemma segment_middle: "off = length xs \<Longrightarrow> n = length ys \<Longrightarrow> segment off n (xs @ ys @ zs) = ys"
  by (simp add: segment_def)

text \<open>Claim C14.  \<open>Coder::basic_pack\<close> never fails and lays the parts out as the ABI prescribes: first the heads in order,
  then the tails of the dynamic parts, each padded to 32 bytes.  The head of a dynamic part is the offset
  at which its data starts; a static part stands in the heads itself.\<close>

theorem basic_pack_reference:
  "\<exists>data. basic_pack (ps @ p # qs) = Inr data \<and>
    length data = staticSize_of (ps @ p # qs) + dynamicSize_of (ps @ p # qs) \<and>
    data = heads (staticSize_of (ps @ p # qs)) (ps @ p # qs) @ tails (ps @ p # qs) \<and>
    (let n = length (pp_data p); at = staticSize_of ps; off = staticSize_of (ps @ p # qs) + dynamicSize_of ps
     in if pp_Dynamic p then
          segment at 32 data = to_big_endian (word_of_nat off) \<and> segment off n data = pp_data p
        else segment at n data = pp_data p)"
proof -
  let ?all = "ps @ p # qs" and ?d = "pp_data p"
  define A where "A = heads (staticSize_of ?all) ps"
  define z where "z = replicate (alignSize (length ?d) - length ?d) (0 :: byte)"
  have A: "length A = staticSize_of ps" by (simp add: A_def)
  have pad: "padded ?d = ?d @ z" by (simp add: padded_def z_def)
  show ?thesis
  proof (cases "pp_Dynamic p")
    case True
    let ?w = "to_big_endian (word_of_nat (staticSize_of ?all + dynamicSize_of ps))"
    define B where "B = heads (staticSize_of ?all + dynamicSize_of ps + alignSize (length ?d)) qs"
    define T where "T = tails qs"
    have e: "packed ?all = A @ ?w @ B @ tails ps @ ?d @ z @ T"
      using True by (simp add: packed_def heads_append tails_append A_def B_def T_def pad)
    have "segment (staticSize_of ps) 32 (packed ?all) = ?w"
      unfolding e by (rule segment_middle) (simp_all add: A)
    moreover have "segment (staticSize_of ?all + dynamicSize_of ps) (length ?d) (packed ?all) = ?d"
      using segment_middle [of "staticSize_of ?all + dynamicSize_of ps" "A @ ?w @ B @ tails ps" "length ?d" ?d "z @ T"]
        True A unfolding e by (simp add: B_def)
    ultimately show ?thesis
      using True length_packed [of ?all] by (simp add: packed_def Let_def)
  next
    case False
    define R where "R = heads (staticSize_of ?all + dynamicSize_of ps) qs @ tails ?all"
    have e: "packed ?all = A @ ?d @ z @ R"
      using False by (simp add: packed_def heads_append A_def R_def pad)
    have "segment (staticSize_of ps) (length ?d) (packed ?all) = ?d"
      unfolding e by (rule segment_middle) (simp_all add: A)
    then show ?thesis
      using False length_packed [of ?all] by (simp add: packed_def Let_def)
  qed
qed

section \<open>Elementary values\<close>

lemma length_to_bytes_loop: "to_bytes_loop s off h = Inr h' \<Longrightarrow> length h' = length h"
  by (induction s off h rule: to_bytes_loop.induct) (auto split: if_splits)

lemma length_abi_to_bytes: "abi_to_bytes s off True = Inr h \<Longrightarrow> length h = 32"
  by (auto simp: abi_to_bytes_def Let_def length_to_bytes_loop split: if_splits)

lemma Boolean_encode [simp]: "Boolean_encode b = Inr (to_big_endian (if b then 1 else 0))"
proof -
  have "(replicate 32 0)[31 := 1 :: byte] = to_big_endian 1" "(replicate 32 0)[31 := 0 :: byte] = to_big_endian 0"
    by code_simp+
  then show ?thesis by (simp add: Boolean_encode_def to_array_byte_def)
qed

lemma static_coder_cases:
  assumes "generate_coders_raw name len v = Inr c" "\<not> dynamicType c"
  obtains (address) bs where "c = Address bs" "length bs = 32"
    | (number) t w where "c = NumericType t w"
    | (bool) b where "c = Boolean b"
    | (bytes) t bs where "c = Bytes len t bs" "isValid_bytes len bs"
  using assms
  by (auto simp: generate_coders_raw_def new_Uint_def new_Int_def new_IntType_def new_Address_def new_Boolean_def
      new_Bytes_def tries_Inr Let_def length_abi_to_bytes split: if_splits)

text \<open>Every static elementary value (integers, addresses, booleans and \<open>bytesN\<close>) that
  \<open>generate_coders\<close> accepts is encoded as exactly one 32-byte word, and decoding that word, whatever follows
  it, gives the coder that was encoded; its offset moves the decoder one word on.\<close>

lemma static_value_round_trip:
  assumes "generate_coders_raw name len v = Inr c" "\<not> dynamicType c"
  shows "\<exists>data c'. encode_coder c = Inr (data, c') \<and> length data = 32 \<and> decode_coder c' (data @ rest) = Inr c' \<and>
    offset_of c' = 32"
  using assms
proof (cases rule: static_coder_cases)
  case (number t w)
  then show ?thesis by (simp add: NumericType_decode_def sub_vector_def segment_def from_big_endian_load)
next
  case (bool b)
  then show ?thesis by (simp add: Boolean_decode_def sub_vector_def segment_def from_big_endian_load)
next
  case (bytes t bs)
  then have l: "0 < length bs" "length bs \<le> 32" "length bs = unat len"
    unfolding isValid_bytes_def MAX_BYTE_LENGTH by blast+
  then have "length (Bytes_pad bs) = 32"
    by (cases "length bs = 32") (simp_all add: Bytes_pad_def Let_def)
  then show ?thesis using bytes(1) l by (simp add: Bytes_decode_def)
qed (simp add: Address_decode_def)

section \<open>Stepping over heads\<close>

lemma uint_coders [simp]:
  "generate_coders uint_json (JString num) = tries (to_uint256 num) (\<lambda>w. Inr (NumericType ''uint256'' w))"
  "entry_identity uint_json = Inr (NumericType ''uint256'' 0)"
  by (simp_all add: generate_coders_def entry_identity_def deref_type_def generate_coders_raw_def has_prefix_def
      type_names new_Uint_def new_IntType_def parse_int_def calc_bitSize_def isValidBitSize_def MAX_BIT_LENGTH_def
      to_string.simps char_of_def bit_Suc_0_iff to_uint256_def from_string_def c_str_def)

lemma length_string_to_bytes [simp]: "length (string_to_bytes s) = length s"
  by (simp add: string_to_bytes_def bytes_of_string_def)

text \<open>A decoder steps over the head of a dynamic value by the padded size of the value, not by the 32 bytes the
  head takes.  A string followed by an integer is decoded correctly when the string has 1 to 32 bytes;
  for 33 to 64 bytes the length of the string is returned in place of the integer.\<close>

lemma string_then_uint:
  assumes "to_uint256 num = Inr w" "1 \<le> length s" "length s \<le> 64"
  shows "\<exists>data e'. tries (add_inputs (new_Encoder entry) a ''string'' (JString s) string_json) (\<lambda>e.
      tries (add_inputs e b ''uint256'' (JString num) uint_json) Encoder_encode) = Inr (data, e') \<and>
    decode_values data [''string'', ''uint256''] [string_json, uint_json] =
      Inr [Utf8String (string_to_bytes s), NumericType ''uint256'' (if length s \<le> 32 then w else word_of_nat (length s))]"
proof -
  let ?s = "string_to_bytes s"
  define data where "data = to_big_endian 64 @ to_big_endian w @ bytes_layout ?s"
  have enc: "\<exists>e'. tries (add_inputs (new_Encoder entry) a ''string'' (JString s) string_json) (\<lambda>e.
      tries (add_inputs e b ''uint256'' (JString num) uint_json) Encoder_encode) = Inr (data, e')"
    using assms(1) by (simp add: new_Encoder_def add_inputs_def paramsCoder_def enc_add_params_def Encoder_encode_def
        pack_def packed_def data_def)
  have jump: "decode_to_uint64 data 0 32 = Inr 64"
    using decode_to_uint64_first [of 64] by (simp add: data_def)
  have str: "BytesType_decode (drop 64 data) = Inr ?s"
    using BytesType_decode [of ?s "[]"] assms(3) by (simp add: data_def)
  have al: "alignSize (length s) = (if length s \<le> 32 then 32 else 64)"
    using assms(2,3) div_nat_eqI [of 32 1 "length s + 31"] div_nat_eqI [of 32 2 "length s + 31"]
    by (simp add: alignSize_def)
  have num: "NumericType_decode t (drop (alignSize (length s)) data) =
      Inr (NumericType t (if length s \<le> 32 then w else word_of_nat (length s)))" for t
    unfolding al by (simp add: data_def bytes_layout_def NumericType_decode_def sub_vector_def segment_def from_big_endian_load)
  have "unat (word_of_nat (alignSize (length s)) :: u64) = alignSize (length s)" by (simp add: al)
  moreover have "64 \<le> length data" "alignSize (length s) \<le> length data" by (simp_all add: data_def)
  ultimately have "decode_values data [''string'', ''uint256''] [string_json, uint_json] =
      Inr [Utf8String ?s, NumericType ''uint256'' (if length s \<le> 32 then w else word_of_nat (length s))]"
    by (simp add: decode_values_def dec_add_params_def new_Decoder_def Decoder_decode_def jump str num)
  then show ?thesis using enc by blast
qed

text \<open>A decoder for \<open>bool\<close> cannot be made: the default value of its coder is the empty string.\<close>

lemma entry_identity_bool:
  "entry_identity (common_type_to_json (new_common_type (JString ''bool'') 0)) =
    Inl (UndefinedBehaviour ''index into an empty vector'')"
  by (simp add: entry_identity_def common_type_to_json_def new_common_type_def len_entry_def
      type_value_to_json_def type_value_from_json_def type_value_table_def parse_types_def common_type_from_json_def
      common_type_value_def optional_len_def require_object_def value_or_def deref_type_def generate_coders_raw_def
      has_prefix_def type_names new_Boolean_def to_bytes_def strip_def)

end
