(* ===== verification/EthTx.thy ===== *)
theory EthTx
  imports Rlp
begin

text \<open>
  Signed transactions: \<open>include/ethereum_transaction.h\<close>, \<open>include/ccf/crypto/recover.h\<close>,
  \<open>src/transaction/signature_abstract.h\<close>, \<open>src/transaction/signature.h\<close> and the message call
  of \<open>src/ethereum/types.h\<close>.

  The global variable \<open>current_chain_id\<close> is the argument \<open>chain\<close>.  The functions of the
  cryptographic libraries are arguments: \<open>recover_key\<close> finds the public key of a signature over a
  hash, \<open>sign_hash\<close> makes a signature.  A class with a signature extends the record of the
  class without.
\<close>

section \<open>Chain identifiers and recovery identifiers\<close>

definition pre_eip_155 :: u64 where "pre_eip_155 = 0"

definition ethereum_mainnet :: u64 where "ethereum_mainnet = 1"

definition geth_private_default :: u64 where "geth_private_default = 1337"

definition pre_155_v_start :: u64 where "pre_155_v_start = 27"

definition post_155_v_start :: u64 where "post_155_v_start = 35"

definition is_pre_eip_155 :: "u64 \<Rightarrow> bool" where
  "is_pre_eip_155 v \<longleftrightarrow> v = 27 \<or> v = 28"

definition to_ethereum_recovery_id :: "u64 \<Rightarrow> u64 \<Rightarrow> exn + u64" where
  "to_ethereum_recovery_id chain rec_id =
    (if rec_id > 3 then
       Inl (StdException LogicError (''ECDSA recovery values should be between 0 and 3, '' @
         to_string (unat rec_id) @ '' is invalid''))
     else if rec_id > 1 then
       Inl (StdException LogicError (''Ethereum only accepts finite curve coordinates, '' @
         to_string (unat rec_id) @ '' represents an infinite value''))
     else if chain = pre_eip_155 then Inr (rec_id + pre_155_v_start)
     else Inr (rec_id + chain * 2 + post_155_v_start))"

definition from_ethereum_recovery_id :: "u64 \<Rightarrow> u64 \<Rightarrow> exn + u64" where
  "from_ethereum_recovery_id chain v =
    (if is_pre_eip_155 v then Inr (v - pre_155_v_start)
     else if v < 37 then
       Inl (StdException LogicError (''Expected v to encode a valid chain ID (must be at least 37), but is '' @
         to_string (unat v)))
     else
       let rec_id = (v - post_155_v_start) mod 2;
           chain_id = ((v - rec_id) - post_155_v_start) div 2
       in if chain_id \<noteq> chain then Inl (StdException LogicError ''Invalid Sender!'') else Inr rec_id)"

section \<open>Addresses and signatures\<close>

definition encode_optional_address :: "u256 option \<Rightarrow> bytes" where
  "encode_optional_address address = (case address of None \<Rightarrow> [] | Some a \<Rightarrow> drop 12 (to_big_endian a))"

definition get_address_from_public_key :: "bytes \<Rightarrow> exn + u256" where
  "get_address_from_public_key pubKey =
    (if pubKey = [] then Inl (UndefinedBehaviour ''index into an empty vector'')
     else if pubKey ! 0 \<noteq> 4 then
       Inl (StdException LogicError (''Expected ASN.1 key to begin with 4, not '' @ to_string (unat (pubKey ! 0))))
     else from_big_endian (take 20 (drop 12 (Keccak256 (drop 1 pubKey)))))"

record RecoverableSignature =
  rs_raw :: bytes
  rs_recovery_id :: u64

text \<open>
  The constructor copies all bytes of its argument to the 64 bytes of \<open>raw\<close>, then reads byte 64 of
  the argument; with any number of bytes one of the two is out of bounds.
\<close>

definition new_RecoverableSignature :: "bytes \<Rightarrow> exn + RecoverableSignature" where
  "new_RecoverableSignature data =
    (if length data > 64 then Inl (UndefinedBehaviour ''copy past the end of the signature'')
     else Inl (UndefinedBehaviour ''index past the end of a vector''))"

definition rs_serialise :: "RecoverableSignature \<Rightarrow> bytes" where
  "rs_serialise rs = rs_raw rs @ [ucast (rs_recovery_id rs)]"

type_synonym recover_key = "RecoverableSignature \<Rightarrow> bytes \<Rightarrow> exn + bytes"

section \<open>Ethereum transactions\<close>

record MessageCall =
  mc_from :: u256
  mc_to :: "u256 option"
  mc_gas :: u256
  mc_gas_price :: u256
  mc_value :: u256
  mc_data :: string

definition new_MessageCall :: "u256 \<Rightarrow> u256 \<Rightarrow> bytes \<Rightarrow> MessageCall" where
  "new_MessageCall from to data =
    \<lparr>mc_from = from, mc_to = Some to, mc_gas = 5006112, mc_gas_price = 0, mc_value = 0,
     mc_data = to_hex_string_bytes data\<rparr>"

record EthereumTransaction =
  et_nonce :: u64
  et_gas_price :: u256
  et_gas :: u256
  et_to :: bytes
  et_value :: u256
  et_data :: bytes

record EthereumTransactionWithSignature = EthereumTransaction +
  et_v :: u64
  et_r :: u256
  et_s :: u256

definition new_EthereumTransaction :: "u64 \<Rightarrow> MessageCall \<Rightarrow> EthereumTransaction" where
  "new_EthereumTransaction nonce tc =
    \<lparr>et_nonce = nonce, et_gas_price = mc_gas_price tc, et_gas = mc_gas tc,
     et_to = encode_optional_address (mc_to tc), et_value = mc_value tc, et_data = to_bytes (mc_data tc)\<rparr>"

text \<open>The values of a decoded pack have the types it was decoded with, so the last case does not occur.\<close>

definition no_such_pack :: exn where
  "no_such_pack = UndefinedBehaviour ''pack of other types''"

definition et_decode :: "bytes \<Rightarrow> exn + EthereumTransaction" where
  "et_decode encoded =
    tries (Rlp.decode [TUint 64, TUint256, TUint256, TBytes, TUint256, TBytes] encoded) (\<lambda>tup.
    case tup of
      [VUint nonce, VUint256 gas_price, VUint256 gas, VBytes to, VUint256 v, VBytes data] \<Rightarrow>
        Inr \<lparr>et_nonce = nonce, et_gas_price = gas_price, et_gas = gas, et_to = to, et_value = v, et_data = data\<rparr>
    | _ \<Rightarrow> Inl no_such_pack)"

definition et_fields :: "'m EthereumTransaction_scheme \<Rightarrow> rlp_val list" where
  "et_fields tx =
    [VUint (et_nonce tx), VUint256 (et_gas_price tx), VUint256 (et_gas tx), VBytes (et_to tx), VUint256 (et_value tx),
     VBytes (et_data tx)]"

definition et_encode :: "'m EthereumTransaction_scheme \<Rightarrow> bytes" where
  "et_encode tx = encode_pack (et_fields tx)"

definition et_to_be_signed :: "'m EthereumTransaction_scheme \<Rightarrow> bytes" where
  "et_to_be_signed tx = Keccak256 (et_encode tx)"

definition to_be_signed_with_chain_id :: "u64 \<Rightarrow> 'm EthereumTransaction_scheme \<Rightarrow> bytes" where
  "to_be_signed_with_chain_id chain tx = Keccak256 (encode_pack (et_fields tx @ [VUint chain, VUint 0, VUint 0]))"

definition et_to_transaction_call :: "'m EthereumTransaction_scheme \<Rightarrow> MessageCall \<Rightarrow> exn + MessageCall" where
  "et_to_transaction_call tx tc =
    tries (if et_to tx = [] then Inr None else tries (from_big_endian (et_to tx)) (\<lambda>a. Inr (Some a))) (\<lambda>to.
    Inr (tc\<lparr>mc_gas_price := et_gas_price tx, mc_gas := et_gas tx, mc_to := to, mc_value := et_value tx,
      mc_data := to_hex_string_bytes (et_data tx)\<rparr>))"

section \<open>Ethereum transactions with signature\<close>

definition with_signature ::
  "EthereumTransaction \<Rightarrow> u64 \<Rightarrow> u256 \<Rightarrow> u256 \<Rightarrow> EthereumTransactionWithSignature" where
  "with_signature tx v r s =
    \<lparr>et_nonce = et_nonce tx, et_gas_price = et_gas_price tx, et_gas = et_gas tx, et_to = et_to tx,
     et_value = et_value tx, et_data = et_data tx, et_v = v, et_r = r, et_s = s\<rparr>"

definition ets_sign ::
  "u64 \<Rightarrow> EthereumTransaction \<Rightarrow> RecoverableSignature \<Rightarrow> exn + EthereumTransactionWithSignature" where
  "ets_sign chain tx sig =
    tries (to_ethereum_recovery_id chain (rs_recovery_id sig)) (\<lambda>v.
    tries (from_big_endian (take 32 (rs_raw sig))) (\<lambda>r.
    tries (from_big_endian (take 32 (drop 32 (rs_raw sig)))) (\<lambda>s.
    Inr (with_signature tx v r s))))"

definition ets_decode :: "bytes \<Rightarrow> exn + EthereumTransactionWithSignature" where
  "ets_decode encoded =
    tries (Rlp.decode [TUint 64, TUint256, TUint256, TBytes, TUint256, TBytes, TUint 64, TUint256, TUint256] encoded) (\<lambda>tup.
    case tup of
      [VUint nonce, VUint256 gas_price, VUint256 gas, VBytes to, VUint256 value, VBytes data, VUint v, VUint256 r, VUint256 s] \<Rightarrow>
        Inr \<lparr>et_nonce = nonce, et_gas_price = gas_price, et_gas = gas, et_to = to, et_value = value, et_data = data,
          et_v = v, et_r = r, et_s = s\<rparr>
    | _ \<Rightarrow> Inl no_such_pack)"

definition ets_encode :: "EthereumTransactionWithSignature \<Rightarrow> bytes" where
  "ets_encode tx = encode_pack (et_fields tx @ [VUint (et_v tx), VUint256 (et_r tx), VUint256 (et_s tx)])"

definition to_recoverable_signature :: "u64 \<Rightarrow> u64 \<Rightarrow> u256 \<Rightarrow> u256 \<Rightarrow> exn + RecoverableSignature" where
  "to_recoverable_signature chain v r s =
    tries (from_ethereum_recovery_id chain v) (\<lambda>recovery_id.
    Inr \<lparr>rs_raw = to_big_endian r @ to_big_endian s, rs_recovery_id = recovery_id\<rparr>)"

definition ets_to_be_signed :: "u64 \<Rightarrow> EthereumTransactionWithSignature \<Rightarrow> bool \<Rightarrow> bytes" where
  "ets_to_be_signed chain tx includeSignature =
    (if is_pre_eip_155 (et_v tx) then et_to_be_signed tx
     else if includeSignature then Keccak256 (ets_encode tx)
     else to_be_signed_with_chain_id chain tx)"

definition get_sender_address :: "recover_key \<Rightarrow> u64 \<Rightarrow> EthereumTransactionWithSignature \<Rightarrow> exn + u256" where
  "get_sender_address recover_key chain tx =
    tries (to_recoverable_signature chain (et_v tx) (et_r tx) (et_s tx)) (\<lambda>rs.
    let tbs = ets_to_be_signed chain tx False
    in tries (recover_key rs tbs) get_address_from_public_key)"

definition ets_to_transaction_call ::
  "recover_key \<Rightarrow> u64 \<Rightarrow> EthereumTransactionWithSignature \<Rightarrow> MessageCall \<Rightarrow> exn + MessageCall" where
  "ets_to_transaction_call recover_key chain tx tc =
    tries (et_to_transaction_call tx tc) (\<lambda>tc.
    tries (get_sender_address recover_key chain tx) (\<lambda>from.
    Inr (tc\<lparr>mc_from := from\<rparr>)))"

definition sign_transaction ::
  "(bytes \<Rightarrow> exn + bytes) \<Rightarrow> u64 \<Rightarrow> EthereumTransaction \<Rightarrow> bool \<Rightarrow> exn + EthereumTransactionWithSignature" where
  "sign_transaction sign_hash chain tx with_chain_id =
    (let tbs = (if with_chain_id then to_be_signed_with_chain_id chain tx else et_to_be_signed tx)
     in tries (sign_hash tbs) (\<lambda>sig.
        tries (new_RecoverableSignature sig) (\<lambda>re_sig.
        ets_sign chain tx re_sig)))"

definition sign_eth_tx :: "(bytes \<Rightarrow> exn + bytes) \<Rightarrow> u64 \<Rightarrow> MessageCall \<Rightarrow> u64 \<Rightarrow> exn + bytes" where
  "sign_eth_tx sign_hash chain mc nonce =
    tries (sign_transaction sign_hash chain (new_EthereumTransaction nonce mc) True) (\<lambda>ethTx. Inr (ets_encode ethTx))"

section \<open>Policy and multi-party transactions\<close>

text \<open>\<open>SignatureAbstract\<close>, whose recovery value \<open>v\<close> has eight bits.\<close>

record SignatureAbstract =
  sa_v :: byte
  sa_r :: u256
  sa_s :: u256

definition new_SignatureAbstract :: "u64 \<Rightarrow> RecoverableSignature \<Rightarrow> exn + SignatureAbstract" where
  "new_SignatureAbstract chain sig =
    tries (to_ethereum_recovery_id chain (rs_recovery_id sig)) (\<lambda>v.
    tries (from_big_endian (take 32 (rs_raw sig))) (\<lambda>r.
    tries (from_big_endian (take 32 (drop 32 (rs_raw sig)))) (\<lambda>s.
    Inr \<lparr>sa_v = ucast v, sa_r = r, sa_s = s\<rparr>)))"

definition getPublicKey :: "recover_key \<Rightarrow> u64 \<Rightarrow> 'm SignatureAbstract_scheme \<Rightarrow> bytes \<Rightarrow> exn + bytes" where
  "getPublicKey recover_key chain sig tbs =
    tries (to_recoverable_signature chain (ucast (sa_v sig)) (sa_r sig) (sa_s sig)) (\<lambda>rs. recover_key rs tbs)"

definition signatureAndVerify :: "recover_key \<Rightarrow> u64 \<Rightarrow> 'm SignatureAbstract_scheme \<Rightarrow> bytes \<Rightarrow> exn + u256" where
  "signatureAndVerify recover_key chain sig tbs =
    tries (getPublicKey recover_key chain sig tbs) get_address_from_public_key"

record PrivacyTransactionWithSignature = SignatureAbstract +
  pt_to :: bytes
  pt_verifierAddr :: bytes
  pt_codeHash :: bytes
  pt_data :: bytes

definition pt_fields :: "PrivacyTransactionWithSignature \<Rightarrow> rlp_val list" where
  "pt_fields tx = [VBytes (pt_to tx), VBytes (pt_verifierAddr tx), VBytes (pt_codeHash tx), VBytes (pt_data tx)]"

definition pt_decode :: "bytes \<Rightarrow> exn + PrivacyTransactionWithSignature" where
  "pt_decode encoded =
    tries (Rlp.decode [TBytes, TBytes, TBytes, TBytes, TUint 8, TUint256, TUint256] encoded) (\<lambda>tup.
    case tup of
      [VBytes to, VBytes verifierAddr, VBytes codeHash, VBytes data, VUint v, VUint256 r, VUint256 s] \<Rightarrow>
        Inr \<lparr>sa_v = ucast v, sa_r = r, sa_s = s, pt_to = to, pt_verifierAddr = verifierAddr, pt_codeHash = codeHash,
          pt_data = data\<rparr>
    | _ \<Rightarrow> Inl no_such_pack)"

definition pt_encode :: "PrivacyTransactionWithSignature \<Rightarrow> bytes" where
  "pt_encode tx = encode_pack (pt_fields tx @ [VUint (ucast (sa_v tx)), VUint256 (sa_r tx), VUint256 (sa_s tx)])"

definition pt_to_be_signed :: "u64 \<Rightarrow> PrivacyTransactionWithSignature \<Rightarrow> bytes" where
  "pt_to_be_signed chain tx =
    (if is_pre_eip_155 (ucast (sa_v tx)) then Keccak256 (encode_pack (pt_fields tx))
     else Keccak256 (encode_pack (pt_fields tx @ [VUint chain, VUint 0, VUint 0])))"

definition calc_policy_hash :: "PrivacyTransactionWithSignature \<Rightarrow> bytes" where
  "calc_policy_hash tx = Keccak256 (pt_data tx)"

record CloakTransactionWithSignature = SignatureAbstract +
  clt_nonce :: u64
  clt_to :: bytes
  clt_data :: bytes

definition clt_fields :: "CloakTransactionWithSignature \<Rightarrow> rlp_val list" where
  "clt_fields tx = [VUint (clt_nonce tx), VBytes (clt_to tx), VBytes (clt_data tx)]"

definition clt_decode :: "bytes \<Rightarrow> exn + CloakTransactionWithSignature" where
  "clt_decode encoded =
    tries (Rlp.decode [TUint 64, TBytes, TBytes, TUint 8, TUint256, TUint256] encoded) (\<lambda>tup.
    case tup of
      [VUint nonce, VBytes to, VBytes data, VUint v, VUint256 r, VUint256 s] \<Rightarrow>
        Inr \<lparr>sa_v = ucast v, sa_r = r, sa_s = s, clt_nonce = nonce, clt_to = to, clt_data = data\<rparr>
    | _ \<Rightarrow> Inl no_such_pack)"

definition clt_encode :: "CloakTransactionWithSignature \<Rightarrow> bytes" where
  "clt_encode tx = encode_pack (clt_fields tx @ [VUint (ucast (sa_v tx)), VUint256 (sa_r tx), VUint256 (sa_s tx)])"

definition clt_digest :: "CloakTransactionWithSignature \<Rightarrow> bytes" where
  "clt_digest tx = Keccak256 (clt_encode tx)"

definition clt_to_be_signed :: "u64 \<Rightarrow> CloakTransactionWithSignature \<Rightarrow> bytes" where
  "clt_to_be_signed chain tx =
    (if is_pre_eip_155 (ucast (sa_v tx)) then Keccak256 (encode_pack (clt_fields tx))
     else Keccak256 (encode_pack (clt_fields tx @ [VUint chain, VUint 0, VUint 0])))"

section \<open>Examples\<close>

definition example_signed_tx :: EthereumTransactionWithSignature where
  "example_signed_tx = \<lparr>et_nonce = 1, et_gas_price = 0, et_gas = 300, et_to = [1, 2], et_value = 5, et_data = [], et_v = 37,
    et_r = 7, et_s = 8\<rparr>"

definition example_signed_policy :: PrivacyTransactionWithSignature where
  "example_signed_policy = \<lparr>sa_v = 38, sa_r = 7, sa_s = 8, pt_to = [1], pt_verifierAddr = [2], pt_codeHash = [], pt_data = [200]\<rparr>"

definition example_signed_mpt :: CloakTransactionWithSignature where
  "example_signed_mpt = \<lparr>sa_v = 38, sa_r = 7, sa_s = 8, clt_nonce = 3, clt_to = [1], clt_data = [200]\<rparr>"

section \<open>Lemmas\<close>

lemma decode_pack:
  "list_all2 has_type ts vs \<Longrightarrow> \<not> list_ex is_tuple ts \<Longrightarrow> length (encode_pack vs) < 2 ^ 32 \<Longrightarrow>
    Rlp.decode ts (encode_pack vs) = Inr vs"
  by (rule decode_encode_pack) simp_all

lemma unat_u64_less [simp]: "unat (n :: u64) < 18446744073709551616"
  using unsigned_less [of n, where ?'a = nat] by simp

lemma unat_ucast_byte [simp]: "unat (ucast (b :: byte) :: u64) = unat b"
  by (simp add: unsigned_ucast_eq take_bit_nat_eq_self order.strict_trans [OF unsigned_less])

lemma ucast_byte_back [simp]: "(ucast (ucast (b :: byte) :: u64) :: byte) = b"
  by (rule bit_word_eqI) (simp add: bit_ucast_iff)

lemma ucast_small: "unat v < 256 \<Longrightarrow> ucast (ucast v :: byte) = (v :: u64)"
  by (simp add: word_unat_eq_iff unsigned_ucast_eq unsigned_take_bit_eq take_bit_nat_eq_self)

lemma unat_byte_less [simp]: "unat (b :: byte) < 256"
  using unsigned_less [of b, where ?'a = nat] by simp

lemma recovery_id_cases: "rec_id \<le> 1 \<Longrightarrow> rec_id = 0 \<or> rec_id = (1 :: u64)"
  by unat_arith

lemma recovery_id_back:
  assumes "rec_id \<le> 1" and "unat chain < 2 ^ 63 - 18"
  shows "\<exists>v. to_ethereum_recovery_id chain rec_id = Inr v \<and> from_ethereum_recovery_id chain v = Inr rec_id \<and>
    is_pre_eip_155 v = (chain = 0) \<and> (chain \<noteq> 0 \<longrightarrow> unat v = unat rec_id + 2 * unat chain + 35)"
proof (cases "chain = 0")
  case True
  then show ?thesis using recovery_id_cases [OF assms(1)]
    by (auto simp: to_ethereum_recovery_id_def from_ethereum_recovery_id_def is_pre_eip_155_def pre_eip_155_def
        pre_155_v_start_def post_155_v_start_def)
next
  case False
  define v where "v = rec_id + chain * 2 + 35"
  have r: "unat rec_id \<le> 1" using assms(1) by (simp add: word_le_nat_alt)
  have c: "unat chain \<ge> 1" using False by (simp add: unat_gt_0 Suc_leI)
  have v: "unat v = unat rec_id + 2 * unat chain + 35"
    using r assms(2) unfolding v_def by (simp add: unat_word_ariths)
  have pre: "\<not> is_pre_eip_155 v" "\<not> v < 37" using v c by (auto simp: is_pre_eip_155_def word_less_nat_alt)
  have d: "unat (v - 35) = unat rec_id + 2 * unat chain" using v by (simp add: unat_sub word_le_nat_alt)
  have m: "(v - 35) mod 2 = rec_id"
    using d r by (simp add: word_unat_eq_iff unat_mod)
  have "unat (v - rec_id - 35) = 2 * unat chain" using v by (simp add: unat_sub word_le_nat_alt)
  then have "(v - rec_id - 35) div 2 = chain" by (simp add: word_unat_eq_iff unat_div)
  moreover have "\<not> rec_id > 3" "\<not> rec_id > 1" using r by (simp_all add: word_less_nat_alt)
  ultimately show ?thesis
    using False pre m v by (simp add: to_ethereum_recovery_id_def from_ethereum_recovery_id_def pre_eip_155_def
        post_155_v_start_def v_def Let_def)
qed

lemma signature_bytes:
  assumes "length raw = 64"
  shows "from_big_endian (take 32 raw) = Inr (be_load (take 32 raw))"
    and "from_big_endian (take 32 (drop 32 raw)) = Inr (be_load (take 32 (drop 32 raw)))"
    and "to_big_endian (be_load (take 32 raw)) @ to_big_endian (be_load (take 32 (drop 32 raw))) = raw"
  using assms by (simp_all add: from_big_endian_load to_big_endian_be_load)

section \<open>Properties\<close>

text \<open>Claim C16.  A signed transaction survives its encoding: reading back what \<open>encode\<close> wrote gives the transaction, for
  Ethereum transactions, for privacy policies and for multi-party transactions, as long as the
  encoding is shorter than \<open>2 ^ 32\<close> bytes.\<close>

theorem transaction_round_trip:
  "(length (ets_encode tx) < 2 ^ 32 \<longrightarrow> ets_decode (ets_encode tx) = Inr tx) \<and>
   (length (pt_encode p) < 2 ^ 32 \<longrightarrow> pt_decode (pt_encode p) = Inr p) \<and>
   (length (clt_encode c) < 2 ^ 32 \<longrightarrow> clt_decode (clt_encode c) = Inr c)"
proof (intro conjI impI)
  assume "length (ets_encode tx) < 2 ^ 32"
  then have "Rlp.decode [TUint 64, TUint256, TUint256, TBytes, TUint256, TBytes, TUint 64, TUint256, TUint256] (ets_encode tx) =
      Inr (et_fields tx @ [VUint (et_v tx), VUint256 (et_r tx), VUint256 (et_s tx)])"
    unfolding ets_encode_def by (intro decode_pack) (simp_all add: et_fields_def)
  then show "ets_decode (ets_encode tx) = Inr tx" by (simp add: ets_decode_def et_fields_def)
next
  assume "length (pt_encode p) < 2 ^ 32"
  then have "Rlp.decode [TBytes, TBytes, TBytes, TBytes, TUint 8, TUint256, TUint256] (pt_encode p) =
      Inr (pt_fields p @ [VUint (ucast (sa_v p)), VUint256 (sa_r p), VUint256 (sa_s p)])"
    unfolding pt_encode_def by (intro decode_pack) (simp_all add: pt_fields_def)
  then show "pt_decode (pt_encode p) = Inr p" by (simp add: pt_decode_def pt_fields_def)
next
  assume "length (clt_encode c) < 2 ^ 32"
  then have "Rlp.decode [TUint 64, TBytes, TBytes, TUint 8, TUint256, TUint256] (clt_encode c) =
      Inr (clt_fields c @ [VUint (ucast (sa_v c)), VUint256 (sa_r c), VUint256 (sa_s c)])"
    unfolding clt_encode_def by (intro decode_pack) (simp_all add: clt_fields_def)
  then show "clt_decode (clt_encode c) = Inr c" by (simp add: clt_decode_def clt_fields_def)
qed

theorem transaction_round_trip_witness:
  "ets_decode (ets_encode example_signed_tx) = Inr example_signed_tx \<and> pt_decode (pt_encode example_signed_policy) = Inr example_signed_policy \<and>
    clt_decode (clt_encode example_signed_mpt) = Inr example_signed_mpt"
proof -
  have "length (ets_encode example_signed_tx) = 14" "length (pt_encode example_signed_policy) = 9" "length (clt_encode example_signed_mpt) = 8"
    by code_simp+
  then show ?thesis using transaction_round_trip [of example_signed_tx example_signed_policy example_signed_mpt] by simp
qed

text \<open>Claim C17.  Recovery values: an identifier that is 0 or 1 comes back from the value made for it, for every chain
  identifier below \<open>2 ^ 63 - 18\<close>, and chain 0 uses the values from before EIP-155.  Where the
  value is kept in eight bits, this holds for chain identifiers up to 109; with the private
  chain identifier 1337 every such signature is refused.\<close>

theorem recovery_id_bounds:
  assumes "rec_id \<le> 1"
  shows "(unat chain < 2 ^ 63 - 18 \<longrightarrow> (\<exists>v. to_ethereum_recovery_id chain rec_id = Inr v \<and>
      from_ethereum_recovery_id chain v = Inr rec_id \<and> is_pre_eip_155 v = (chain = pre_eip_155))) \<and>
    (chain \<le> 109 \<longrightarrow> (\<exists>v. to_ethereum_recovery_id chain rec_id = Inr v \<and>
      from_ethereum_recovery_id chain (ucast (ucast v :: byte)) = Inr rec_id)) \<and>
    (\<exists>v. to_ethereum_recovery_id geth_private_default rec_id = Inr v \<and>
      from_ethereum_recovery_id geth_private_default (ucast (ucast v :: byte)) =
        Inl (StdException LogicError ''Invalid Sender!''))"
proof (intro conjI impI)
  assume "unat chain < 2 ^ 63 - 18"
  then show "\<exists>v. to_ethereum_recovery_id chain rec_id = Inr v \<and>
      from_ethereum_recovery_id chain v = Inr rec_id \<and> is_pre_eip_155 v = (chain = pre_eip_155)"
    using recovery_id_back [OF assms] by (auto simp: pre_eip_155_def)
next
  assume "chain \<le> 109"
  then have c: "unat chain \<le> 109" by (simp add: word_le_nat_alt)
  then obtain v where v: "to_ethereum_recovery_id chain rec_id = Inr v" "from_ethereum_recovery_id chain v = Inr rec_id"
    "is_pre_eip_155 v = (chain = 0)" "chain \<noteq> 0 \<longrightarrow> unat v = unat rec_id + 2 * unat chain + 35"
    using recovery_id_back [OF assms, of chain] by auto
  have "unat v < 256"
  proof (cases "chain = 0")
    case True
    then show ?thesis using v(3) by (auto simp: is_pre_eip_155_def)
  next
    case False
    moreover have "unat rec_id \<le> 1" using assms by (simp add: word_le_nat_alt)
    ultimately show ?thesis using v(4) c by simp
  qed
  then have "ucast (ucast v :: byte) = v" by (rule ucast_small)
  then show "\<exists>v. to_ethereum_recovery_id chain rec_id = Inr v \<and>
      from_ethereum_recovery_id chain (ucast (ucast v :: byte)) = Inr rec_id"
    using v by auto
next
  show "\<exists>v. to_ethereum_recovery_id geth_private_default rec_id = Inr v \<and>
      from_ethereum_recovery_id geth_private_default (ucast (ucast v :: byte)) =
        Inl (StdException LogicError ''Invalid Sender!'')"
    using recovery_id_cases [OF assms]
    by (auto simp: to_ethereum_recovery_id_def from_ethereum_recovery_id_def geth_private_default_def is_pre_eip_155_def
        pre_eip_155_def pre_155_v_start_def post_155_v_start_def)
qed

theorem recovery_id_bounds_witness:
  "\<exists>v. to_ethereum_recovery_id 1 1 = Inr v \<and> from_ethereum_recovery_id 1 (ucast (ucast v :: byte)) = Inr 1"
  using recovery_id_bounds [of 1 1] by simp

text \<open>Claim C18.  Whose signature is checked: the sender of a transaction to which a signature was added is computed by
  recovering the key from exactly that signature, over the hash with the chain identifier when
  there is one and over the hash without it on chain 0.  So a transaction signed over the hash
  without chain identifier, as \<open>sign_transaction\<close> does by default, is checked against another
  hash on every chain but 0.\<close>

theorem sender_is_recovered:
  assumes "rs_recovery_id sig \<le> 1" and "length (rs_raw sig) = 64" and "unat chain < 2 ^ 63 - 18"
  shows "\<exists>stx. ets_sign chain tx sig = Inr stx \<and>
    get_sender_address recover_key chain stx =
      tries (recover_key sig (if chain = 0 then et_to_be_signed tx else to_be_signed_with_chain_id chain tx))
        get_address_from_public_key"
proof -
  obtain v where v: "to_ethereum_recovery_id chain (rs_recovery_id sig) = Inr v"
    "from_ethereum_recovery_id chain v = Inr (rs_recovery_id sig)" "is_pre_eip_155 v = (chain = 0)"
    using recovery_id_back [OF assms(1,3)] by auto
  let ?r = "be_load (take 32 (rs_raw sig))" and ?s = "be_load (take 32 (drop 32 (rs_raw sig)))"
  have "\<lparr>rs_raw = to_big_endian ?r @ to_big_endian ?s, rs_recovery_id = rs_recovery_id sig\<rparr> = sig"
    using signature_bytes(3) [OF assms(2)] by simp
  moreover have "et_to_be_signed (with_signature tx v ?r ?s) = et_to_be_signed tx"
    "to_be_signed_with_chain_id chain (with_signature tx v ?r ?s) = to_be_signed_with_chain_id chain tx"
    by (simp_all add: with_signature_def et_to_be_signed_def et_encode_def et_fields_def to_be_signed_with_chain_id_def)
  moreover have "et_v (with_signature tx v ?r ?s) = v" "et_r (with_signature tx v ?r ?s) = ?r"
    "et_s (with_signature tx v ?r ?s) = ?s"
    by (simp_all add: with_signature_def)
  ultimately have "get_sender_address recover_key chain (with_signature tx v ?r ?s) =
      tries (recover_key sig (if chain = 0 then et_to_be_signed tx else to_be_signed_with_chain_id chain tx))
        get_address_from_public_key"
    using v by (simp add: get_sender_address_def to_recoverable_signature_def ets_to_be_signed_def)
  then show ?thesis using v signature_bytes(1,2) [OF assms(2)] by (simp add: ets_sign_def)
qed

theorem sender_is_recovered_witness:
  "\<exists>stx. ets_sign 1 (new_EthereumTransaction 0 (new_MessageCall 1 2 [3])) \<lparr>rs_raw = replicate 64 9, rs_recovery_id = 1\<rparr> = Inr stx \<and>
    get_sender_address (\<lambda>rs h. Inr [4, 5]) 1 stx = get_address_from_public_key [4, 5]"
  using sender_is_recovered [of "\<lparr>rs_raw = replicate 64 9, rs_recovery_id = 1\<rparr>" 1
      "new_EthereumTransaction 0 (new_MessageCall 1 2 [3])" "\<lambda>rs h. Inr [4, 5]"] by simp

text \<open>No call of \<open>sign_transaction\<close> is defined: adding the signature to the transaction overruns it.\<close>

lemma sign_transaction_never_returns: "sign_transaction sign_hash chain tx with_chain_id \<noteq> Inr stx"
  by (auto simp: sign_transaction_def Let_def tries_Inr new_RecoverableSignature_def split: if_splits)

end
