(* ===== verification/EthState.thy ===== *)
theory EthState
  imports EthTx Runs "HOL-Library.Product_Lexorder"
begin

text \<open>
  The world that the enclave keeps in its key-value store: \<open>state.h\<close>, \<open>account_proxy.h\<close>,
  \<open>encryptor.h\<close>, \<open>transaction_sync.h\<close>, \<open>execute_transaction.h\<close> of \<open>src/ethereum\<close>,
  \<open>src/enclave/export_state.h\<close> and the request \<open>eth_sendRawTransaction\<close> of
  \<open>src/app/rpc/endpoint_registry.h\<close>.

  A table \<open>kv::Map\<close> is a partial map; a \<open>kv::Set\<close> is the list of its members in the order in
  which \<open>foreach\<close> visits them.  The tables and the cache of proxies are one record.  A reference to
  an account is the address of its proxy, which the cache never removes.

  The record \<open>eth_ext\<close> is what is outside: the random initialisation vectors, AES-GCM and the
  host's answer to \<open>export_state\<close>.
\<close>

section \<open>Data\<close>

datatype ContractLevel = BASIC | SOLIDITY | SOLIDITY_ENHANCE | CLOAK

fun level_rank :: "ContractLevel \<Rightarrow> nat" where
  "level_rank BASIC = 0"
| "level_rank SOLIDITY = 1"
| "level_rank SOLIDITY_ENHANCE = 2"
| "level_rank CLOAK = 3"

type_synonym StorageKey = "u256 \<times> u256"

record AccountProxy =
  ap_level :: ContractLevel
  ap_encryptor :: "bytes option"

record TxResult =
  txr_contract_address :: "u256 option"
  txr_logs :: "LogEntry list"

record EthereumState =
  es_current_block :: Block
  es_balances :: "u256 \<rightharpoonup> u256"
  es_codes :: "u256 \<rightharpoonup> bytes"
  es_nonces :: "u256 \<rightharpoonup> u64"
  es_storage :: "StorageKey \<rightharpoonup> bytes"
  es_pending_storage :: "StorageKey \<rightharpoonup> bytes"
  es_pending :: "StorageKey list"
  es_syncs :: "StorageKey list"
  es_encryptedKey :: "u256 \<rightharpoonup> bytes"
  es_contractLevels :: "u256 \<rightharpoonup> ContractLevel"
  es_results :: "u256 \<rightharpoonup> TxResult"
  es_cache :: "u256 \<rightharpoonup> AccountProxy"
  es_draws :: nat

record eth_ext =
  ext_random :: "nat \<Rightarrow> bytes"
  ext_aes_encrypt :: "bytes \<Rightarrow> bytes \<Rightarrow> bytes \<Rightarrow> bytes \<times> bytes"
  ext_aes_decrypt :: "bytes \<Rightarrow> bytes \<Rightarrow> bytes \<Rightarrow> bytes \<Rightarrow> bytes option"
  ext_export_state :: "u256 \<Rightarrow> u256 \<Rightarrow> u256 option"

text \<open>\<open>insert\<close> into a \<open>kv::Set\<close>.\<close>

definition set_insert :: "'a \<Rightarrow> 'a list \<Rightarrow> 'a list" where
  "set_insert x xs = (if x \<in> set xs then xs else xs @ [x])"

section \<open>Encryption of states\<close>

definition serialise_cipher :: "bytes \<Rightarrow> bytes \<Rightarrow> bytes \<Rightarrow> exn + bytes" where
  "serialise_cipher cipher tag iv =
    (let bs = cipher @ tag @ iv
     in if length bs > 64 then Inl (StdException LogicError ''Insufficient space (write block)'')
        else Inr (bs @ replicate (64 - length bs) 0))"

definition deserialise_cipher :: "bytes \<Rightarrow> exn + bytes \<times> bytes \<times> bytes" where
  "deserialise_cipher serial =
    (if length serial < 60 then Inl (StdException LogicError ''Insufficient space (read block)'')
     else Inr (take 32 serial, segment 32 16 serial, segment 48 12 serial))"

definition encrypt_state :: "eth_ext \<Rightarrow> bytes \<Rightarrow> nat \<Rightarrow> bytes \<Rightarrow> exn + bytes" where
  "encrypt_state ext key draw plain =
    (if length plain \<noteq> 32 then
       Inl (StdException RuntimeError (''Specified plain is not of size 32, get '' @ to_string (length plain)))
     else
       let iv = ext_random ext draw; (cipher, tag) = ext_aes_encrypt ext key iv plain
       in serialise_cipher cipher tag iv)"

definition decrypt_state :: "eth_ext \<Rightarrow> bytes \<Rightarrow> bytes \<Rightarrow> exn + bytes option" where
  "decrypt_state ext key serial_cipher =
    tries (deserialise_cipher serial_cipher) (\<lambda>(cipher, tag, iv). Inr (ext_aes_decrypt ext key iv tag cipher))"

text \<open>\<open>from_big_endian\<close> of a pointer to the data of a vector, which reads 32 bytes.\<close>

definition from_data :: "bytes \<Rightarrow> exn + u256" where
  "from_data bs =
    (if length bs < 32 then Inl (UndefinedBehaviour ''read past the end of a vector'')
     else from_big_endian (take 32 bs))"

definition get_export_state :: "eth_ext \<Rightarrow> u256 \<Rightarrow> u256 \<Rightarrow> exn + u256" where
  "get_export_state ext address key =
    (case ext_export_state ext address key of
      Some val \<Rightarrow> Inr val
    | None \<Rightarrow> Inl (StdException RuntimeError ''Web3 Client get export_state failed!!''))"

section \<open>Account proxies\<close>

definition the_proxy :: "u256 \<Rightarrow> (EthereumState, AccountProxy) act" where
  "the_proxy this = bind (reads es_cache) (\<lambda>cache.
    case cache this of
      None \<Rightarrow> raise (UndefinedBehaviour ''dangling account reference'')
    | Some p \<Rightarrow> ret p)"

definition ap_get_balance :: "u256 \<Rightarrow> (EthereumState, u256) act" where
  "ap_get_balance this = andthen (the_proxy this)
    (reads (\<lambda>g. case es_balances g this of None \<Rightarrow> 0 | Some b \<Rightarrow> b))"

definition ap_set_balance :: "u256 \<Rightarrow> u256 \<Rightarrow> (EthereumState, unit) act" where
  "ap_set_balance this b = andthen (the_proxy this)
    (upd (\<lambda>g. g\<lparr>es_balances := (es_balances g)(this \<mapsto> b)\<rparr>))"

definition ap_get_nonce :: "u256 \<Rightarrow> (EthereumState, u64) act" where
  "ap_get_nonce this = andthen (the_proxy this)
    (reads (\<lambda>g. case es_nonces g this of None \<Rightarrow> 0 | Some n \<Rightarrow> n))"

definition ap_increment_nonce :: "u256 \<Rightarrow> (EthereumState, unit) act" where
  "ap_increment_nonce this = bind (ap_get_nonce this) (\<lambda>nonce.
    upd (\<lambda>g. g\<lparr>es_nonces := (es_nonces g)(this \<mapsto> nonce + 1)\<rparr>))"

definition ap_get_code :: "u256 \<Rightarrow> (EthereumState, bytes) act" where
  "ap_get_code this = andthen (the_proxy this)
    (reads (\<lambda>g. case es_codes g this of None \<Rightarrow> [] | Some c \<Rightarrow> c))"

definition ap_set_code :: "u256 \<Rightarrow> bytes \<Rightarrow> (EthereumState, unit) act" where
  "ap_set_code this c = andthen (the_proxy this)
    (upd (\<lambda>g. g\<lparr>es_codes := (es_codes g)(this \<mapsto> c)\<rparr>))"

definition update_pending :: "u256 \<Rightarrow> u256 \<Rightarrow> (EthereumState, unit) act" where
  "update_pending this key = upd (\<lambda>g. g\<lparr>es_pending := set_insert (this, key) (es_pending g)\<rparr>)"

definition ap_store :: "eth_ext \<Rightarrow> u256 \<Rightarrow> u256 \<Rightarrow> u256 \<Rightarrow> (EthereumState, unit) act" where
  "ap_store ext this key val = bind (the_proxy this) (\<lambda>p.
    bind (case ap_encryptor p of
        Some k \<Rightarrow>
          bind (reads es_draws) (\<lambda>draw.
          andthen (upd (\<lambda>g. g\<lparr>es_draws := draw + 1\<rparr>))
            (lifts (encrypt_state ext k draw (to_big_endian val))))
      | None \<Rightarrow> ret (to_big_endian val)) (\<lambda>state.
    andthen (upd (\<lambda>g. g\<lparr>es_storage := (es_storage g)((this, key) \<mapsto> state)\<rparr>))
      (if level_rank (ap_level p) > level_rank BASIC then update_pending this key else ret ())))"

definition save_old_state :: "u256 \<Rightarrow> u256 \<Rightarrow> bytes \<Rightarrow> (EthereumState, unit) act" where
  "save_old_state this key state =
    upd (\<lambda>g. g\<lparr>es_pending_storage := (es_pending_storage g)((this, key) \<mapsto> state)\<rparr>)"

definition load_stored :: "eth_ext \<Rightarrow> AccountProxy \<Rightarrow> u256 \<Rightarrow> u256 \<Rightarrow> bytes \<Rightarrow> (EthereumState, u256) act" where
  "load_stored ext p this key state =
    bind (reads (\<lambda>g. es_pending_storage g (this, key) = None)) (\<lambda>first.
    andthen (if first \<and> level_rank (ap_level p) > level_rank BASIC then save_old_state this key state else ret ())
      (if level_rank (ap_level p) > level_rank SOLIDITY \<and> length state > 32 then
        (case ap_encryptor p of
          None \<Rightarrow> raise (UndefinedBehaviour ''null encryptor'')
        | Some k \<Rightarrow> bind (lifts (decrypt_state ext k state)) (\<lambda>r.
            case r of
              Some plain \<Rightarrow> lifts (from_data plain)
            | None \<Rightarrow> raise (StdException RuntimeError
                (''contract state decrypt failed, get key '' @ to_hex_string key))))
      else lifts (from_data state)))"

definition ap_load :: "eth_ext \<Rightarrow> u256 \<Rightarrow> u256 \<Rightarrow> (EthereumState, u256) act" where
  "ap_load ext this key = bind (the_proxy this) (\<lambda>p.
    bind (reads (\<lambda>g. es_storage g (this, key))) (\<lambda>state.
    case state of
      Some state \<Rightarrow> load_stored ext p this key state
    | None \<Rightarrow>
        if ap_level p = BASIC then ret 0
        else bind (lifts (get_export_state ext this key)) (\<lambda>val.
          andthen (save_old_state this key (to_big_endian val))
            (if ap_level p = SOLIDITY then ret val
             else raise (StdException RuntimeError
               (''Contract privacy enhancements are not yet supported, get contract '' @ to_hex_string this))))))"

definition ap_remove :: "u256 \<Rightarrow> u256 \<Rightarrow> (EthereumState, bool) act" where
  "ap_remove this key = andthen (the_proxy this)
    (bind (reads (\<lambda>g. es_storage g (this, key) \<noteq> None)) (\<lambda>found.
    andthen (upd (\<lambda>g. g\<lparr>es_storage := (es_storage g)((this, key) := None)\<rparr>)) (ret found)))"

section \<open>The global state\<close>

definition add_to_cache :: "u256 \<Rightarrow> (EthereumState, u256) act" where
  "add_to_cache address =
    bind (reads (\<lambda>g. es_cache g address = None)) (\<lambda>inserted.
    andthen (guard inserted (CloakException (''Added account proxy to cache at address '' @
        to_checksum_address address @ '', but an entry already existed'')))
      (andthen (upd (\<lambda>g. g\<lparr>es_cache := (es_cache g)(address \<mapsto>
          \<lparr>ap_level = (case es_contractLevels g address of None \<Rightarrow> BASIC | Some l \<Rightarrow> l),
           ap_encryptor = es_encryptedKey g address\<rparr>)\<rparr>))
        (ret address)))"

definition already_has :: "string \<Rightarrow> u256 \<Rightarrow> exn" where
  "already_has what address = CloakException (''Trying to create account at '' @ to_checksum_address address @
    '', but it already has '' @ what)"

definition es_create :: "u256 \<Rightarrow> u256 \<Rightarrow> bytes \<Rightarrow> (EthereumState, u256) act" where
  "es_create address balance code =
    (let initial_nonce = (if code \<noteq> [] then 1 else 0)
     in bind (reads (\<lambda>g. es_balances g address)) (\<lambda>balance_it.
        andthen (guard (balance_it = None) (already_has ''a balance'' address))
        (andthen (upd (\<lambda>g. g\<lparr>es_balances := (es_balances g)(address \<mapsto> balance)\<rparr>))
        (bind (reads (\<lambda>g. es_codes g address)) (\<lambda>code_it.
        andthen (guard (code_it = None) (already_has ''code'' address))
        (andthen (upd (\<lambda>g. g\<lparr>es_codes := (es_codes g)(address \<mapsto> code)\<rparr>))
        (bind (reads (\<lambda>g. es_nonces g address)) (\<lambda>nonce_it.
        andthen (guard (nonce_it = None) (already_has ''a nonce'' address))
        (andthen (upd (\<lambda>g. g\<lparr>es_nonces := (es_nonces g)(address \<mapsto> initial_nonce)\<rparr>))
        (add_to_cache address))))))))))"

definition es_get :: "u256 \<Rightarrow> (EthereumState, u256) act" where
  "es_get address =
    bind (reads (\<lambda>g. es_cache g address)) (\<lambda>cache_it.
    if cache_it \<noteq> None then ret address
    else bind (reads (\<lambda>g. es_balances g address)) (\<lambda>kind_it.
      if kind_it = None then es_create address 0 [] else add_to_cache address))"

definition es_remove :: "u256 \<Rightarrow> (EthereumState, unit) act" where
  "es_remove addr = raise (CloakException ''not implemented'')"

definition eth_ops :: "eth_ext \<Rightarrow> EthereumState gs_ops" where
  "eth_ops ext =
    \<lparr>gs_remove = es_remove,
     gs_get = es_get,
     gs_create = es_create,
     gs_get_current_block = reads es_current_block,
     gs_get_block_hash = (\<lambda>offset. ret 0),
     acc_get_address = (\<lambda>r. andthen (the_proxy r) (ret r)),
     acc_get_balance = ap_get_balance,
     acc_set_balance = ap_set_balance,
     acc_get_nonce = ap_get_nonce,
     acc_increment_nonce = ap_increment_nonce,
     acc_get_code = ap_get_code,
     acc_has_code = (\<lambda>r. bind (ap_get_code r) (\<lambda>code. ret (code \<noteq> []))),
     acc_set_code = ap_set_code,
     st_store = ap_store ext,
     st_load = ap_load ext,
     st_remove = ap_remove\<rparr>"

section \<open>Execution of a transaction\<close>

definition new_Transaction :: "u256 \<Rightarrow> LogHandler \<Rightarrow> Transaction" where
  "new_Transaction origin lh =
    \<lparr>tx_origin = origin, tx_value = 0, tx_gas_price = 0, tx_gas_limit = 0, tx_log_handler = lh,
     tx_selfdestruct_list = []\<rparr>"

text \<open>
  The type of what may run forever: \<open>None\<close> when the fuel of the interpreter loop is used up.  The
  environment of the processor holds the operations \<open>eth_ops\<close>.
\<close>

type_synonym 'a evm_run = "EthereumState \<Rightarrow> ((exn + 'a) \<times> EthereumState) option"

definition then_run :: "(EthereumState, 'a) act \<Rightarrow> ('a \<Rightarrow> 'b evm_run) \<Rightarrow> 'b evm_run" where
  "then_run m k = (\<lambda>g. case m g of (Inl e, g) \<Rightarrow> Some (Inl e, g) | (Inr x, g) \<Rightarrow> k x g)"

definition after_run :: "'a evm_run \<Rightarrow> ('a \<Rightarrow> (EthereumState, 'b) act) \<Rightarrow> 'b evm_run" where
  "after_run m k = (\<lambda>g. case m g of
      None \<Rightarrow> None
    | Some (Inl e, g) \<Rightarrow> Some (Inl e, g)
    | Some (Inr x, g) \<Rightarrow> Some (k x g))"

definition evm_run_at ::
  "EthereumState env \<Rightarrow> nat \<Rightarrow> MessageCall \<Rightarrow> u256 \<Rightarrow> (ExecResult \<times> u256 \<times> LogHandler) evm_run" where
  "evm_run_at env fuel call_data to =
    then_run (bind (gs_get (env_ops env) to) (\<lambda>account_state.
      bind (acc_has_code (env_ops env) account_state) (\<lambda>has_code.
      andthen (guard has_code (CloakException (''this address ['' @ to_hex_string to @ ''] is a common address'')))
        (ret account_state)))) (\<lambda>account_state g.
    case run env fuel (new_Transaction (mc_from call_data) (VectorLogHandler [])) (mc_from call_data) account_state
        (to_bytes (mc_data call_data)) (mc_value call_data) None g of
      None \<Rightarrow> None
    | Some (Inl e, p) \<Rightarrow> Some (Inl e, p_gs p)
    | Some (Inr result, p) \<Rightarrow> Some (Inr (result, account_state, tx_log_handler (p_tx p)), p_gs p))"

definition deploy_to :: "EthereumState env \<Rightarrow> MessageCall \<Rightarrow> (EthereumState, u256) act" where
  "deploy_to env call_data =
    (case mc_to call_data of
      Some to \<Rightarrow> ret to
    | None \<Rightarrow>
        bind (gs_get (env_ops env) (mc_from call_data)) (\<lambda>from_state.
        bind (acc_get_address (env_ops env) from_state) (\<lambda>address.
        bind (acc_get_nonce (env_ops env) from_state) (\<lambda>nonce.
        let to = generate_address address nonce
        in andthen (gs_create (env_ops env) to (mc_gas call_data) (to_bytes (mc_data call_data))) (ret to)))))"

definition run_in_evm ::
  "EthereumState env \<Rightarrow> nat \<Rightarrow> MessageCall \<Rightarrow> (ExecResult \<times> u256 \<times> LogHandler) evm_run" where
  "run_in_evm env fuel call_data =
    then_run (deploy_to env call_data) (\<lambda>to.
    after_run (evm_run_at env fuel call_data to) (\<lambda>(exec_result, account_state, lh).
    if res_er exec_result = Threw then ret (exec_result, 0, lh)
    else
      andthen (if mc_to call_data = None then acc_set_code (env_ops env) account_state (res_output exec_result) else ret ())
        (bind (gs_get (env_ops env) (mc_from call_data)) (\<lambda>from_state.
        andthen (acc_get_nonce (env_ops env) from_state)
          (andthen (acc_increment_nonce (env_ops env) from_state)
            (bind (acc_get_address (env_ops env) account_state) (\<lambda>a. ret (exec_result, a, lh))))))))"

fun logs_of :: "LogHandler \<Rightarrow> LogEntry list" where
  "logs_of NullLogHandler = []"
| "logs_of (VectorLogHandler logs) = logs"

definition EVMC_run :: "EthereumState env \<Rightarrow> nat \<Rightarrow> MessageCall \<Rightarrow> TxResult evm_run" where
  "EVMC_run env fuel call_data =
    after_run (run_in_evm env fuel call_data) (\<lambda>(exec_result, to_address, lh).
    if res_er exec_result = Threw then raise (StdException LogicError (res_exmsg exec_result))
    else ret \<lparr>txr_contract_address = (if mc_to call_data = None then Some to_address else None),
      txr_logs = logs_of lh\<rparr>)"

definition EVMC_run_with_result :: "EthereumState env \<Rightarrow> nat \<Rightarrow> MessageCall \<Rightarrow> ExecResult evm_run" where
  "EVMC_run_with_result env fuel call_data =
    after_run (run_in_evm env fuel call_data) (\<lambda>(exec_result, _).
    if res_er exec_result = Threw then raise (StdException LogicError (res_exmsg exec_result))
    else ret exec_result)"

definition default_MessageCall :: MessageCall where
  "default_MessageCall =
    \<lparr>mc_from = 0, mc_to = None, mc_gas = 5006112, mc_gas_price = 0, mc_value = 0, mc_data = []\<rparr>"

definition make_state :: "EthereumState \<Rightarrow> EthereumState" where
  "make_state g = g\<lparr>es_current_block := \<lparr>blk_number = 0, blk_gas_limit = 0, blk_timestamp = 0, blk_coinbase = 0,
      blk_prev_randao = 0, blk_chain_id = 0, blk_base_fee = 0\<rparr>, es_cache := Map.empty\<rparr>"

definition send_raw_transaction ::
  "recover_key \<Rightarrow> u64 \<Rightarrow> EthereumState env \<Rightarrow> nat \<Rightarrow> string \<Rightarrow> string evm_run" where
  "send_raw_transaction recover_key chain env fuel raw_transaction =
    then_run (lifts (tries (ets_decode (to_bytes raw_transaction)) (\<lambda>eth_tx.
      tries (ets_to_transaction_call recover_key chain eth_tx default_MessageCall) (\<lambda>tc.
      Inr (tc, ets_to_be_signed chain eth_tx True))))) (\<lambda>(tc, hash).
    then_run (upd make_state) (\<lambda>_.
    after_run (EVMC_run env fuel tc) (\<lambda>tx_result.
    bind (lifts (to_uint256 (hex_str hash))) (\<lambda>key.
    andthen (upd (\<lambda>g. g\<lparr>es_results := (es_results g)(key \<mapsto> tx_result)\<rparr>)) (ret (hex_str hash))))))"

section \<open>Synchronisation of states\<close>

definition sync_load :: "StorageKey \<Rightarrow> (EthereumState, u256) act" where
  "sync_load storage_key = bind (reads (\<lambda>g. es_storage g storage_key)) (\<lambda>state.
    case state of None \<Rightarrow> ret 0 | Some bs \<Rightarrow> lifts (from_data bs))"

text \<open>
  The pointer \<open>data\<close> is passed by value, so the increment at the end of \<open>load\<close> is lost and
  every call writes to the start of the buffer.
\<close>

definition sync_load_old :: "bytes \<Rightarrow> StorageKey \<Rightarrow> (EthereumState, bytes) act" where
  "sync_load_old data storage_key = bind (reads (\<lambda>g. es_pending_storage g storage_key)) (\<lambda>val.
    case val of
      None \<Rightarrow> ret data
    | Some bs \<Rightarrow>
        if length bs < 32 then raise (UndefinedBehaviour ''read past the end of a vector'')
        else andthen (upd (\<lambda>g. g\<lparr>es_pending_storage := (es_pending_storage g)(storage_key := None)\<rparr>))
          (ret (write_at 0 (take 32 bs) data)))"

definition update_sync :: "u256 \<Rightarrow> u256 \<Rightarrow> (EthereumState, unit) act" where
  "update_sync contract_address key =
    upd (\<lambda>g. g\<lparr>es_syncs := filter (\<lambda>k. k \<noteq> (contract_address, key)) (es_syncs g)\<rparr>)"

type_synonym states_map = "(u256 \<times> (u256 \<times> u256)) list"

fun multimap_emplace :: "u256 \<Rightarrow> (u256 \<times> u256) \<Rightarrow> states_map \<Rightarrow> states_map" where
  "multimap_emplace k v [] = [(k, v)]"
| "multimap_emplace k v (x # xs) = (if fst x \<le> k then x # multimap_emplace k v xs else (k, v) # x # xs)"

primrec collect_states :: "StorageKey list \<Rightarrow> states_map \<Rightarrow> (EthereumState, states_map) act" where
  "collect_states [] states = ret states"
| "collect_states (storageKey # keys) states = bind (sync_load storageKey) (\<lambda>val.
    collect_states keys (multimap_emplace (fst storageKey) (snd storageKey, val) states))"

primrec move_keys :: "StorageKey list \<Rightarrow> bytes \<Rightarrow> (EthereumState, bytes) act" where
  "move_keys [] data = ret data"
| "move_keys (key # keys) data = bind (sync_load_old data key) (\<lambda>data.
    andthen (upd (\<lambda>g. g\<lparr>es_syncs := set_insert key (es_syncs g),
        es_pending := filter (\<lambda>k. k \<noteq> key) (es_pending g)\<rparr>))
      (move_keys keys data))"

definition sync_states :: "states_map \<Rightarrow> (EthereumState, bytes \<times> states_map) act" where
  "sync_states states =
    bind (reads es_pending) (\<lambda>keys.
    bind (collect_states keys states) (\<lambda>states.
    let update_keys = sort (remdups keys)
    in if length update_keys < 1 then ret ([], states)
       else bind (move_keys update_keys (replicate (length update_keys * 32) 0)) (\<lambda>old_states.
         ret (Keccak256 old_states, states))))"

section \<open>Notions\<close>

text \<open>What the tables say of the account behind a cached proxy.\<close>

definition eth_acct :: "EthereumState \<Rightarrow> u256 \<Rightarrow> acct" where
  "eth_acct g a =
    \<lparr>a_address = a,
     a_balance = (case es_balances g a of None \<Rightarrow> 0 | Some b \<Rightarrow> b),
     a_nonce = (case es_nonces g a of None \<Rightarrow> 0 | Some n \<Rightarrow> n),
     a_code = (case es_codes g a of None \<Rightarrow> [] | Some c \<Rightarrow> c),
     a_storage = (\<lambda>k. map_option (\<lambda>bs. be_load (take 32 bs)) (es_storage g (a, k)))\<rparr>"

definition eth_view :: "EthereumState \<Rightarrow> u256 \<Rightarrow> acct option" where
  "eth_view g a = (case es_cache g a of None \<Rightarrow> None | Some p \<Rightarrow> Some (eth_acct g a))"

definition storage_ok :: "EthereumState \<Rightarrow> bool" where
  "storage_ok g \<longleftrightarrow> (\<forall>k bs. es_storage g k = Some bs \<longrightarrow> 32 \<le> length bs)"


text \<open>What is documented of AES-GCM and of the random vectors.\<close>

definition aes_ok :: "eth_ext \<Rightarrow> bool" where
  "aes_ok ext \<longleftrightarrow>
    (\<forall>n. length (ext_random ext n) = 12) \<and>
    (\<forall>key iv plain cipher tag. ext_aes_encrypt ext key iv plain = (cipher, tag) \<longrightarrow>
      length cipher = length plain \<and> length tag = 16 \<and> ext_aes_decrypt ext key iv tag cipher = Some plain)"

text \<open>The last old state that was recorded for one of the keys.\<close>

definition last_old :: "(StorageKey \<rightharpoonup> bytes) \<Rightarrow> StorageKey list \<Rightarrow> bytes option" where
  "last_old old keys = fold (\<lambda>k r. case old k of None \<Rightarrow> r | Some bs \<Rightarrow> Some (take 32 bs)) keys None"

text \<open>
  The operations on one account, what they do to an abstract account, and how the virtual machine
  performs them.
\<close>

datatype acct_op =
    GetAddress | GetBalance | SetBalance u256 | GetNonce | IncrementNonce | GetCode | HasCode | SetCode bytes
  | Load u256 | Store u256 u256 | RemoveKey u256

datatype acct_out = OutNone | OutWord u256 | OutNonce u64 | OutBool bool | OutCode bytes

fun abs_op :: "acct_op \<Rightarrow> acct \<Rightarrow> acct_out \<times> acct" where
  "abs_op GetAddress v = (OutWord (a_address v), v)"
| "abs_op GetBalance v = (OutWord (a_balance v), v)"
| "abs_op (SetBalance b) v = (OutNone, v\<lparr>a_balance := b\<rparr>)"
| "abs_op GetNonce v = (OutNonce (a_nonce v), v)"
| "abs_op IncrementNonce v = (OutNone, v\<lparr>a_nonce := a_nonce v + 1\<rparr>)"
| "abs_op GetCode v = (OutCode (a_code v), v)"
| "abs_op HasCode v = (OutBool (a_code v \<noteq> []), v)"
| "abs_op (SetCode c) v = (OutNone, v\<lparr>a_code := c\<rparr>)"
| "abs_op (Load k) v = (OutWord (slot v k), v)"
| "abs_op (Store k x) v = (OutNone, v\<lparr>a_storage := (a_storage v)(k \<mapsto> x)\<rparr>)"
| "abs_op (RemoveKey k) v = (OutBool (a_storage v k \<noteq> None), v\<lparr>a_storage := (a_storage v)(k := None)\<rparr>)"

fun do_op :: "'g gs_ops \<Rightarrow> u256 \<Rightarrow> acct_op \<Rightarrow> ('g, acct_out) act" where
  "do_op ops a GetAddress = bind (acc_get_address ops a) (\<lambda>x. ret (OutWord x))"
| "do_op ops a GetBalance = bind (acc_get_balance ops a) (\<lambda>x. ret (OutWord x))"
| "do_op ops a (SetBalance b) = andthen (acc_set_balance ops a b) (ret OutNone)"
| "do_op ops a GetNonce = bind (acc_get_nonce ops a) (\<lambda>x. ret (OutNonce x))"
| "do_op ops a IncrementNonce = andthen (acc_increment_nonce ops a) (ret OutNone)"
| "do_op ops a GetCode = bind (acc_get_code ops a) (\<lambda>x. ret (OutCode x))"
| "do_op ops a HasCode = bind (acc_has_code ops a) (\<lambda>x. ret (OutBool x))"
| "do_op ops a (SetCode c) = andthen (acc_set_code ops a c) (ret OutNone)"
| "do_op ops a (Load k) = bind (st_load ops a k) (\<lambda>x. ret (OutWord x))"
| "do_op ops a (Store k x) = andthen (st_store ops a k x) (ret OutNone)"
| "do_op ops a (RemoveKey k) = bind (st_remove ops a k) (\<lambda>x. ret (OutBool x))"

primrec do_ops :: "'g gs_ops \<Rightarrow> u256 \<Rightarrow> acct_op list \<Rightarrow> ('g, acct_out list) act" where
  "do_ops ops a [] = ret []"
| "do_ops ops a (x # xs) = bind (do_op ops a x) (\<lambda>y. bind (do_ops ops a xs) (\<lambda>ys. ret (y # ys)))"

primrec abs_ops :: "acct_op list \<Rightarrow> acct \<Rightarrow> acct_out list \<times> acct" where
  "abs_ops [] v = ([], v)"
| "abs_ops (x # xs) v =
    (case abs_op x v of (y, v) \<Rightarrow> case abs_ops xs v of (ys, v) \<Rightarrow> (y # ys, v))"

text \<open>A small state and a trivial cipher, for evaluation.\<close>

definition example_eth :: "(u256 \<rightharpoonup> AccountProxy) \<Rightarrow> EthereumState" where
  "example_eth cache = \<lparr>es_current_block = example_block, es_balances = [1 \<mapsto> 10], es_codes = [1 \<mapsto> []],
    es_nonces = [1 \<mapsto> 0], es_storage = Map.empty, es_pending_storage = Map.empty, es_pending = [], es_syncs = [],
    es_encryptedKey = Map.empty, es_contractLevels = Map.empty, es_results = Map.empty, es_cache = cache, es_draws = 0\<rparr>"

definition example_ext :: eth_ext where
  "example_ext = \<lparr>ext_random = (\<lambda>n. replicate 12 (word_of_nat n)),
    ext_aes_encrypt = (\<lambda>key iv plain. (plain, replicate 16 0)),
    ext_aes_decrypt = (\<lambda>key iv tag cipher. Some cipher), ext_export_state = (\<lambda>a k. None)\<rparr>"

section \<open>Lemmas\<close>

lemmas eth_op_defs = eth_ops_def the_proxy_def ap_get_balance_def ap_set_balance_def ap_get_nonce_def
  ap_increment_nonce_def ap_get_code_def ap_set_code_def

lemma eth_view_Some: "eth_view g a = Some v \<longleftrightarrow> (\<exists>p. es_cache g a = Some p) \<and> v = eth_acct g a"
  by (auto simp: eth_view_def split: option.splits)

lemma eth_view_upd:
  assumes "es_cache g a = Some p" and "es_cache g' = es_cache g" and "\<And>b. b \<noteq> a \<Longrightarrow> eth_acct g' b = eth_acct g b"
  shows "eth_view g' = (eth_view g)(a \<mapsto> eth_acct g' a)"
  using assms by (auto simp: eth_view_def fun_eq_iff split: option.splits)

interpretation eth: ledger "eth_ops ext" eth_view for ext
proof unfold_locales
  fix g a v assume v: "eth_view g a = Some v"
  then obtain p where p: "es_cache g a = Some p" "v = eth_acct g a" by (auto simp: eth_view_Some)
  show "acc_get_address (eth_ops ext) a g = (Inr (a_address v), g)"
    "acc_get_balance (eth_ops ext) a g = (Inr (a_balance v), g)"
    using p by (simp_all add: eth_op_defs act_simps eth_acct_def)
  fix b
  let ?g = "g\<lparr>es_balances := (es_balances g)(a \<mapsto> b)\<rparr>"
  have "eth_view ?g = (eth_view g)(a \<mapsto> eth_acct ?g a)"
    by (rule eth_view_upd [OF p(1)]) (auto simp: eth_acct_def)
  then show "\<exists>g'. acc_set_balance (eth_ops ext) a b g = (Inr (), g') \<and> eth_view g' = (eth_view g)(a \<mapsto> v\<lparr>a_balance := b\<rparr>)"
    using p by (simp add: eth_op_defs act_simps) (simp add: eth_acct_def)
qed

lemma from_data_load: "32 \<le> length bs \<Longrightarrow> from_data bs = Inr (be_load (take 32 bs))"
  by (simp add: from_data_def from_big_endian_load)

lemma serialise_round_trip:
  assumes "length cipher = 32" and "length tag = 16" and "length iv = 12"
  shows "\<exists>serial. serialise_cipher cipher tag iv = Inr serial \<and> length serial = 64 \<and>
    deserialise_cipher serial = Inr (cipher, tag, iv)"
  using assms by (simp add: serialise_cipher_def deserialise_cipher_def segment_def)

lemma encrypt_round_trip:
  assumes "aes_ok ext"
  shows "\<exists>serial. encrypt_state ext key draw (to_big_endian x) = Inr serial \<and> length serial = 64 \<and>
    decrypt_state ext key serial = Inr (Some (to_big_endian x))"
proof -
  obtain cipher tag where c: "ext_aes_encrypt ext key (ext_random ext draw) (to_big_endian x) = (cipher, tag)"
    by (cases "ext_aes_encrypt ext key (ext_random ext draw) (to_big_endian x)")
  then have l: "length cipher = 32" "length tag = 16"
    "ext_aes_decrypt ext key (ext_random ext draw) tag cipher = Some (to_big_endian x)" "length (ext_random ext draw) = 12"
    using assms by (auto simp: aes_ok_def)
  then show ?thesis using c serialise_round_trip [OF l(1,2,4)]
    by (auto simp: encrypt_state_def decrypt_state_def Let_def)
qed

section \<open>Refinement of the in-memory world\<close>

context world
begin

lemma do_op_view:
  assumes "view g a = Some v"
  shows "\<exists>g'. do_op ops a x g = (Inr (fst (abs_op x v)), g') \<and> view g' a = Some (snd (abs_op x v))"
proof (cases x)
  case (SetBalance b)
  then show ?thesis using set_balance [OF assms, of b] by (auto simp: act_simps)
next
  case IncrementNonce
  then show ?thesis using increment_nonce [OF assms] by (auto simp: act_simps)
next
  case (SetCode c)
  then show ?thesis using set_code [OF assms, of c] by (auto simp: act_simps)
next
  case (Store k y)
  then show ?thesis using store [OF assms, of k y] by (auto simp: act_simps)
next
  case (RemoveKey k)
  then show ?thesis using st_remove [OF assms, of k] by (auto simp: act_simps)
qed (simp_all add: act_simps get_address [OF assms] get_balance [OF assms] get_nonce [OF assms] get_code [OF assms]
    has_code [OF assms] load [OF assms] assms)

lemma do_ops_view:
  "view g a = Some v \<Longrightarrow>
    \<exists>g'. do_ops ops a xs g = (Inr (fst (abs_ops xs v)), g') \<and> view g' a = Some (snd (abs_ops xs v))"
proof (induction xs arbitrary: g v)
  case (Cons x xs)
  obtain y w where y: "abs_op x v = (y, w)" by (cases "abs_op x v")
  then obtain g1 where 1: "do_op ops a x g = (Inr y, g1)" "view g1 a = Some w"
    using do_op_view [OF Cons.prems, of x] by auto
  from Cons.IH [OF 1(2)] show ?case using 1(1) y by (auto simp: act_simps split: prod.splits)
qed simp

end





text \<open>Claim C15.  A contract whose level is above \<open>SOLIDITY\<close> exactly when it has a key keeps its storage: a value written is read
  back, encrypted or in clear, given that AES-GCM decrypts what it encrypted.  Other entries are
  not touched, and the key is recorded as pending exactly when the level is above \<open>BASIC\<close>.\<close>

theorem encrypted_storage_round_trip:
  assumes "aes_ok ext" and "es_cache g a = Some p"
    and "ap_encryptor p \<noteq> None \<longleftrightarrow> level_rank (ap_level p) > level_rank SOLIDITY"
  shows "\<exists>g'. ap_store ext a k x g = (Inr (), g') \<and> fst (ap_load ext a k g') = Inr x \<and>
    (\<forall>j. j \<noteq> (a, k) \<longrightarrow> es_storage g' j = es_storage g j) \<and>
    set (es_pending g') = (if level_rank (ap_level p) > level_rank BASIC then insert (a, k) (set (es_pending g))
      else set (es_pending g))"
proof (cases "ap_encryptor p")
  case None
  then have "\<not> level_rank (ap_level p) > level_rank SOLIDITY" using assms(3) by simp
  then show ?thesis using None assms(2)
    by (auto simp: ap_store_def ap_load_def load_stored_def the_proxy_def act_simps update_pending_def set_insert_def
        save_old_state_def from_data_load)
next
  case (Some key)
  then have lv: "level_rank (ap_level p) > 1" using assms(3) by simp
  obtain serial where e: "encrypt_state ext key (es_draws g) (to_big_endian x) = Inr serial" "length serial = 64"
    "decrypt_state ext key serial = Inr (Some (to_big_endian x))"
    using encrypt_round_trip [OF assms(1)] by blast
  then show ?thesis using Some lv assms(2)
    by (auto simp: ap_store_def ap_load_def load_stored_def the_proxy_def act_simps update_pending_def set_insert_def
        save_old_state_def from_data_load)
qed

theorem encrypted_storage_round_trip_witness:
  "\<exists>g'. ap_store example_ext 1 5 6 (example_eth [1 \<mapsto> \<lparr>ap_level = SOLIDITY_ENHANCE, ap_encryptor = Some [7]\<rparr>]) = (Inr (), g') \<and>
    fst (ap_load example_ext 1 5 g') = Inr 6 \<and> set (es_pending g') = {(1, 5)}"
proof -
  have "aes_ok example_ext" by (simp add: aes_ok_def example_ext_def)
  from encrypted_storage_round_trip [OF this, of "example_eth [1 \<mapsto> \<lparr>ap_level = SOLIDITY_ENHANCE, ap_encryptor = Some [7]\<rparr>]" 1
      "\<lparr>ap_level = SOLIDITY_ENHANCE, ap_encryptor = Some [7]\<rparr>" 5 6]
  show ?thesis by (auto simp: example_eth_def)
qed

section \<open>Deployment\<close>

text \<open>Deploying a contract creates coins: the new account at the address made from the sender and its nonce starts with
  as many coins as the transaction has gas, and no account pays for them.\<close>

lemma deploy_mints_gas:
  assumes "mc_to mc = None" and "es_cache g (mc_from mc) = Some p"
    and "to = generate_address (mc_from mc) (a_nonce (eth_acct g (mc_from mc)))"
    and "es_balances g to = None" and "es_codes g to = None" and "es_nonces g to = None" and "es_cache g to = None"
    and "env_ops env = eth_ops ext"
  shows "\<exists>g'. deploy_to env mc g = (Inr to, g') \<and>
    eth_view g' = (eth_view g)(to \<mapsto> \<lparr>a_address = to, a_balance = mc_gas mc,
      a_nonce = (if to_bytes (mc_data mc) = [] then 0 else 1), a_code = to_bytes (mc_data mc),
      a_storage = a_storage (eth_acct g to)\<rparr>)"
proof -
  define c where "c = to_bytes (mc_data mc)"
  have "deploy_to env mc g = (case es_create to (mc_gas mc) c g of (Inl e, g') \<Rightarrow> (Inl e, g') | (Inr _, g') \<Rightarrow> (Inr to, g'))"
    using assms(1,2,3,8)
    by (simp add: deploy_to_def eth_op_defs act_simps es_get_def eth_acct_def Let_def c_def split: prod.splits sum.splits)
  then show ?thesis using assms(4-7) unfolding c_def [symmetric]
    by (auto simp: es_create_def add_to_cache_def act_simps Let_def eth_view_def eth_acct_def fun_eq_iff split: option.splits)
qed

section \<open>Synchronisation\<close>

lemma last_old_fold:
  "fold (\<lambda>k r. case old k of None \<Rightarrow> r | Some bs \<Rightarrow> Some (take 32 bs)) keys r =
    (case last_old old keys of None \<Rightarrow> r | Some bs \<Rightarrow> Some bs)"
  unfolding last_old_def
proof (induction keys arbitrary: r)
  case (Cons k keys)
  let ?f = "\<lambda>k r. case old k of None \<Rightarrow> r | Some bs \<Rightarrow> Some (take 32 bs)"
  show ?case using Cons.IH [of "?f k r"] Cons.IH [of "?f k None"]
    by (cases "old k"; cases "fold ?f keys None") simp_all
qed simp

lemma last_old_Nil [simp]: "last_old old [] = None"
  by (simp add: last_old_def)

lemma last_old_Cons [simp]:
  "last_old old (k # keys) = (case last_old old keys of None \<Rightarrow> map_option (take 32) (old k) | Some bs \<Rightarrow> Some bs)"
  using last_old_fold [of old keys "case old k of None \<Rightarrow> None | Some bs \<Rightarrow> Some (take 32 bs)"]
  by (cases "old k"; cases "last_old old keys") (simp_all add: last_old_def [of old "k # keys"])

lemma last_old_cong: "(\<And>j. j \<in> set keys \<Longrightarrow> old j = old' j) \<Longrightarrow> last_old old keys = last_old old' keys"
proof (induction keys)
  case (Cons k keys)
  then have "last_old old keys = last_old old' keys" "old k = old' k" by simp_all
  then show ?case by (simp split: option.splits)
qed simp

lemma sync_load_old_run:
  assumes "\<And>bs. es_pending_storage g k = Some bs \<Longrightarrow> 32 \<le> length bs"
  shows "sync_load_old data k g =
    (Inr (case es_pending_storage g k of None \<Rightarrow> data | Some bs \<Rightarrow> take 32 bs @ drop 32 data),
     g\<lparr>es_pending_storage := (es_pending_storage g)(k := None)\<rparr>)"
  using assms by (auto simp: sync_load_old_def act_simps write_at_def min_def fun_upd_idem split: option.splits)

lemma move_keys_run:
  assumes "\<forall>k \<in> set keys. \<forall>bs. es_pending_storage g k = Some bs \<longrightarrow> 32 \<le> length bs" and "distinct keys"
  shows "\<exists>g'. move_keys keys data g = (Inr (case last_old (es_pending_storage g) keys of
        None \<Rightarrow> data | Some bs \<Rightarrow> bs @ drop 32 data), g') \<and>
    es_pending g' = filter (\<lambda>k. k \<notin> set keys) (es_pending g) \<and> set (es_syncs g') = set (es_syncs g) \<union> set keys \<and>
    es_pending_storage g' = (es_pending_storage g) |` (- set keys) \<and> es_storage g' = es_storage g"
  using assms
proof (induction keys arbitrary: g data)
  case (Cons k keys)
  let ?old = "es_pending_storage g"
  let ?g = "g\<lparr>es_pending_storage := ?old(k := None), es_syncs := set_insert k (es_syncs g),
    es_pending := filter (\<lambda>j. j \<noteq> k) (es_pending g)\<rparr>"
  let ?data = "case ?old k of None \<Rightarrow> data | Some bs \<Rightarrow> take 32 bs @ drop 32 data"
  have k: "k \<notin> set keys" "distinct keys" using Cons.prems(2) by simp_all
  have len: "32 \<le> length bs" if "?old k = Some bs" for bs using Cons.prems(1) that by simp
  have step: "move_keys (k # keys) data g = move_keys keys ?data ?g"
    using len by (simp add: act_simps sync_load_old_run)
  have "\<forall>j \<in> set keys. \<forall>bs. es_pending_storage ?g j = Some bs \<longrightarrow> 32 \<le> length bs"
    using Cons.prems(1) by simp
  then obtain g' where g': "move_keys keys ?data ?g = (Inr (case last_old (es_pending_storage ?g) keys of
        None \<Rightarrow> ?data | Some bs \<Rightarrow> bs @ drop 32 ?data), g')"
    "es_pending g' = filter (\<lambda>j. j \<notin> set keys) (es_pending ?g)" "set (es_syncs g') = set (es_syncs ?g) \<union> set keys"
    "es_pending_storage g' = (es_pending_storage ?g) |` (- set keys)" "es_storage g' = es_storage ?g"
    using Cons.IH [OF _ k(2), of ?g ?data] by blast
  have "last_old (?old(k := None)) keys = last_old ?old keys" by (rule last_old_cong) (use k(1) in auto)
  moreover have "drop 32 ?data = drop 32 data" using len by (auto simp: min_def split: option.splits)
  ultimately have "(case last_old (es_pending_storage ?g) keys of None \<Rightarrow> ?data | Some bs \<Rightarrow> bs @ drop 32 ?data) =
      (case last_old ?old (k # keys) of None \<Rightarrow> data | Some bs \<Rightarrow> bs @ drop 32 data)"
    by (simp split: option.splits)
  moreover have "es_pending_storage g' = ?old |` (- set (k # keys))"
    unfolding g'(4) by (auto simp: restrict_map_def fun_eq_iff)
  moreover have "es_pending g' = filter (\<lambda>j. j \<notin> set (k # keys)) (es_pending g)"
    unfolding g'(2) by (simp add: conj_commute)
  moreover have "set (es_syncs g') = set (es_syncs g) \<union> set (k # keys)"
    unfolding g'(3) by (auto simp: set_insert_def)
  ultimately show ?case using step g'(1,5) by simp
qed (simp add: restrict_map_def)

lemma collect_states_run:
  "storage_ok g \<Longrightarrow> \<exists>states'. collect_states keys states g = (Inr states', g)"
proof (induction keys arbitrary: states)
  case (Cons k keys)
  have "from_data bs = Inr (be_load (take 32 bs))" if "es_storage g k = Some bs" for bs
    using Cons.prems that unfolding storage_ok_def by (intro from_data_load) blast
  then have "\<exists>x. sync_load k g = (Inr x, g)"
    by (simp add: sync_load_def act_simps split: option.splits)
  then show ?case using Cons by (auto simp: act_simps)
qed simp

text \<open>Claim C37.  Synchronising moves every pending key to the keys in synchronisation and forgets the recorded old states, but the
  hash it returns covers only one of them: the old state of the greatest key that has one, followed by
  zeros, since every old state is written to the start of the buffer.\<close>

theorem sync_keeps_one_old_state:
  assumes "storage_ok g" and "\<forall>k bs. es_pending_storage g k = Some bs \<longrightarrow> 32 \<le> length bs"
    and "distinct (es_pending g)" and "es_pending g \<noteq> []"
  shows "\<exists>g' states'. sync_states states g =
      (Inr (Keccak256 (case last_old (es_pending_storage g) (sort (es_pending g)) of
          None \<Rightarrow> replicate (32 * length (es_pending g)) 0
        | Some bs \<Rightarrow> bs @ replicate (32 * (length (es_pending g) - 1)) 0), states'), g') \<and>
    es_pending g' = [] \<and> set (es_syncs g') = set (es_syncs g) \<union> set (es_pending g) \<and>
    (\<forall>k \<in> set (es_pending g). es_pending_storage g' k = None) \<and> es_storage g' = es_storage g"
proof -
  let ?keys = "sort (es_pending g)" and ?n = "length (es_pending g)"
  obtain states' where c: "collect_states (es_pending g) states g = (Inr states', g)"
    using collect_states_run [OF assms(1)] by blast
  obtain g' where g': "move_keys ?keys (replicate (?n * 32) 0) g = (Inr (case last_old (es_pending_storage g) ?keys of
        None \<Rightarrow> replicate (?n * 32) 0 | Some bs \<Rightarrow> bs @ drop 32 (replicate (?n * 32) 0)), g')"
    "es_pending g' = filter (\<lambda>k. k \<notin> set ?keys) (es_pending g)" "set (es_syncs g') = set (es_syncs g) \<union> set ?keys"
    "es_pending_storage g' = (es_pending_storage g) |` (- set ?keys)" "es_storage g' = es_storage g"
    using move_keys_run [of ?keys g "replicate (?n * 32) 0"] assms(2,3) by auto
  have r: "remdups (es_pending g) = es_pending g" using assms(3) by (rule distinct_remdups_id)
  have ne: "sort (es_pending g) \<noteq> []" using assms(4) by (metis set_empty set_sort)
  have d: "drop 32 (replicate (?n * 32) (0 :: byte)) = replicate (32 * (?n - 1)) 0" by simp
  have "sync_states states g = (Inr (Keccak256 (case last_old (es_pending_storage g) ?keys of
        None \<Rightarrow> replicate (?n * 32) 0 | Some bs \<Rightarrow> bs @ drop 32 (replicate (?n * 32) 0)), states'), g')"
    using ne unfolding sync_states_def by (simp add: act_simps c r g'(1) Let_def del: drop_replicate)
  then have "sync_states states g = (Inr (Keccak256 (case last_old (es_pending_storage g) ?keys of
        None \<Rightarrow> replicate (32 * ?n) 0 | Some bs \<Rightarrow> bs @ replicate (32 * (?n - 1)) 0), states'), g')"
    unfolding d unfolding mult.commute [of ?n 32] .
  moreover have "es_pending g' = []" "\<forall>k \<in> set (es_pending g). es_pending_storage g' k = None"
    "set (es_syncs g') = set (es_syncs g) \<union> set (es_pending g)"
    using g'(2-4) by simp_all
  ultimately show ?thesis using g'(5) by blast
qed

theorem sync_keeps_one_old_state_witness:
  "\<exists>g' states'. sync_states [] ((example_eth Map.empty)\<lparr>es_pending := [(1, 5), (1, 4)],
      es_pending_storage := [(1, 4) \<mapsto> replicate 32 7, (1, 5) \<mapsto> replicate 32 8]\<rparr>) =
    (Inr (Keccak256 (replicate 32 8 @ replicate 32 0), states'), g') \<and> es_pending g' = []"
proof -
  let ?g = "(example_eth Map.empty)\<lparr>es_pending := [(1, 5), (1, 4)],
      es_pending_storage := [(1, 4) \<mapsto> replicate 32 7, (1, 5) \<mapsto> replicate 32 8]\<rparr>"
  have 1: "storage_ok ?g" by (simp add: example_eth_def storage_ok_def)
  have 2: "\<forall>k bs. es_pending_storage ?g k = Some bs \<longrightarrow> 32 \<le> length bs" by (auto split: if_splits)
  have 3: "distinct (es_pending ?g)" "es_pending ?g \<noteq> []" by simp_all
  have 4: "sort (es_pending ?g) = [(1, 4), (1, 5)]" by simp
  have 5: "last_old (es_pending_storage ?g) [(1, 4), (1, 5)] = Some (replicate 32 8)"
    by simp
  have "length (es_pending ?g) = 2" by simp
  then show ?thesis using sync_keeps_one_old_state [OF 1 2 3, of "[]", unfolded 4 5] by auto
qed

end
