(* ===== verification/Endpoints.thy ===== *)
theory Endpoints
  imports EthState
begin

text \<open>
  The JSON-RPC requests of \<open>src/app/rpc/endpoint_registry.h\<close> on the state of the enclave,
  and the account of the enclave itself (\<open>src/ethereum/tee_manager.h\<close>).

  A request has already been parsed: its parameters are arguments.  It runs on the tables of one
  transaction of the key-value store with an empty cache.  The reply is a success with the result
  or an error; an error reply that the handler throws is the exception \<open>HttpError\<close>.
\<close>

section \<open>Requests\<close>

datatype 'a reply = Success 'a | ErrorReply string

definition rpc_get_chainId :: "u64 \<Rightarrow> u64" where
  "rpc_get_chainId chain = chain"

definition rpc_get_gasPrice :: nat where
  "rpc_get_gasPrice = 0"

definition rpc_get_balance :: "u256 \<Rightarrow> string \<Rightarrow> (EthereumState, string reply) act" where
  "rpc_get_balance address block_id =
    (if block_id \<noteq> ''latest'' then ret (ErrorReply ''Can only request latest block'')
     else andthen (upd make_state)
       (bind (es_get address) (\<lambda>account_state.
        bind (ap_get_balance account_state) (\<lambda>balance. ret (Success (to_hex_string balance))))))"

text \<open>The second result is the contract whose escrow is asked of the host.\<close>

definition rpc_send_contract_escrow :: "u256 \<Rightarrow> (EthereumState, string reply \<times> u256) act" where
  "rpc_send_contract_escrow address =
    andthen (upd make_state)
      (bind (es_get address) (\<lambda>state.
       bind (ap_get_code state) (\<lambda>code.
       andthen (guard (code = []) (HttpError (''Address ['' @ to_hex_string address @ ''] has alread be a contract'')))
         (ret (Success ''contract escrow alread commited, please wait...'', address)))))"

definition rpc_set_contract_key :: "bytes \<Rightarrow> u256 \<Rightarrow> (EthereumState, bool reply) act" where
  "rpc_set_contract_key key address =
    andthen (upd make_state)
      (bind (es_get address) (\<lambda>state.
       bind (ap_get_code state) (\<lambda>code.
       andthen (guard (code \<noteq> []) (HttpError (''Address ['' @ to_hex_string address @ ''] not a contract'')))
       (bind (reads (\<lambda>g. es_encryptedKey g address)) (\<lambda>old.
       andthen (guard (old = None)
         (HttpError (''Address ['' @ to_hex_string address @ ''] has already setting contract key'')))
       (andthen (upd (\<lambda>g. g\<lparr>es_encryptedKey := (es_encryptedKey g)(address \<mapsto> key)\<rparr>))
       (bind (reads (\<lambda>g. es_contractLevels g address)) (\<lambda>level.
       andthen (guard (level = None \<or> level = Some SOLIDITY)
         (HttpError (''Address ['' @ to_hex_string address @ ''] cannt match with level'')))
       (andthen (upd (\<lambda>g. g\<lparr>es_contractLevels := (es_contractLevels g)(address \<mapsto> SOLIDITY_ENHANCE)\<rparr>))
         (ret (Success True)))))))))))"

definition rpc_get_transaction_count :: "u256 \<Rightarrow> string \<Rightarrow> (EthereumState, string reply) act" where
  "rpc_get_transaction_count address block_id =
    (if block_id \<noteq> ''latest'' then ret (ErrorReply ''Can only request latest block'')
     else andthen (upd make_state)
       (bind (es_get address) (\<lambda>account_state.
        bind (ap_get_nonce account_state) (\<lambda>nonce. ret (Success (to_hex_string_u64 nonce))))))"


record TxReceipt =
  rcp_transaction_hash :: u256
  rcp_transaction_index :: u256
  rcp_block_hash :: u256
  rcp_block_number :: u256
  rcp_from :: u256
  rcp_to :: "u256 option"
  rcp_cumulative_gas_used :: u256
  rcp_gas_used :: u256
  rcp_contract_address :: "u256 option"
  rcp_logs :: "LogEntry list"
  rcp_logs_bloom :: bytes
  rcp_status :: u256

definition new_TxReceipt :: TxReceipt where
  "new_TxReceipt =
    \<lparr>rcp_transaction_hash = 0, rcp_transaction_index = 0, rcp_block_hash = 0, rcp_block_number = 0, rcp_from = 0,
     rcp_to = None, rcp_cumulative_gas_used = 0, rcp_gas_used = 0, rcp_contract_address = None, rcp_logs = [],
     rcp_logs_bloom = replicate 256 0, rcp_status = 0\<rparr>"

definition rpc_get_transaction_receipt :: "u256 \<Rightarrow> (EthereumState, TxReceipt option) act" where
  "rpc_get_transaction_receipt tx_hash =
    reads (\<lambda>g. case es_results g tx_hash of
        None \<Rightarrow> None
      | Some tx_result \<Rightarrow>
          let response = new_TxReceipt\<lparr>rcp_transaction_hash := tx_hash\<rparr>;
              response = (if txr_contract_address tx_result \<noteq> None
                then response\<lparr>rcp_contract_address := txr_contract_address tx_result\<rparr>
                else response\<lparr>rcp_to := Some 0\<rparr>)
          in Some (response\<lparr>rcp_logs := txr_logs tx_result, rcp_status := 1\<rparr>))"

section \<open>The account of the enclave\<close>

text \<open>
  The tables of \<open>TeeManager\<close>.  A key pair is made outside; \<open>kp\<close> is its public key
  and its private key.
\<close>

record TeeState =
  tee_privateKey :: "u256 \<rightharpoonup> string"
  tee_publicAddr :: "u256 option"
  tee_balances :: "u256 \<rightharpoonup> u256"
  tee_nonces :: "u256 \<rightharpoonup> u64"

definition check_tee_addr :: "(TeeState, u256) act" where
  "check_tee_addr = bind (reads tee_publicAddr) (\<lambda>addr_it.
    case addr_it of None \<Rightarrow> raise (StdException LogicError ''TEE is not prepare'') | Some a \<Rightarrow> ret a)"

definition tee_get_nonce :: "u256 \<Rightarrow> (TeeState, u64) act" where
  "tee_get_nonce address = reads (\<lambda>t. case tee_nonces t address of None \<Rightarrow> 0 | Some n \<Rightarrow> n)"

definition tee_get_balance :: "u256 \<Rightarrow> (TeeState, u256) act" where
  "tee_get_balance address = reads (\<lambda>t. case tee_balances t address of None \<Rightarrow> 0 | Some b \<Rightarrow> b)"

definition tee_increment_nonce :: "u256 \<Rightarrow> (TeeState, unit) act" where
  "tee_increment_nonce address = bind (tee_get_nonce address) (\<lambda>nonce.
    upd (\<lambda>t. t\<lparr>tee_nonces := (tee_nonces t)(address \<mapsto> nonce + 1)\<rparr>))"

definition tee_set_balance :: "u256 \<Rightarrow> u256 \<Rightarrow> (TeeState, unit) act" where
  "tee_set_balance address b = upd (\<lambda>t. t\<lparr>tee_balances := (tee_balances t)(address \<mapsto> b)\<rparr>)"

definition get_tee_kp :: "u256 \<Rightarrow> (TeeState, string) act" where
  "get_tee_kp address = bind (reads (\<lambda>t. tee_privateKey t address)) (\<lambda>kp_it.
    case kp_it of None \<Rightarrow> raise (StdException LogicError ''kp_sk not found'') | Some kp \<Rightarrow> ret kp)"

definition tee_get :: "(TeeState, u256) act" where
  "tee_get = bind (reads tee_publicAddr) (\<lambda>addr_it.
    andthen (guard (addr_it \<noteq> None) (StdException LogicError ''tee not prepared'')) check_tee_addr)"

definition tee_has :: "string \<Rightarrow> u256 \<Rightarrow> exn" where
  "tee_has what addr = StdException LogicError (''Trying to create account at '' @ to_checksum_address addr @
    '', but it already has a '' @ what)"

definition tee_create :: "bytes \<times> string \<Rightarrow> (TeeState, u256) act" where
  "tee_create kp =
    bind (reads tee_publicAddr) (\<lambda>addr_it.
    andthen (guard (addr_it = None) (StdException LogicError ''tee has been prepared''))
    (bind (lifts (get_address_from_public_key (fst kp))) (\<lambda>addr.
    andthen (upd (\<lambda>t. t\<lparr>tee_privateKey := (tee_privateKey t)(addr \<mapsto> snd kp)\<rparr>))
    (andthen (upd (\<lambda>t. t\<lparr>tee_publicAddr := Some addr\<rparr>))
    (bind (reads (\<lambda>t. tee_balances t addr)) (\<lambda>balance_it.
    andthen (guard (balance_it = None) (tee_has ''balance'' addr))
    (andthen (upd (\<lambda>t. t\<lparr>tee_balances := (tee_balances t)(addr \<mapsto> 0)\<rparr>))
    (bind (reads (\<lambda>t. tee_nonces t addr)) (\<lambda>nonce_it.
    andthen (guard (nonce_it = None) (tee_has ''nonce'' addr))
    (andthen (upd (\<lambda>t. t\<lparr>tee_nonces := (tee_nonces t)(addr \<mapsto> 0)\<rparr>))
      check_tee_addr))))))))))"

section \<open>Notions\<close>

text \<open>The proxy that the tables give an account.\<close>

definition proxy_of :: "EthereumState \<Rightarrow> u256 \<Rightarrow> AccountProxy" where
  "proxy_of g a = \<lparr>ap_level = (case es_contractLevels g a of None \<Rightarrow> BASIC | Some l \<Rightarrow> l), ap_encryptor = es_encryptedKey g a\<rparr>"


text \<open>
  The states that requests for contract keys lead to.  The tables of a refused request may be
  discarded, so a request may leave no trace.
\<close>

inductive key_requests :: "EthereumState \<Rightarrow> EthereumState \<Rightarrow> bool" where
  no_request: "key_requests g g"
| one_request: "key_requests g h \<Longrightarrow> key_requests g (snd (rpc_set_contract_key key b h))"

definition example_eth_env :: "EthereumState env" where
  "example_eth_env = \<lparr>env_ops = eth_ops example_ext, env_clock = (\<lambda>_. 0), env_junk = (\<lambda>_. ([], [])), env_stale = Some\<rparr>"

definition example_sender :: EthereumState where
  "example_sender = (example_eth Map.empty)\<lparr>es_balances := [2 ^ 160 \<mapsto> 5], es_codes := [2 ^ 160 \<mapsto> []], es_nonces := [2 ^ 160 \<mapsto> 0]\<rparr>"

definition example_contracts :: EthereumState where
  "example_contracts = (example_eth Map.empty)\<lparr>es_balances := (\<lambda>_. Some 0), es_codes := (\<lambda>_. Some [OP_STOP]), es_nonces := (\<lambda>_. Some 0)\<rparr>"

section \<open>Lemmas\<close>

lemma make_state_simps [simp]:
  "es_cache (make_state g) = Map.empty" "es_balances (make_state g) = es_balances g" "es_codes (make_state g) = es_codes g"
  "es_nonces (make_state g) = es_nonces g" "es_results (make_state g) = es_results g"
  "es_encryptedKey (make_state g) = es_encryptedKey g" "es_contractLevels (make_state g) = es_contractLevels g"
  by (simp_all add: make_state_def)

lemma es_get_known:
  "es_balances g a = Some b \<Longrightarrow> es_get a g =
    (Inr a, if es_cache g a = None then g\<lparr>es_cache := (es_cache g)(a \<mapsto> proxy_of g a)\<rparr> else g)"
  by (auto simp: es_get_def add_to_cache_def proxy_of_def act_simps)

lemma es_get_unknown:
  "es_balances g a = None \<Longrightarrow> es_codes g a = None \<Longrightarrow> es_nonces g a = None \<Longrightarrow> es_cache g a = None \<Longrightarrow> es_get a g =
    (Inr a, g\<lparr>es_balances := (es_balances g)(a \<mapsto> 0), es_codes := (es_codes g)(a \<mapsto> []), es_nonces := (es_nonces g)(a \<mapsto> 0),
      es_cache := (es_cache g)(a \<mapsto> proxy_of g a)\<rparr>)"
  by (simp add: es_get_def es_create_def add_to_cache_def proxy_of_def act_simps)

lemma get_code_run: "es_cache g a = Some p \<Longrightarrow> ap_get_code a g = (Inr (case es_codes g a of None \<Rightarrow> [] | Some c \<Rightarrow> c), g)"
  by (simp add: ap_get_code_def the_proxy_def act_simps)

lemma get_nonce_run: "es_cache g a = Some p \<Longrightarrow> ap_get_nonce a g = (Inr (case es_nonces g a of None \<Rightarrow> 0 | Some n \<Rightarrow> n), g)"
  by (simp add: ap_get_nonce_def the_proxy_def act_simps)

lemma get_balance_run: "es_cache g a = Some p \<Longrightarrow> ap_get_balance a g = (Inr (case es_balances g a of None \<Rightarrow> 0 | Some b \<Rightarrow> b), g)"
  by (simp add: ap_get_balance_def the_proxy_def act_simps)

text \<open>A program that only stops.\<close>

lemma stop_run:
  assumes "acc_get_code (env_ops env) callee gs = (Inr [OP_STOP], gs)" and "0 < n" and "tx_selfdestruct_list tx = []"
  shows "\<exists>q. run env n tx caller callee input v tr gs =
    Some (Inr \<lparr>res_er = Halted, res_ex = OutOfBounds, res_exmsg = [], res_output = []\<rparr>, q) \<and> p_gs q = gs"
proof -
  obtain k where k: "n = Suc k" using assms(2) by (cases n) simp_all
  note step = try_dispatch_inr dispatch_run switch_cases pc_valid_def opcodes
  let ?p = "(new_proc gs tx tr)\<lparr>p_ctxts := [new_Context caller callee input v (new_Program [OP_STOP]) OuterHandlers False]\<rparr>"
  obtain q where q: "run_loop env n ?p = Some (Inr (), q)" "p_ctxts q = []" "p_gs q = gs" "p_tx q = tx"
    "p_result q = \<lparr>res_er = Halted, res_ex = OutOfBounds, res_exmsg = [], res_output = []\<rparr>"
    by (simp add: k run_loop_stop step op_stop_run act_simps) (simp add: traced_def new_proc_def new_ExecResult_def)
  show ?thesis using q assms(3) by (simp add: run_eq [OF assms(1)] finish_def act_simps)
qed

text \<open>A transaction to a contract that only stops, for evaluation.\<close>

lemma stop_at:
  assumes "env_ops env = eth_ops ext" and "es_balances g a = Some b" and "es_codes g a = Some [OP_STOP]" and "0 < fuel"
  shows "\<exists>lh g0. evm_run_at env fuel mc a (make_state g) =
      Some (Inr (\<lparr>res_er = Halted, res_ex = OutOfBounds, res_exmsg = [], res_output = []\<rparr>, a, lh), g0) \<and>
    es_cache g0 a \<noteq> None \<and> es_balances g0 = es_balances g \<and> es_nonces g0 = es_nonces g \<and> es_codes g0 = es_codes g"
proof -
  define g0 where "g0 = (make_state g)\<lparr>es_cache := [a \<mapsto> proxy_of g a]\<rparr>"
  have g0: "es_cache g0 a = Some (proxy_of g a)" "es_codes g0 a = Some [OP_STOP]" "es_balances g0 = es_balances g"
    "es_nonces g0 = es_nonces g" "es_codes g0 = es_codes g"
    using assms(3) by (simp_all add: g0_def)
  have c: "acc_get_code (env_ops env) a g0 = (Inr [OP_STOP], g0)"
    using g0 assms(1) by (simp add: eth_ops_def get_code_run)
  let ?r = "\<lparr>res_er = Halted, res_ex = OutOfBounds, res_exmsg = [], res_output = []\<rparr>"
  obtain q where q: "run env fuel (new_Transaction (mc_from mc) (VectorLogHandler [])) (mc_from mc) a
      (to_bytes (mc_data mc)) (mc_value mc) None g0 = Some (Inr ?r, q)" "p_gs q = g0"
    using stop_run [OF c assms(4), of "new_Transaction (mc_from mc) (VectorLogHandler [])" "mc_from mc"
        "to_bytes (mc_data mc)" "mc_value mc" None] by (auto simp: new_Transaction_def)
  have "evm_run_at env fuel mc a (make_state g) = Some (Inr (?r, a, tx_log_handler (p_tx q)), g0)"
    using assms(1,2) g0 q
    by (simp add: evm_run_at_def then_run_def eth_ops_def act_simps es_get_known get_code_run g0_def proxy_of_def)
  then show ?thesis using g0 by blast
qed

lemma stop_transaction:
  assumes "env_ops env = eth_ops ext" and "mc_to mc = Some a" and "es_balances g a = Some b" and "es_codes g a = Some [OP_STOP]"
    and "es_balances g (mc_from mc) = Some b'" and "0 < fuel"
  shows "\<exists>lh g'. run_in_evm env fuel mc (make_state g) =
      Some (Inr (\<lparr>res_er = Halted, res_ex = OutOfBounds, res_exmsg = [], res_output = []\<rparr>, a, lh), g')"
proof -
  let ?r = "\<lparr>res_er = Halted, res_ex = OutOfBounds, res_exmsg = [], res_output = []\<rparr>"
  obtain lh g0 where g0: "evm_run_at env fuel mc a (make_state g) = Some (Inr (?r, a, lh), g0)"
    "es_cache g0 a \<noteq> None" "es_balances g0 = es_balances g"
    using stop_at [OF assms(1,3,4,6)] by blast
  define g1 where "g1 = (if es_cache g0 (mc_from mc) = None
    then g0\<lparr>es_cache := (es_cache g0)(mc_from mc \<mapsto> proxy_of g0 (mc_from mc))\<rparr> else g0)"
  have "es_get (mc_from mc) g0 = (Inr (mc_from mc), g1)" "\<exists>p. es_cache g1 (mc_from mc) = Some p" "\<exists>p. es_cache g1 a = Some p"
    using es_get_known [of g0 "mc_from mc" b'] g0 assms(5) by (auto simp: g1_def)
  then show ?thesis using assms(1,2) g0(1)
    by (auto simp: run_in_evm_def deploy_to_def then_run_def after_run_def eth_op_defs act_simps)
qed

lemma hex_str_number: "length h \<le> 32 \<Longrightarrow> \<exists>key. to_uint256 (hex_str h) = Inr key"
proof -
  assume "length h \<le> 32"
  moreover have "length (concat (map hex_byte bs)) = 2 * length bs" for bs by (induction bs) (simp_all add: hex_byte_def)
  moreover have "is_hex c" if c: "c \<in> set (concat (map hex_byte h))" for c
    using c is_hex_digit_char(1) unat_byte_bound by (auto simp: hex_byte_def less_mult_imp_div_less)
  ultimately show ?thesis using from_string_hex [of "concat (map hex_byte h)"]
    by (auto simp: to_uint256_def hex_str_def to_hex_string_bytes_def)
qed

lemma public_key_4: "get_address_from_public_key [4] = Inr (be_load (take 20 (drop 12 (Keccak256 []))))"
  by (simp add: get_address_from_public_key_def from_big_endian_load)

lemma example_accepted:
  "\<exists>hash g'. send_raw_transaction (\<lambda>rs h. Inr [4]) 1 example_eth_env 1 (to_hex_string_bytes (ets_encode example_signed_tx))
      example_contracts = Some (Inr hash, g')"
proof -
  have "length (ets_encode example_signed_tx) = 14" by code_simp
  then have "Rlp.decode [TUint 64, TUint256, TUint256, TBytes, TUint256, TBytes, TUint 64, TUint256, TUint256] (ets_encode example_signed_tx) =
      Inr (et_fields example_signed_tx @ [VUint (et_v example_signed_tx), VUint256 (et_r example_signed_tx), VUint256 (et_s example_signed_tx)])"
    unfolding ets_encode_def by (intro decode_pack) (simp_all add: et_fields_def)
  then have d: "ets_decode (ets_encode example_signed_tx) = Inr example_signed_tx" by (simp add: ets_decode_def et_fields_def)
  have "from_ethereum_recovery_id 1 37 = Inr 0" by code_simp
  then have s: "get_sender_address (\<lambda>rs h. Inr [4]) 1 example_signed_tx = Inr (be_load (take 20 (drop 12 (Keccak256 []))))"
    by (simp add: get_sender_address_def to_recoverable_signature_def example_signed_tx_def public_key_4)
  have "from_big_endian [1, 2] = Inr (be_load [1, 2])" by (simp add: from_big_endian_load)
  then obtain tc where tc: "ets_to_transaction_call (\<lambda>rs h. Inr [4]) 1 example_signed_tx default_MessageCall = Inr tc" "mc_to tc = Some (be_load [1, 2])"
    using s by (simp add: ets_to_transaction_call_def et_to_transaction_call_def default_MessageCall_def) (simp add: example_signed_tx_def)
  obtain lh g' where r: "run_in_evm example_eth_env 1 tc (make_state example_contracts) =
      Some (Inr (\<lparr>res_er = Halted, res_ex = OutOfBounds, res_exmsg = [], res_output = []\<rparr>, be_load [1, 2], lh), g')"
    using stop_transaction [OF _ tc(2), of example_eth_env example_ext example_contracts 0 0 1]
    by (auto simp: example_eth_env_def example_contracts_def)
  define h where "h = ets_to_be_signed 1 example_signed_tx True"
  have "length h = 32" by (simp add: h_def ets_to_be_signed_def et_to_be_signed_def to_be_signed_with_chain_id_def)
  then obtain key where key: "to_uint256 (hex_str h) = Inr key" using hex_str_number [of h] by auto
  then show ?thesis using tc
    by (simp add: send_raw_transaction_def then_run_def after_run_def to_bytes_hex d tc(1) r [unfolded One_nat_def] EVMC_run_def act_simps h_def [symmetric])
qed

text \<open>A contract with its key.  Requests keep it so.\<close>

definition keyed :: "u256 \<Rightarrow> bytes \<Rightarrow> EthereumState \<Rightarrow> bool" where
  "keyed a key g \<longleftrightarrow> es_encryptedKey g a = Some key \<and> es_contractLevels g a = Some SOLIDITY_ENHANCE \<and>
    (\<exists>c. es_codes g a = Some c \<and> c \<noteq> []) \<and> es_balances g a \<noteq> None"

lemma keyed_refused: "keyed a key g \<Longrightarrow> \<exists>e. fst (rpc_set_contract_key key' a g) = Inl (HttpError e)"
  by (auto simp: keyed_def rpc_set_contract_key_def act_simps es_get_known get_code_run)

lemma es_get_keeps: "keyed a key g \<Longrightarrow> keyed a key (snd (es_get b g))"
  by (auto simp: keyed_def es_get_def es_create_def add_to_cache_def act_simps Let_def split: option.splits)

lemma get_code_keeps: "snd (ap_get_code b g) = g"
  by (simp add: ap_get_code_def the_proxy_def act_simps split: option.splits)

lemma keyed_request:
  assumes "keyed a key g"
  shows "keyed a key (snd (rpc_set_contract_key key' b g))"
proof -
  have "keyed a key (make_state g)" using assms by (simp add: keyed_def)
  then have k: "keyed a key (snd (es_get b (make_state g)))" by (rule es_get_keeps)
  obtain x g1 where g1: "es_get b (make_state g) = (x, g1)" by fastforce
  show ?thesis
  proof (cases x)
    case (Inr r)
    obtain c where c: "ap_get_code r g1 = (c, g1)" using get_code_keeps [of r g1] by (metis prod.collapse)
    show ?thesis using k g1 Inr c by (cases c) (auto simp: rpc_set_contract_key_def act_simps keyed_def guard_def)
  qed (use k g1 in \<open>simp add: rpc_set_contract_key_def act_simps\<close>)
qed

lemma keyed_requests: "key_requests g h \<Longrightarrow> keyed a key g \<Longrightarrow> keyed a key h"
  by (induction rule: key_requests.induct) (simp_all add: keyed_request)

section \<open>Properties\<close>

text \<open>Claim C35.  Anybody can block a deployment by asking for a balance: the request for the balance of the address a contract
  is about to get creates an account there, and the deployment then fails because the account has a balance.\<close>

theorem balance_query_blocks_deployment:
  assumes "env_ops env = eth_ops ext" and "mc_to mc = None" and "es_balances g (mc_from mc) = Some b"
    and "es_nonces g (mc_from mc) = Some n" and "to = generate_address (mc_from mc) n"
    and "es_balances g to = None" and "es_codes g to = None" and "es_nonces g to = None"
  shows "\<exists>g'. rpc_get_balance to ''latest'' g = (Inr (Success (to_hex_string 0)), g') \<and>
    (\<exists>g''. EVMC_run env fuel mc (make_state g') = Some (Inl (already_has ''a balance'' to), g''))"
proof -
  define g' where "g' = snd (rpc_get_balance to ''latest'' g)"
  have ne: "mc_from mc \<noteq> to" using assms(3,6) by auto
  have q: "rpc_get_balance to ''latest'' g = (Inr (Success (to_hex_string 0)), g')" "es_balances g' to = Some 0"
    "es_balances g' (mc_from mc) = Some b" "es_nonces g' (mc_from mc) = Some n"
    using assms(3-8) ne by (simp_all add: g'_def rpc_get_balance_def act_simps es_get_unknown get_balance_run)
  have "\<exists>g''. deploy_to env mc (make_state g') = (Inl (already_has ''a balance'' to), g'')"
    using q(2-4) assms(1,2,5) ne
    by (simp add: deploy_to_def eth_op_defs act_simps es_get_known es_create_def Let_def)
  then have "\<exists>g''. EVMC_run env fuel mc (make_state g') = Some (Inl (already_has ''a balance'' to), g'')"
    by (auto simp: EVMC_run_def run_in_evm_def then_run_def after_run_def)
  then show ?thesis using q(1) by blast
qed

theorem balance_query_blocks_deployment_witness:
  "\<exists>g'. rpc_get_balance (generate_address (2 ^ 160) 0) ''latest'' example_sender = (Inr (Success (to_hex_string 0)), g') \<and>
    (\<exists>g''. EVMC_run example_eth_env 5 (default_MessageCall\<lparr>mc_from := 2 ^ 160\<rparr>) (make_state g') =
      Some (Inl (already_has ''a balance'' (generate_address (2 ^ 160) 0)), g''))"
proof -
  have "generate_address (2 ^ 160) 0 \<noteq> 2 ^ 160" using generate_address_bound [of "2 ^ 160" 0] by auto
  then show ?thesis
    using balance_query_blocks_deployment [of example_eth_env example_ext "default_MessageCall\<lparr>mc_from := 2 ^ 160\<rparr>" example_sender 5 0
        "generate_address (2 ^ 160) 0" 5]
    by (simp add: example_eth_env_def default_MessageCall_def example_sender_def)
qed



text \<open>Claim C32.  A contract gets its key at most once: the request succeeds exactly when the account has code, has no key yet and
  has no level or the level \<open>SOLIDITY\<close>; it then sets the key and raises the level.  After that,
  and after any further requests for this or other contracts, key and level are still
  the same, and every request for the contract fails.\<close>

theorem contract_key_set_once:
  assumes "es_balances g a = Some b" and "rpc_set_contract_key key a g = (r, g')"
  shows "(r = Inr (Success True) \<longleftrightarrow> (\<exists>c. es_codes g a = Some c \<and> c \<noteq> []) \<and> es_encryptedKey g a = None \<and>
      es_contractLevels g a \<in> {None, Some SOLIDITY}) \<and>
    (r = Inr (Success True) \<longrightarrow> es_encryptedKey g' = (es_encryptedKey g)(a \<mapsto> key) \<and>
      es_contractLevels g' = (es_contractLevels g)(a \<mapsto> SOLIDITY_ENHANCE) \<and>
      (\<forall>h key'. key_requests g' h \<longrightarrow> es_encryptedKey h a = Some key \<and> es_contractLevels h a = Some SOLIDITY_ENHANCE \<and>
        (\<exists>e. fst (rpc_set_contract_key key' a h) = Inl (HttpError e))))"
proof -
  have r: "r = fst (rpc_set_contract_key key a g)" "g' = snd (rpc_set_contract_key key a g)" using assms(2) by simp_all
  have first: "(r = Inr (Success True) \<longleftrightarrow> (\<exists>c. es_codes g a = Some c \<and> c \<noteq> []) \<and> es_encryptedKey g a = None \<and>
      es_contractLevels g a \<in> {None, Some SOLIDITY}) \<and>
    (r = Inr (Success True) \<longrightarrow> es_encryptedKey g' = (es_encryptedKey g)(a \<mapsto> key) \<and>
      es_contractLevels g' = (es_contractLevels g)(a \<mapsto> SOLIDITY_ENHANCE) \<and> keyed a key g')"
    using assms(1) unfolding r
    by (cases "es_codes g a"; cases "es_encryptedKey g a"; cases "es_contractLevels g a")
      (auto simp: rpc_set_contract_key_def act_simps es_get_known get_code_run guard_def keyed_def)
  moreover have "es_encryptedKey h a = Some key \<and> es_contractLevels h a = Some SOLIDITY_ENHANCE \<and>
      (\<exists>e. fst (rpc_set_contract_key key' a h) = Inl (HttpError e))" if "keyed a key g'" "key_requests g' h" for h key'
    using keyed_requests [OF that(2,1)] keyed_refused [of a key h key'] by (auto simp: keyed_def)
  ultimately show ?thesis by blast
qed

theorem contract_key_set_once_witness:
  "\<exists>g'. rpc_set_contract_key [7] 9 example_contracts = (Inr (Success True), g') \<and>
    es_encryptedKey (snd (rpc_set_contract_key [8] 9 g')) 9 = Some [7] \<and>
    (\<exists>e. fst (rpc_set_contract_key [6] 9 (snd (rpc_set_contract_key [8] 9 g'))) = Inl (HttpError e))"
proof -
  obtain r g' where g': "rpc_set_contract_key [7] 9 example_contracts = (r, g')" by fastforce
  have "key_requests g' (snd (rpc_set_contract_key [8] 9 g'))" by (intro one_request no_request)
  then show ?thesis using g' contract_key_set_once [OF _ g', of 0]
    by (simp add: example_contracts_def example_eth_def)
qed

text \<open>Claim C31.  A transaction that was accepted has a receipt: when \<open>eth_sendRawTransaction\<close> returns a hash, the request
  for the receipt of that hash returns one, with status 1.\<close>

theorem accepted_transaction_has_receipt:
  assumes "send_raw_transaction recover_key chain env fuel raw g = Some (Inr hash, g')"
  shows "\<exists>key r. to_uint256 hash = Inr key \<and> rpc_get_transaction_receipt key g' = (Inr (Some r), g') \<and> rcp_transaction_hash r = key \<and> rcp_status r = 1"
  using assms
  by (auto simp: send_raw_transaction_def then_run_def after_run_def act_simps rpc_get_transaction_receipt_def new_TxReceipt_def
      Let_def split: prod.splits sum.splits option.splits)

theorem accepted_transaction_has_receipt_witness:
  "\<exists>hash g' key r. send_raw_transaction (\<lambda>rs h. Inr [4]) 1 example_eth_env 1 (to_hex_string_bytes (ets_encode example_signed_tx))
      example_contracts = Some (Inr hash, g') \<and> to_uint256 hash = Inr key \<and>
    rpc_get_transaction_receipt key g' = (Inr (Some r), g') \<and> rcp_status r = 1"
proof -
  obtain hash g' where "send_raw_transaction (\<lambda>rs h. Inr [4]) 1 example_eth_env 1 (to_hex_string_bytes (ets_encode example_signed_tx))
      example_contracts = Some (Inr hash, g')"
    using example_accepted by blast
  from accepted_transaction_has_receipt [OF this] this show ?thesis by blast
qed

text \<open>The account of the enclave is made once: after a successful \<open>create\<close> the address, a key for it, a balance
  of 0 and a nonce of 0 are in the tables, \<open>get\<close> returns the address, and a second \<open>create\<close> fails
  and changes nothing.\<close>

lemma tee_account_created_once:
  assumes "tee_create kp t = (Inr addr, t')"
  shows "get_address_from_public_key (fst kp) = Inr addr \<and> tee_get t' = (Inr addr, t') \<and>
    get_tee_kp addr t' = (Inr (snd kp), t') \<and> tee_get_nonce addr t' = (Inr 0, t') \<and>
    tee_create kp' t' = (Inl (StdException LogicError ''tee has been prepared''), t')"
proof -
  obtain a where a: "get_address_from_public_key (fst kp) = Inr a"
    using assms by (cases "get_address_from_public_key (fst kp)") (auto simp: tee_create_def act_simps guard_def split: if_splits)
  show ?thesis
    using assms a by (auto simp: tee_create_def tee_get_def check_tee_addr_def get_tee_kp_def tee_get_nonce_def act_simps guard_def
        split: if_splits option.splits)
qed

end
