(* ===== verification/Policies.thy ===== *)
theory Policies
  imports EthTx AbiCoder "HOL-Library.List_Lexorder"
begin

text \<open>
  Privacy policies and the multi-party transactions that run under them:
  \<open>src/queue/types.h\<close> and \<open>src/queue/workertransaction.h\<close>.

  A policy lists the states of a contract, each with its type and its owner, and the functions with
  their inputs and the states they read and change.  A multi-party transaction collects the inputs
  of its parties.  The states of the contract travel as a vector of hexadecimal strings that
  \<open>visit_states\<close> walks through.

  The record \<open>policy_ext\<close> holds the functions of \<open>app/utils.h\<close> and of the cryptographic
  library, which are not part of the sources, and the printing of JSON.  A key pair is the string it is stored as.
  A missing key of a JSON object reads as null; the null entry that \<open>operator[]\<close> adds for
  it then reads the same.
\<close>

section \<open>Data\<close>

datatype Status = PENDING | REQUESTING_OLD_STATES | SYNCING | SYNCED | SYNC_FAILED | DROPPED

record MultiPartyParams =
  mpp_function :: string
  mpp_inputs :: "(string \<times> json) list"

record Params =
  par_name :: string
  par_structural_type :: json
  par_owner :: json
  par_value :: "json option"

record stateParams =
  sp_name :: string
  sp_keys :: "string list"

record Function =
  fn_type :: string
  fn_name :: string
  fn_entry :: bytes
  fn_inputs :: "Params list"
  fn_read :: "stateParams list"
  fn_mutate :: "stateParams list"
  fn_outputs :: "Params list"
  fn_raw_outputs :: bytes

record Policy =
  pol_contract :: string
  pol_states :: "Params list"
  pol_functions :: "Function list"

record MultiPartyTransaction =
  mpt_nonce :: u64
  mpt_to :: bytes
  mpt_from :: u256
  mpt_publicKeys :: bytes
  mpt_params :: MultiPartyParams

record PrivacyPolicyTransaction =
  ppt_from :: u256
  ppt_to :: u256
  ppt_verifierAddr :: u256
  ppt_codeHash :: string
  ppt_policy :: Policy

record CloakPolicyTransaction =
  cpt_from :: u256
  cpt_to :: u256
  cpt_verifierAddr :: u256
  cpt_codeHash :: string
  cpt_function :: Function
  cpt_states :: "Params list"
  cpt_old_states :: "string list"
  cpt_requested_addresses :: "string list"
  cpt_public_keys :: "string \<rightharpoonup> string"
  cpt_status :: Status
  cpt_partys :: "(bytes \<times> string) list"

record SyncStateResponse =
  ssr_tx_hash :: bytes
  ssr_data :: bytes
  ssr_from :: "u256 option"
  ssr_to :: "u256 option"

record policy_ext =
  px_split_string :: "string \<Rightarrow> char \<Rightarrow> string list"
  px_dump :: "MultiPartyParams \<Rightarrow> string"
  px_repeat_hex_string :: "string \<Rightarrow> u64 \<Rightarrow> string"
  px_split_tag_and_iv :: "bytes \<Rightarrow> bytes \<times> bytes"
  px_encrypt_data_s :: "string \<Rightarrow> bytes \<Rightarrow> bytes \<Rightarrow> bytes \<Rightarrow> exn + bytes \<times> bytes"
  px_decrypt_data :: "string \<Rightarrow> bytes \<Rightarrow> bytes \<Rightarrow> bytes \<Rightarrow> exn + bytes"
  px_public_key_raw :: "string \<Rightarrow> bytes"
  px_random :: "nat \<Rightarrow> bytes"

section \<open>Access\<close>

fun json_ref :: "json \<Rightarrow> string \<Rightarrow> exn + json" where
  "json_ref (JObject kvs) key = Inr (case map_of kvs key of None \<Rightarrow> JNull | Some v \<Rightarrow> v)"
| "json_ref JNull key = Inr JNull"
| "json_ref j key = Inl (type_error ''305'' (''cannot use operator[] with a string argument with '' @ type_name j))"

fun json_int :: "json \<Rightarrow> exn + int" where
  "json_int (JNumber i) = Inr (sint (word_of_int i :: 32 word))"
| "json_int j = Inl (wrong_type ''number'' j)"

definition owner_of :: "Params \<Rightarrow> exn + json" where
  "owner_of p = json_ref (par_owner p) ''owner''"

definition type_of :: "Params \<Rightarrow> exn + json" where
  "type_of p = json_ref (par_structural_type p) ''type''"

definition depth_of :: "Params \<Rightarrow> exn + u64" where
  "depth_of p = tries (json_ref (par_structural_type p) ''depth'') get_size_t"

definition vec_at :: "'a list \<Rightarrow> u64 \<Rightarrow> exn + 'a" where
  "vec_at v i = (if unat i < length v then Inr (v ! unat i) else Inl (UndefinedBehaviour ''index past the end of a vector''))"

definition vec_range :: "'a list \<Rightarrow> int \<Rightarrow> int \<Rightarrow> exn + 'a list" where
  "vec_range v a b =
    (if 0 \<le> a \<and> a \<le> b \<and> b \<le> int (length v) then Inr (take (nat (b - a)) (drop (nat a) v))
     else Inl (UndefinedBehaviour ''iterator outside of a vector''))"

definition map_at :: "(string \<rightharpoonup> 'v) \<Rightarrow> string \<Rightarrow> exn + 'v" where
  "map_at m k = (case m k of None \<Rightarrow> Inl (StdException OutOfRange ''map::at'') | Some v \<Rightarrow> Inr v)"

primrec fold_tries :: "('x \<Rightarrow> 'a \<Rightarrow> exn + 'a) \<Rightarrow> 'x list \<Rightarrow> 'a \<Rightarrow> exn + 'a" where
  "fold_tries f [] a = Inr a"
| "fold_tries f (x # xs) a = tries (f x a) (fold_tries f xs)"

text \<open>Assignment to an entry of a \<open>std::map\<close>, which is kept in the order of its keys.\<close>

fun map_put :: "('k :: linorder) \<Rightarrow> 'v \<Rightarrow> ('k \<times> 'v) list \<Rightarrow> ('k \<times> 'v) list" where
  "map_put k v [] = [(k, v)]"
| "map_put k v (x # xs) =
    (if fst x < k then x # map_put k v xs else if fst x = k then (k, v) # xs else (k, v) # x # xs)"

section \<open>Functions of a policy\<close>

definition getValue :: "Params \<Rightarrow> exn + json" where
  "getValue p = (case par_value p of
      None \<Rightarrow> Inl (CloakException (''multi party transaction has not complete, get ['' @ par_name p @ ''] has no value''))
    | Some v \<Rightarrow> Inr v)"

definition optional_value :: "Params \<Rightarrow> exn + json" where
  "optional_value p = (case par_value p of
      None \<Rightarrow> Inl (StdException BadOptionalAccess ''bad optional access'')
    | Some v \<Rightarrow> Inr v)"

definition packed_to_data :: "Function \<Rightarrow> exn + bytes" where
  "packed_to_data f =
    tries (fold_tries (\<lambda>p encoder. tries (getValue p) (\<lambda>v.
        add_inputs encoder (par_name p) [] v (par_structural_type p))) (fn_inputs f) (new_Encoder [])) (\<lambda>encoder.
    encode_after encoder (fn_entry f))"

definition complete :: "Function \<Rightarrow> bool" where
  "complete f \<longleftrightarrow> list_all (\<lambda>x. par_value x \<noteq> None) (fn_inputs f)"

fun set_first :: "string \<Rightarrow> json \<Rightarrow> Params list \<Rightarrow> Params list option" where
  "set_first nm v [] = None"
| "set_first nm v (p # ps) =
    (if nm = par_name p then Some (p\<lparr>par_value := Some v\<rparr> # ps)
     else case set_first nm v ps of None \<Rightarrow> None | Some qs \<Rightarrow> Some (p # qs))"

definition padding :: "string \<Rightarrow> json \<Rightarrow> Function \<Rightarrow> exn + Function" where
  "padding nm v f =
    (if complete f then Inr f
     else case set_first nm v (fn_inputs f) of
       Some ps \<Rightarrow> Inr (f\<lparr>fn_inputs := ps\<rparr>)
     | None \<Rightarrow> Inl (StdException LogicError (''input params doesn`t match, get '' @ nm)))"

definition state_params :: "Function \<Rightarrow> string \<Rightarrow> stateParams list" where
  "state_params f name = filter (\<lambda>x. sp_name x = name) (fn_read f @ fn_mutate f)"

text \<open>One key: the sender or the values of the inputs of that name.\<close>

definition single_key :: "Function \<Rightarrow> string \<Rightarrow> bool \<Rightarrow> string \<Rightarrow> exn + string list" where
  "single_key f msg_sender encoded k =
    (if k = ''msg.sender'' then
       if encoded then tries (new_Address msg_sender) (\<lambda>c. tries (get_value c) (\<lambda>bs. Inr [to_hex_string_bytes bs]))
       else Inr [msg_sender]
     else map_tries (\<lambda>p. tries (optional_value p) (\<lambda>v.
         if encoded then tries (encode_value [] v (par_structural_type p)) (\<lambda>data. Inr (to_hex_string_bytes data))
         else get_string v)) (filter (\<lambda>p. par_name p = k) (fn_inputs f)))"

definition get_mapping_keys ::
  "policy_ext \<Rightarrow> Function \<Rightarrow> string \<Rightarrow> string \<Rightarrow> int \<Rightarrow> bool \<Rightarrow> exn + string list" where
  "get_mapping_keys px f msg_sender name pos encoded =
    fold_tries (\<lambda>key res.
      let nested_keys = px_split_string px key (CHR '':'')
      in tries (if pos = - 1 then Inr nested_keys
          else if 0 \<le> pos \<and> pos < int (length nested_keys) then Inr [nested_keys ! nat pos]
          else Inl (StdException OutOfRange ''vector::_M_range_check'')) (\<lambda>nested_keys.
        fold_tries (\<lambda>k res. tries (single_key f msg_sender encoded k) (\<lambda>ks. Inr (res @ ks))) nested_keys res))
      (concat (map sp_keys (state_params f name))) []"

definition get_keys_size :: "Function \<Rightarrow> string \<Rightarrow> u64" where
  "get_keys_size f name = sum_list (map (\<lambda>x. word_of_nat (length (sp_keys x))) (state_params f name))"

definition get_funtions :: "Policy \<Rightarrow> string \<Rightarrow> exn + Function" where
  "get_funtions pol name = (case find (\<lambda>f. fn_name f = name) (pol_functions pol) of
      Some f \<Rightarrow> Inr f
    | None \<Rightarrow> Inl (StdException LogicError (''doesn't find this '' @ name @ '' function in this policy modules'')))"

section \<open>Multi-party transactions\<close>

definition check_transaction_type :: "MultiPartyTransaction \<Rightarrow> exn + bool" where
  "check_transaction_type t =
    (if length (mpt_to t) = 20 then Inr False
     else if length (mpt_to t) = 32 then Inr True
     else Inl (StdException LogicError (''Unsupported transaction type, to length should be 20 or 32, but is '' @
       to_string (length (mpt_to t)))))"

definition new_CloakPolicyTransaction :: "PrivacyPolicyTransaction \<Rightarrow> string \<Rightarrow> exn + CloakPolicyTransaction" where
  "new_CloakPolicyTransaction ppt name =
    tries (get_funtions (ppt_policy ppt) name) (\<lambda>f.
    Inr \<lparr>cpt_from = 0, cpt_to = ppt_to ppt, cpt_verifierAddr = ppt_verifierAddr ppt, cpt_codeHash = ppt_codeHash ppt,
      cpt_function = f, cpt_states = pol_states (ppt_policy ppt), cpt_old_states = [], cpt_requested_addresses = [],
      cpt_public_keys = Map.empty, cpt_status = PENDING, cpt_partys = []\<rparr>)"

definition set_content :: "policy_ext \<Rightarrow> MultiPartyTransaction \<Rightarrow> CloakPolicyTransaction \<Rightarrow> exn + CloakPolicyTransaction" where
  "set_content px mul c =
    tries (fold_tries (\<lambda>(name, v). padding name v) (mpp_inputs (mpt_params mul)) (cpt_function c)) (\<lambda>f.
    Inr (c\<lparr>cpt_function := f, cpt_partys := map_put (mpt_publicKeys mul) (px_dump px (mpt_params mul)) (cpt_partys c)\<rparr>))"

definition calcInputsHash :: "CloakPolicyTransaction \<Rightarrow> exn + u256 list \<times> string list" where
  "calcInputsHash c =
    tries (map_tries (\<lambda>(key, _). get_address_from_public_key key) (cpt_partys c)) (\<lambda>party.
    Inr (party, map (\<lambda>(_, v). hex_str (Keccak256 (bytes_of_string v))) (cpt_partys c)))"

definition uint256_json :: "u256 \<Rightarrow> json" where
  "uint256_json v = JString (to_hex_string v)"

definition packedPropose :: "CloakPolicyTransaction \<Rightarrow> bytes \<Rightarrow> exn + bytes" where
  "packedPropose c txId =
    tries (calcInputsHash c) (\<lambda>(partys, inputHash).
    tries (add_inputs (new_Encoder ''propose'') ''txId'' ''uint256'' (JString (hex_str txId))
      (number_type_to_json (new_number_type 256 False))) (\<lambda>encoder.
    tries (add_inputs encoder ''verifierAddr'' ''address'' (uint256_json (cpt_verifierAddr c))
      (common_type_to_json (new_common_type (JString ''address'') 0))) (\<lambda>encoder.
    tries (add_inputs encoder ''partys'' ''address[]'' (JArray (map uint256_json partys)) (make_common_array ''address'' [])) (\<lambda>encoder.
    tries (add_inputs encoder ''inputHash'' ''bytes32[]'' (JArray (map JString inputHash)) (make_bytes_array 32 [])) (\<lambda>encoder.
    tries (add_inputs encoder ''deposit'' ''uint256'' (uint256_json 1000000000)
      (number_type_to_json (new_number_type 256 False))) (\<lambda>encoder.
    encodeWithSignatrue encoder))))))"

section \<open>The vector of states\<close>

definition is_mapping :: "Params \<Rightarrow> exn + bool" where
  "is_mapping p = tries (type_of p) (\<lambda>t. Inr (t = JString ''mapping''))"

definition get_states_read :: "policy_ext \<Rightarrow> CloakPolicyTransaction \<Rightarrow> exn + string list" where
  "get_states_read px c =
    fold_tries (\<lambda>i read.
      let state = cpt_states c ! i
      in tries (is_mapping state) (\<lambda>m.
        if \<not> m then Inr read
        else tries (get_mapping_keys px (cpt_function c) (to_checksum_address (cpt_from c)) (par_name state) (- 1) True) (\<lambda>keys.
          Inr (read @ [to_hex_string_fixed (word_of_nat i) 64,
            to_hex_string_fixed (ucast (get_keys_size (cpt_function c) (par_name state))) 64] @ keys))))
      [0..<length (cpt_states c)] []"

definition state_len :: "Function \<Rightarrow> bool \<Rightarrow> Params \<Rightarrow> exn + u64" where
  "state_len f encrypted state =
    tries (tries (owner_of state) get_string) (\<lambda>owner.
    let factor = (if encrypted \<and> owner \<noteq> ''all'' then 3 else 1)
    in tries (is_mapping state) (\<lambda>m.
      if m then tries (depth_of state) (\<lambda>dep. Inr (2 + (dep + factor) * get_keys_size f (par_name state)))
      else Inr (factor + 1)))"

definition get_states_return_len :: "CloakPolicyTransaction \<Rightarrow> bool \<Rightarrow> exn + u64" where
  "get_states_return_len c encrypted =
    fold_tries (\<lambda>state res. tries (state_len (cpt_function c) encrypted state) (\<lambda>n. Inr (res + n))) (cpt_states c) 0"

definition get_states_call_data :: "policy_ext \<Rightarrow> CloakPolicyTransaction \<Rightarrow> bool \<Rightarrow> exn + bytes" where
  "get_states_call_data px c encrypted =
    tries (get_states_read px c) (\<lambda>read.
    tries (get_states_return_len c encrypted) (\<lambda>return_len.
    tries (add_inputs (new_Encoder ''get_states'') ''read'' ''bytes[]'' (JArray (map JString read)) (make_bytes_array 0 [])) (\<lambda>encoder.
    tries (add_inputs encoder ''return_len'' ''uint256'' (JString (to_hex_string_u64 return_len))
      (number_type_to_json (new_number_type 256 False))) (\<lambda>encoder.
    encodeWithSignatrue encoder))))"

text \<open>
  \<open>visit_states\<close>: the index of the entry after the one at \<open>i\<close>, and the loop, whose number of
  rounds is bounded by the first argument; \<open>None\<close> when that many rounds are not enough.
\<close>

definition next_entry :: "Params list \<Rightarrow> string list \<Rightarrow> bool \<Rightarrow> u64 \<Rightarrow> u64 \<Rightarrow> exn + u64" where
  "next_entry states v_states is_encryped sid i =
    tries (vec_at states sid) (\<lambda>state.
    tries (if is_encryped then tries (owner_of state) (\<lambda>ow. Inr (ow \<noteq> JString ''all'')) else Inr False) (\<lambda>secret.
    let factor = (if secret then 3 else 1)
    in tries (is_mapping state) (\<lambda>m.
      if m then tries (depth_of state) (\<lambda>dep. tries (vec_at v_states (i + 1)) (\<lambda>s.
        Inr (i + (2 + to_uint64 s * (factor + dep)))))
      else Inr (i + (1 + factor)))))"

fun visit_states ::
  "nat \<Rightarrow> Params list \<Rightarrow> string list \<Rightarrow> bool \<Rightarrow> (u64 \<Rightarrow> u64 \<Rightarrow> 'a \<Rightarrow> exn + 'a) \<Rightarrow> u64 \<Rightarrow> 'a \<Rightarrow> (exn + 'a) option" where
  "visit_states 0 states v_states is_encryped f i a = None"
| "visit_states (Suc n) states v_states is_encryped f i a =
    (if length v_states \<le> unat i then Some (Inr a)
     else
       let sid = to_uint64 (v_states ! unat i)
       in case f sid i a of
         Inl e \<Rightarrow> Some (Inl e)
       | Inr a \<Rightarrow> (case next_entry states v_states is_encryped sid i of
           Inl e \<Rightarrow> Some (Inl e)
         | Inr j \<Rightarrow> visit_states n states v_states is_encryped f j a))"

section \<open>Public keys, decryption and encryption\<close>

definition ZERO_HEX_STR :: string where
  "ZERO_HEX_STR = ''0x'' @ replicate 64 (CHR ''0'')"

text \<open>The callback that records the addresses among the public states; \<open>values\<close> is the vector it reads from.\<close>

definition note_address :: "Params list \<Rightarrow> string list \<Rightarrow> u64 \<Rightarrow> u64 \<Rightarrow> (string \<rightharpoonup> string) \<Rightarrow> exn + (string \<rightharpoonup> string)" where
  "note_address states values sid idx addresses =
    tries (vec_at states sid) (\<lambda>p.
    tries (type_of p) (\<lambda>t.
    if t \<noteq> JString ''address'' then Inr addresses
    else tries (owner_of p) (\<lambda>ow.
      if ow \<noteq> JString ''all'' then Inr addresses
      else tries (vec_at values (idx + 1)) (\<lambda>s. tries (to_uint256 s) (\<lambda>a.
        Inr (addresses(par_name p \<mapsto> to_checksum_address a)))))))"

definition collect_owner ::
  "policy_ext \<Rightarrow> CloakPolicyTransaction \<Rightarrow> (string \<rightharpoonup> string) \<Rightarrow> u64 \<Rightarrow> u64 \<Rightarrow> bool \<times> string list \<Rightarrow> exn + bool \<times> string list" where
  "collect_owner px c addresses sid idx a =
    (case a of (included_tee, res) \<Rightarrow>
      tries (vec_at (cpt_states c) sid) (\<lambda>p.
      tries (tries (owner_of p) get_string) (\<lambda>owner.
      if owner = ''all'' then Inr (included_tee, res)
      else if owner = ''tee'' then Inr (True, res)
      else if owner = ''mapping'' then
        tries (tries (json_ref (par_owner p) ''var_pos'') json_int) (\<lambda>key_var_pos.
        if key_var_pos = - 1 then
          tries (tries (json_ref (par_owner p) ''var'') get_string) (\<lambda>var.
          tries (map_at addresses var) (\<lambda>ad. Inr (included_tee, res @ [ad])))
        else tries (get_mapping_keys px (cpt_function c) (to_checksum_address (cpt_from c)) (par_name p) key_var_pos False) (\<lambda>keys.
          Inr (included_tee, res @ keys)))
      else tries (map_at addresses owner) (\<lambda>ad. Inr (included_tee, res @ [ad])))))"

definition decrypt_with ::
  "policy_ext \<Rightarrow> string \<Rightarrow> bytes \<Rightarrow> string \<Rightarrow> string \<Rightarrow> exn + string" where
  "decrypt_with px tee_kp pk_der data_hex tag_iv_hex =
    (case px_split_tag_and_iv px (to_bytes tag_iv_hex) of (tag, iv) \<Rightarrow>
      tries (px_decrypt_data px tee_kp pk_der iv (to_bytes data_hex @ tag)) (\<lambda>decrypted.
      Inr (to_hex_string_bytes decrypted)))"

definition decrypt_mapping_entry ::
  "policy_ext \<Rightarrow> CloakPolicyTransaction \<Rightarrow> string \<Rightarrow> string list \<Rightarrow> u64 \<Rightarrow> u64 \<Rightarrow> u64 \<Rightarrow> string list \<Rightarrow> exn + string list" where
  "decrypt_mapping_entry px c tee_kp mapping_keys dep idx j res =
    (let old = cpt_old_states c; data_pos = idx + 2 + dep + j * (dep + 3)
     in tries (vec_range mapping_keys (uint (j * dep)) (uint ((j + 1) * dep))) (\<lambda>ks.
        tries (vec_at old (data_pos + 2)) (\<lambda>s. tries (to_uint256 s) (\<lambda>sender_addr.
        if sender_addr = 0 then Inr (res @ ks @ [ZERO_HEX_STR])
        else tries (map_at (cpt_public_keys c) (to_checksum_address sender_addr)) (\<lambda>pk.
          tries (vec_at old (data_pos + 1)) (\<lambda>tag_iv. tries (vec_at old data_pos) (\<lambda>data.
          tries (decrypt_with px tee_kp (to_bytes pk) data tag_iv) (\<lambda>d. Inr (res @ ks @ [d])))))))))"

definition decrypt_single ::
  "policy_ext \<Rightarrow> CloakPolicyTransaction \<Rightarrow> string \<Rightarrow> Params \<Rightarrow> u64 \<Rightarrow> string list \<Rightarrow> exn + string list" where
  "decrypt_single px c tee_kp p idx res =
    (let old = cpt_old_states c
     in tries (vec_at old (idx + 3)) (\<lambda>s. tries (to_uint256 s) (\<lambda>a.
        let sender_addr = to_checksum_address a
        in tries (to_uint256 sender_addr) (\<lambda>sender.
        if sender = 0 then
          tries (type_of p) (\<lambda>t.
          if t = JString ''array'' then
            tries (get_static_array_size (par_structural_type p)) (\<lambda>array_size.
            Inr (res @ [px_repeat_hex_string px ZERO_HEX_STR array_size]))
          else Inr (res @ [ZERO_HEX_STR]))
        else
          tries (owner_of p) (\<lambda>ow.
          tries (if ow = JString ''tee'' then Inr (px_public_key_raw px tee_kp)
            else tries (map_at (cpt_public_keys c) sender_addr) (\<lambda>pk. Inr (to_bytes pk))) (\<lambda>pk_der.
          tries (vec_at old (idx + 2)) (\<lambda>tag_iv. tries (vec_at old (idx + 1)) (\<lambda>data.
          tries (decrypt_with px tee_kp pk_der data tag_iv) (\<lambda>d. Inr (res @ [d]))))))))))"

definition decrypt_entry ::
  "policy_ext \<Rightarrow> CloakPolicyTransaction \<Rightarrow> string \<Rightarrow> u64 \<Rightarrow> u64 \<Rightarrow> string list \<Rightarrow> exn + string list" where
  "decrypt_entry px c tee_kp sid idx res =
    (let old = cpt_old_states c
     in tries (vec_at old idx) (\<lambda>s.
        let res = res @ [s]
        in tries (if unat sid < length (cpt_states c) then Inr (cpt_states c ! unat sid)
            else Inl (StdException OutOfRange ''vector::_M_range_check'')) (\<lambda>p.
          tries (tries (owner_of p) get_string) (\<lambda>owner.
          if owner = ''all'' then
            tries (is_mapping p) (\<lambda>m.
            tries (vec_at old (idx + 1)) (\<lambda>s.
            if m then
              tries (to_uint256 s) (\<lambda>n. tries (depth_of p) (\<lambda>dep.
              tries (vec_range old (uint idx + 1) (uint idx + 2 + sint (ucast n * (dep + 1) :: u64))) (\<lambda>vs. Inr (res @ vs))))
            else Inr (res @ [s])))
          else if owner = ''mapping'' then
            tries (get_mapping_keys px (cpt_function c) (to_checksum_address (cpt_from c)) (par_name p) (- 1) True) (\<lambda>mapping_keys.
            tries (depth_of p) (\<lambda>dep.
            tries (vec_at old (idx + 1)) (\<lambda>s.
            fold_tries (decrypt_mapping_entry px c tee_kp mapping_keys dep idx)
              (map word_of_nat [0..<unat (get_keys_size (cpt_function c) (par_name p))]) (res @ [s]))))
          else decrypt_single px c tee_kp p idx res))))"

definition decrypt_states :: "policy_ext \<Rightarrow> nat \<Rightarrow> CloakPolicyTransaction \<Rightarrow> string \<Rightarrow> (exn + string list) option" where
  "decrypt_states px n c tee_kp = visit_states n (cpt_states c) (cpt_old_states c) True (decrypt_entry px c tee_kp) 0 []"

definition request_public_keys ::
  "policy_ext \<Rightarrow> nat \<Rightarrow> bytes \<Rightarrow> exn + string \<Rightarrow> u256 \<Rightarrow> u256 \<Rightarrow> CloakPolicyTransaction \<Rightarrow>
    (exn + bool \<times> CloakPolicyTransaction \<times> SyncStateResponse option) option" where
  "request_public_keys px n target_digest tee_kp acc_address service_addr c =
    (case visit_states n (cpt_states c) (cpt_old_states c) True (note_address (cpt_states c) (cpt_old_states c)) 0 Map.empty of
      None \<Rightarrow> None
    | Some (Inl e) \<Rightarrow> Some (Inl e)
    | Some (Inr addresses) \<Rightarrow>
      (case visit_states n (cpt_states c) (cpt_old_states c) True (collect_owner px c addresses) 0 (False, []) of
        None \<Rightarrow> None
      | Some (Inl e) \<Rightarrow> Some (Inl e)
      | Some (Inr (included_tee, res)) \<Rightarrow>
        if res = [] then
          if included_tee then
            (case tee_kp of
              Inl e \<Rightarrow> Some (Inl e)
            | Inr kp \<Rightarrow> (case decrypt_states px n c kp of
                None \<Rightarrow> None
              | Some (Inl e) \<Rightarrow> Some (Inl e)
              | Some (Inr old) \<Rightarrow> Some (Inr (False, c\<lparr>cpt_old_states := old\<rparr>, None))))
          else Some (Inr (False, c, None))
        else Some (
          tries (add_inputs (new_Encoder ''getPk'') ''read'' ''address[]'' (JArray (map JString res)) (make_common_array ''address'' [])) (\<lambda>encoder.
          tries (encodeWithSignatrue encoder) (\<lambda>data.
          Inr (True, c\<lparr>cpt_requested_addresses := res\<rparr>,
            Some \<lparr>ssr_tx_hash = target_digest, ssr_data = data, ssr_from = Some acc_address, ssr_to = Some service_addr\<rparr>))))))"




section \<open>Notions\<close>

text \<open>The factor of a state and the layout of its block in a vector of states.\<close>

definition state_factor :: "bool \<Rightarrow> Params \<Rightarrow> nat" where
  "state_factor enc p = (if enc \<and> owner_of p \<noteq> Inr (JString ''all'') then 3 else 1)"

definition state_ok :: "Params \<Rightarrow> bool" where
  "state_ok p \<longleftrightarrow> (\<exists>w. owner_of p = Inr (JString w)) \<and> (\<exists>t. type_of p = Inr t \<and> (t = JString ''mapping'' \<longrightarrow> (\<exists>d. depth_of p = Inr d)))"

definition block_len :: "bool \<Rightarrow> Params \<Rightarrow> nat \<Rightarrow> nat" where
  "block_len enc p keys =
    (if type_of p = Inr (JString ''mapping'')
     then 2 + keys * (state_factor enc p + (case depth_of p of Inl e \<Rightarrow> 0 | Inr d \<Rightarrow> unat d))
     else 1 + state_factor enc p)"

definition block_ok :: "bool \<Rightarrow> Params list \<Rightarrow> string list \<Rightarrow> bool" where
  "block_ok enc states e \<longleftrightarrow> e \<noteq> [] \<and> unat (to_uint64 (hd e)) < length states \<and>
    (let p = states ! unat (to_uint64 (hd e)) in state_ok p \<and>
      (type_of p = Inr (JString ''mapping'') \<longrightarrow> 2 \<le> length e) \<and> length e = block_len enc p (unat (to_uint64 (e ! 1))))"

text \<open>The calls of the callback: one for each block, with the state and the index of the block.\<close>

fun blocks_from :: "nat \<Rightarrow> string list list \<Rightarrow> (u64 \<times> u64) list" where
  "blocks_from i [] = []"
| "blocks_from i (e # es) = (to_uint64 (hd e), word_of_nat i) # blocks_from (i + length e) es"

definition supplied :: "MultiPartyTransaction list \<Rightarrow> string set" where
  "supplied muls = (\<Union>mul \<in> set muls. fst ` set (mpp_inputs (mpt_params mul)))"

definition input_names :: "Function \<Rightarrow> string list" where
  "input_names f = map par_name (fn_inputs f)"

text \<open>The names that still have no value.\<close>

definition missing :: "Function \<Rightarrow> string set" where
  "missing f = par_name ` {p \<in> set (fn_inputs f). par_value p = None}"






text \<open>Examples: a mapping, a state of the enclave, a function of two inputs, and a cipher.\<close>

definition example_mapping :: Params where
  "example_mapping = \<lparr>par_name = ''m'', par_structural_type = JObject [(''type'', JString ''mapping''), (''depth'', JNumber 2)],
    par_owner = JObject [(''owner'', JString ''all'')], par_value = None\<rparr>"

definition example_secret :: Params where
  "example_secret = \<lparr>par_name = ''s'', par_structural_type = JObject [(''type'', JString ''uint'')],
    par_owner = JObject [(''owner'', JString ''tee'')], par_value = None\<rparr>"

definition example_input :: "string \<Rightarrow> json option \<Rightarrow> Params" where
  "example_input nm v = \<lparr>par_name = nm, par_structural_type = JNull, par_owner = JNull, par_value = v\<rparr>"

definition example_cpt :: "Params list \<Rightarrow> Params list \<Rightarrow> string list \<Rightarrow> CloakPolicyTransaction" where
  "example_cpt ins states old = \<lparr>cpt_from = 1, cpt_to = 2, cpt_verifierAddr = 3, cpt_codeHash = [],
    cpt_function = \<lparr>fn_type = [], fn_name = ''f'', fn_entry = [1, 2, 3, 4], fn_inputs = ins,
      fn_read = [\<lparr>sp_name = ''m'', sp_keys = [''a'', ''b'']\<rparr>], fn_mutate = [], fn_outputs = [], fn_raw_outputs = []\<rparr>,
    cpt_states = states, cpt_old_states = old, cpt_requested_addresses = [], cpt_public_keys = Map.empty, cpt_status = PENDING,
    cpt_partys = []\<rparr>"

definition example_party :: "string \<Rightarrow> MultiPartyTransaction" where
  "example_party nm = \<lparr>mpt_nonce = 0, mpt_to = [], mpt_from = 1, mpt_publicKeys = [4], mpt_params = \<lparr>mpp_function = ''f'',
    mpp_inputs = [(nm, JNull)]\<rparr>\<rparr>"

definition example_px :: policy_ext where
  "example_px = \<lparr>px_split_string = (\<lambda>s _. [s]), px_dump = mpp_function, px_repeat_hex_string = (\<lambda>s _. s),
    px_split_tag_and_iv = (\<lambda>bs. (take 1 bs, drop 1 bs)), px_encrypt_data_s = (\<lambda>kp pk iv plain. Inr (plain, [9])),
    px_decrypt_data = (\<lambda>kp pk iv data. Inr (butlast data)), px_public_key_raw = (\<lambda>kp. [4]), px_random = (\<lambda>n. replicate 12 7)\<rparr>"

section \<open>Lemmas\<close>

lemmas hex_eval = to_uint64_def strtoull16_def c_str_def isspace_def is_hex_def hex_value_def from_hex_digit_def
  from_dec_digit_def Let_def


lemma all_less_two: "(\<forall>i < Suc (Suc 0). P i) \<longleftrightarrow> P 0 \<and> P (Suc 0)"
  by (auto simp: less_Suc_eq)

lemma set_first_None: "set_first nm v ps = None \<longleftrightarrow> nm \<notin> par_name ` set ps"
  by (induction ps) (auto split: option.splits)

lemma set_first_Some:
  "set_first nm v ps = Some qs \<Longrightarrow>
    map par_name qs = map par_name ps \<and>
    (\<forall>i < length ps. par_value (qs ! i) = (if par_name (ps ! i) = nm \<and> nm \<notin> par_name ` set (take i ps) then Some v else par_value (ps ! i)))"
proof (induction ps arbitrary: qs)
  case (Cons p ps)
  show ?case
  proof (cases "nm = par_name p")
    case True
    then show ?thesis using Cons.prems by (auto simp: nth_Cons split: nat.splits)
  next
    case False
    then obtain rs where "set_first nm v ps = Some rs" "qs = p # rs" using Cons.prems by (auto split: option.splits)
    then show ?thesis using Cons.IH False by (auto simp: nth_Cons split: nat.splits)
  qed
qed simp

lemma complete_iff: "complete f \<longleftrightarrow> (\<forall>i < length (fn_inputs f). par_value (fn_inputs f ! i) \<noteq> None)"
  by (auto simp: complete_def list_all_length)

lemma complete_missing: "complete f \<longleftrightarrow> missing f = {}"
  by (auto simp: complete_def missing_def list_all_iff)

lemma set_first_distinct:
  "distinct (map par_name ps) \<Longrightarrow> nm \<in> par_name ` set ps \<Longrightarrow>
    \<exists>qs. set_first nm v ps = Some qs \<and> map par_name qs = map par_name ps \<and>
      par_name ` {p \<in> set qs. par_value p = None} = par_name ` {p \<in> set ps. par_value p = None} - {nm}"
proof (induction ps)
  case (Cons p ps)
  show ?case
  proof (cases "nm = par_name p")
    case True
    have "par_name ` {q \<in> set (p\<lparr>par_value := Some v\<rparr> # ps). par_value q = None} = par_name ` {q \<in> set (p # ps). par_value q = None} - {nm}"
      using True Cons.prems(1) by (auto simp: image_iff)
    then show ?thesis using True by simp
  next
    case False
    then obtain qs where "set_first nm v ps = Some qs" "map par_name qs = map par_name ps"
      "par_name ` {p \<in> set qs. par_value p = None} = par_name ` {p \<in> set ps. par_value p = None} - {nm}"
      using Cons by auto
    moreover have "par_name ` {q \<in> set (p # rs). par_value q = None} =
        (if par_value p = None then {par_name p} else {}) \<union> par_name ` {q \<in> set rs. par_value q = None}" for rs by auto
    ultimately show ?thesis using False by auto
  qed
qed simp

lemma padding_missing:
  assumes "distinct (input_names f)" and "nm \<in> set (input_names f)"
  shows "\<exists>f'. padding nm v f = Inr f' \<and> input_names f' = input_names f \<and> missing f' = missing f - {nm}"
proof (cases "complete f")
  case True
  then show ?thesis by (simp add: padding_def complete_missing)
next
  case False
  then show ?thesis using set_first_distinct [of "fn_inputs f" nm v] assms
    by (auto simp: padding_def input_names_def missing_def)
qed

lemma paddings_missing:
  "distinct (input_names f) \<Longrightarrow> fst ` set ins \<subseteq> set (input_names f) \<Longrightarrow>
    \<exists>f'. fold_tries (\<lambda>(name, v). padding name v) ins f = Inr f' \<and> input_names f' = input_names f \<and>
      missing f' = missing f - fst ` set ins"
proof (induction ins arbitrary: f)
  case (Cons x ins)
  obtain nm v where x: "x = (nm, v)" by fastforce
  obtain g where "padding nm v f = Inr g" "input_names g = input_names f" "missing g = missing f - {nm}"
    using padding_missing [of f nm v] Cons.prems x by auto
  then show ?case using Cons.IH [of g] Cons.prems x by auto
qed simp

lemma set_contents_missing:
  "distinct (input_names (cpt_function c)) \<Longrightarrow> supplied muls \<subseteq> set (input_names (cpt_function c)) \<Longrightarrow>
    \<exists>c'. fold_tries (set_content px) muls c = Inr c' \<and> missing (cpt_function c') = missing (cpt_function c) - supplied muls"
proof (induction muls arbitrary: c)
  case (Cons mul muls)
  then obtain f where f: "fold_tries (\<lambda>(name, v). padding name v) (mpp_inputs (mpt_params mul)) (cpt_function c) = Inr f"
    "input_names f = input_names (cpt_function c)" "missing f = missing (cpt_function c) - fst ` set (mpp_inputs (mpt_params mul))"
    using paddings_missing [of "cpt_function c" "mpp_inputs (mpt_params mul)"] by (auto simp: supplied_def)
  let ?c = "c\<lparr>cpt_function := f, cpt_partys := map_put (mpt_publicKeys mul) (px_dump px (mpt_params mul)) (cpt_partys c)\<rparr>"
  have "set_content px mul c = Inr ?c" by (simp add: set_content_def f(1))
  moreover have "\<exists>c'. fold_tries (set_content px) muls ?c = Inr c' \<and> missing (cpt_function c') = missing f - supplied muls"
    using Cons.IH [of ?c] Cons.prems f(2) by (auto simp: supplied_def)
  ultimately show ?case using f(3) by (auto simp: supplied_def)
qed (simp add: supplied_def)

lemma map_put_keys: "fst ` set (map_put k v xs) = insert k (fst ` set xs)"
  by (induction xs) auto

lemma map_put_sorted: "sorted_wrt (<) (map fst xs) \<Longrightarrow> sorted_wrt (<) (map fst (map_put k v xs))"
proof (induction xs)
  case (Cons x xs)
  then show ?case using map_put_keys [of k v xs] by auto
qed simp

lemma owner_factor:
  "state_ok p \<Longrightarrow> (if enc then tries (owner_of p) (\<lambda>ow. Inr (ow \<noteq> JString ''all'')) else Inr False) = Inr (state_factor enc p = 3)"
  by (auto simp: state_ok_def state_factor_def)

lemma next_block:
  assumes "block_ok enc states e" and "length (pre @ e @ post) < 2 ^ 64"
  shows "next_entry states (pre @ e @ post) enc (to_uint64 (hd e)) (word_of_nat (length pre)) = Inr (word_of_nat (length pre + length e))"
proof -
  define p where "p = states ! unat (to_uint64 (hd e))"
  have e: "e \<noteq> []" "vec_at states (to_uint64 (hd e)) = Inr p" "state_ok p"
    "type_of p = Inr (JString ''mapping'') \<longrightarrow> 2 \<le> length e" "length e = block_len enc p (unat (to_uint64 (e ! 1)))"
    using assms(1) unfolding block_ok_def p_def Let_def vec_at_def by auto
  have f: "(if state_factor enc p = 3 then 3 else 1 :: u64) = word_of_nat (state_factor enc p)" by (simp add: state_factor_def)
  obtain t where t: "type_of p = Inr t" using e(3) by (auto simp: state_ok_def)
  show ?thesis
  proof (cases "t = JString ''mapping''")
    case True
    then obtain d where d: "depth_of p = Inr d" using e(3) t by (auto simp: state_ok_def)
    have "unat (word_of_nat (length pre) + 1 :: u64) = length pre + 1"
      using assms(2) e(1) by (cases e) (simp_all add: unat_word_ariths unsigned_of_nat take_bit_nat_eq_self)
    then have "vec_at (pre @ e @ post) (word_of_nat (length pre) + 1) = Inr (e ! 1)"
      using e(4) t True by (simp add: vec_at_def nth_append)
    then show ?thesis using e(2,3,5) t True d
      by (simp add: next_entry_def owner_factor is_mapping_def f block_len_def algebra_simps)
  next
    case False
    then show ?thesis using e(2,3,5) t by (simp add: next_entry_def owner_factor is_mapping_def f block_len_def)
  qed
qed

lemma visit_blocks:
  "(\<And>e. e \<in> set es \<Longrightarrow> block_ok enc states e) \<Longrightarrow> length (pre @ concat es) < 2 ^ 64 \<Longrightarrow> length es < n \<Longrightarrow>
    visit_states n states (pre @ concat es) enc f (word_of_nat (length pre)) a =
      Some (fold_tries (\<lambda>(sid, idx). f sid idx) (blocks_from (length pre) es) a)"
proof (induction es arbitrary: pre a n)
  case Nil
  then show ?case by (cases n) (simp_all add: unsigned_of_nat take_bit_nat_eq_self)
next
  case (Cons e es)
  obtain m where n: "n = Suc m" "length es < m" using Cons.prems(3) by (cases n) auto
  have "block_ok enc states e" using Cons.prems(1) by simp
  then have e: "e \<noteq> []" by (simp add: block_ok_def)
  have i: "unat (word_of_nat (length pre) :: u64) = length pre"
    using Cons.prems(2) by (simp add: unsigned_of_nat take_bit_nat_eq_self)
  have hd: "(pre @ concat (e # es)) ! length pre = hd e" using e by (simp add: nth_append hd_conv_nth)
  have nx: "next_entry states (pre @ concat (e # es)) enc (to_uint64 (hd e)) (word_of_nat (length pre)) =
      Inr (word_of_nat (length (pre @ e)))"
    using next_block [of enc states e pre "concat es"] Cons.prems(1,2) by simp
  have "visit_states m states ((pre @ e) @ concat es) enc f (word_of_nat (length (pre @ e))) a' =
      Some (fold_tries (\<lambda>(sid, idx). f sid idx) (blocks_from (length (pre @ e)) es) a')" for a'
    using Cons.prems n(2) by (intro Cons.IH) auto
  then show ?case using e hd nx i unfolding n(1)
    by (simp add: Let_def del: of_nat_add split: sum.splits)
qed

text \<open>A block whose step is zero is visited for ever.\<close>

lemma visit_stuck:
  assumes "unat i < length v" and "next_entry states v enc (to_uint64 (v ! unat i)) i = Inr i"
    and "\<And>a. \<exists>b. f (to_uint64 (v ! unat i)) i a = Inr b"
  shows "visit_states n states v enc f i a = None"
proof (induction n arbitrary: a)
  case (Suc n)
  obtain b where "f (to_uint64 (v ! unat i)) i a = Inr b" using assms(3) by blast
  then show ?case using assms(1,2) Suc.IH by (simp add: Let_def)
qed simp

lemma state_len_block:
  "state_ok p \<Longrightarrow> state_len f enc p = Inr (word_of_nat (block_len enc p (unat (get_keys_size f (par_name p)))))"
  by (auto simp: state_len_def state_ok_def is_mapping_def block_len_def state_factor_def Let_def algebra_simps)








section \<open>Properties\<close>

text \<open>Claim C11.  The parties of a multi-party transaction can finish it: when the inputs of a function have different names, the
  parties send values for declared inputs only and every input without a value is sent by
  some party, then all contributions are accepted, in any order, and the function is complete.\<close>

theorem parties_complete_function:
  assumes "distinct (input_names (cpt_function c))" and "supplied muls \<subseteq> set (input_names (cpt_function c))"
    and "missing (cpt_function c) \<subseteq> supplied muls"
  shows "\<exists>c'. fold_tries (set_content px) muls c = Inr c' \<and> complete (cpt_function c')"
proof -
  obtain c' where "fold_tries (set_content px) muls c = Inr c'" "missing (cpt_function c') = missing (cpt_function c) - supplied muls"
    using set_contents_missing [OF assms(1,2)] by blast
  then show ?thesis using assms(3) by (auto simp: complete_missing)
qed

theorem parties_complete_function_witness:
  "\<exists>c'. fold_tries (set_content example_px) [example_party ''b'', example_party ''a'']
      (example_cpt [example_input ''a'' None, example_input ''b'' None] [] []) = Inr c' \<and> complete (cpt_function c')"
  by (rule parties_complete_function)
    (auto simp: example_cpt_def example_input_def example_party_def input_names_def missing_def supplied_def)

text \<open>What \<open>padding\<close> does with one value: a function that is complete keeps its inputs; otherwise
  the first input of that name takes the value, also when another party had already set it, the
  other inputs keep theirs, and a name that is not declared is an error.\<close>

lemma padding_sets_first_input:
  "(complete f \<longrightarrow> padding nm v f = Inr f) \<and>
   (\<not> complete f \<and> nm \<notin> set (input_names f) \<longrightarrow> (\<exists>m. padding nm v f = Inl (StdException LogicError m))) \<and>
   (\<not> complete f \<and> nm \<in> set (input_names f) \<longrightarrow> (\<exists>f'. padding nm v f = Inr f' \<and> input_names f' = input_names f \<and>
     (\<forall>i < length (fn_inputs f). par_value (fn_inputs f' ! i) =
       (if par_name (fn_inputs f ! i) = nm \<and> nm \<notin> set (take i (input_names f)) then Some v else par_value (fn_inputs f ! i)))))"
proof (intro conjI impI)
  assume a: "\<not> complete f \<and> nm \<in> set (input_names f)"
  then obtain qs where qs: "set_first nm v (fn_inputs f) = Some qs"
    using set_first_None [of nm v "fn_inputs f"] by (auto simp: input_names_def)
  then show "\<exists>f'. padding nm v f = Inr f' \<and> input_names f' = input_names f \<and>
     (\<forall>i < length (fn_inputs f). par_value (fn_inputs f' ! i) =
       (if par_name (fn_inputs f ! i) = nm \<and> nm \<notin> set (take i (input_names f)) then Some v else par_value (fn_inputs f ! i)))"
    using a set_first_Some [OF qs] by (simp add: padding_def input_names_def take_map)
qed (auto simp: padding_def input_names_def set_first_None split: option.splits)

text \<open>Claim C10.  \<open>visit_states\<close> walks through a vector made of one block for each state it holds: it ends after as many rounds as
  there are blocks, and calls the callback once for each block, in order, with the
  state of the block and the index where it starts.\<close>

theorem visit_states_visits_blocks:
  assumes "list_all (block_ok enc states) es" and "length (concat es) < 2 ^ 64" and "length es < n"
  shows "visit_states n states (concat es) enc f 0 a = Some (fold_tries (\<lambda>(sid, idx). f sid idx) (blocks_from 0 es) a)"
  using visit_blocks [of es enc states "[]" n f a] assms by (simp add: list_all_iff)

theorem visit_states_visits_blocks_witness:
  "visit_states 3 [example_mapping, example_secret] (concat [[''0x1'', ''e'', ''t'', ''a''], [''0x0'', ''0x1'', ''k'', ''k'', ''v'']]) True
    (\<lambda>sid idx a. Inr (a @ [(sid, idx)])) 0 [] = Some (Inr [(1, 0), (0, 4)])"
proof -
  have "to_uint64 ''0x1'' = 1" "to_uint64 ''0x0'' = 0" by (simp_all add: hex_eval)
  then show ?thesis
    using visit_states_visits_blocks [of True "[example_mapping, example_secret]"
        "[[''0x1'', ''e'', ''t'', ''a''], [''0x0'', ''0x1'', ''k'', ''k'', ''v'']]" 3 "\<lambda>sid idx a. Inr (a @ [(sid, idx)])" "[]"]
    by (simp add: block_ok_def state_ok_def block_len_def state_factor_def owner_of_def type_of_def depth_of_def example_mapping_def
        example_secret_def Let_def)
qed

text \<open>Claim C38.  The loop over the states may not end: the number of entries of a mapping is read from the vector, and
  the distance to the next block is computed in 64 bits.  When it is a multiple of
  \<open>2 ^ 64\<close>, \<open>request_public_keys\<close> visits the same block for ever.\<close>

theorem request_public_keys_may_hang:
  assumes "cpt_old_states c = s # count # rest" and "vec_at (cpt_states c) (to_uint64 s) = Inr p" and "state_ok p"
    and "type_of p = Inr (JString ''mapping'')" and "depth_of p = Inr d"
    and "2 + to_uint64 count * (word_of_nat (state_factor True p) + d) = 0"
  shows "request_public_keys px n target_digest tee_kp acc_address service_addr c = None"
proof -
  have f: "(if state_factor True p = 3 then 3 else 1 :: u64) = word_of_nat (state_factor True p)" by (simp add: state_factor_def)
  have "next_entry (cpt_states c) (cpt_old_states c) True (to_uint64 s) 0 = Inr 0"
    using assms owner_factor [OF assms(3), of True] by (simp add: next_entry_def is_mapping_def f vec_at_def [of "_ # _"])
  moreover have "note_address (cpt_states c) (cpt_old_states c) (to_uint64 s) 0 a = Inr a" for a
    using assms(2,4) by (simp add: note_address_def)
  ultimately have "visit_states n (cpt_states c) (cpt_old_states c) True (note_address (cpt_states c) (cpt_old_states c)) 0 Map.empty = None"
    using assms(1) by (intro visit_stuck) simp_all
  then show ?thesis by (simp add: request_public_keys_def)
qed

theorem request_public_keys_may_hang_witness:
  "\<forall>n. request_public_keys example_px n [] (Inr []) 1 2 (example_cpt [] [example_mapping] [''0x0'', ''0xaaaaaaaaaaaaaaaa'']) = None"
proof -
  have "to_uint64 ''0xaaaaaaaaaaaaaaaa'' = 0xaaaaaaaaaaaaaaaa" "to_uint64 ''0x0'' = 0" by (simp_all add: hex_eval)
  then show ?thesis
    using request_public_keys_may_hang [of "example_cpt [] [example_mapping] [''0x0'', ''0xaaaaaaaaaaaaaaaa'']" "''0x0''" "''0xaaaaaaaaaaaaaaaa''" "[]"
        example_mapping 2 example_px _ "[]" "Inr []" 1 2]
    by (simp add: example_cpt_def vec_at_def state_ok_def state_factor_def owner_of_def type_of_def depth_of_def example_mapping_def)
qed

text \<open>Claim C30.  The length that the enclave announces to the contract is the length of the vector it then walks through: when
  the vector has one block for each state, with as many entries of a mapping as the function has
  keys for it, \<open>get_states_return_len\<close> is its length.\<close>

theorem announced_length:
  assumes "list_all2 (\<lambda>p e. state_ok p \<and> length e = block_len enc p (unat (get_keys_size (cpt_function c) (par_name p)))) (cpt_states c) es"
  shows "get_states_return_len c enc = Inr (word_of_nat (length (concat es)))"
proof -
  have "fold_tries (\<lambda>state res. tries (state_len (cpt_function c) enc state) (\<lambda>n. Inr (res + n))) ps r =
      Inr (r + word_of_nat (length (concat es)))"
    if "list_all2 (\<lambda>p e. state_ok p \<and> length e = block_len enc p (unat (get_keys_size (cpt_function c) (par_name p)))) ps es" for ps es r
    using that by (induction ps es arbitrary: r rule: list_all2_induct) (simp_all add: state_len_block)
  from this [OF assms, of 0] show ?thesis by (simp add: get_states_return_len_def)
qed


theorem announced_length_witness:
  "get_states_return_len (example_cpt [] [example_mapping, example_secret] []) True = Inr 12"
  using announced_length [of True "example_cpt [] [example_mapping, example_secret] []" "[replicate 8 [], replicate 4 []]"]
  by (simp add: example_cpt_def state_ok_def block_len_def state_factor_def owner_of_def type_of_def depth_of_def example_mapping_def
      example_secret_def get_keys_size_def state_params_def)



end
