(* ===== verification/Bridge.thy ===== *)
theory Bridge
  imports Util
begin

text \<open>
  The contracts of the bridge between two chains, \<open>service/contracts/tenet_l1.sol\<close> and
  \<open>service/contracts/tenet_l2.sol\<close>: the first chain locks tokens, the second mints and burns their
  substitutes.

  A call of a contract either returns with a new state or reverts, and then changes nothing; a
  failed \<open>require\<close> and an overflow of the checked arithmetic are reverts.  The modifier
  \<open>onlyOwner\<close> comes from a library that is not part of the sources: the
  argument \<open>onlyOwner\<close> says whom it lets pass.  The call of a token contract from the
  first chain is the argument \<open>call\<close>; it may change everything, also by calling back.
\<close>

section \<open>Reverts and checked arithmetic\<close>

definition revert :: "string \<Rightarrow> exn" where
  "revert msg = Exception Revert msg"

definition require :: "bool \<Rightarrow> string \<Rightarrow> exn + unit" where
  "require b msg = (if b then Inr () else Inl (revert msg))"

definition checked_add :: "u256 \<Rightarrow> u256 \<Rightarrow> exn + u256" where
  "checked_add a b = (if unat a + unat b < 2 ^ 256 then Inr (a + b) else Inl (revert ''Panic(0x11)''))"

definition checked_sub :: "u256 \<Rightarrow> u256 \<Rightarrow> exn + u256" where
  "checked_sub a b = (if b \<le> a then Inr (a - b) else Inl (revert ''Panic(0x11)''))"

definition selector :: "string \<Rightarrow> bytes" where
  "selector signature = take 4 (Keccak256 (bytes_of_string signature))"

definition encodeWithSelector :: "bytes \<Rightarrow> u256 list \<Rightarrow> bytes" where
  "encodeWithSelector sel args = sel @ concat (map to_big_endian args)"

definition decode_bool :: "bytes \<Rightarrow> exn + bool" where
  "decode_bool data =
    (if length data < 32 \<or> be_load (take 32 data) > 1 then Inl (revert '''') else Inr (be_load (take 32 data) = 1))"

definition decode_uint256 :: "bytes \<Rightarrow> exn + u256" where
  "decode_uint256 data = (if length data < 32 then Inl (revert '''') else Inr (be_load (take 32 data)))"

section \<open>The substitute tokens\<close>

record Token =
  tk_balances :: "u256 \<Rightarrow> u256"
  tk_totalSupply :: u256
  tk_allowed :: "u256 \<Rightarrow> u256 \<Rightarrow> u256"
  tk_name :: string
  tk_decimals :: byte
  tk_symbol :: string

definition MAX_UINT256 :: u256 where
  "MAX_UINT256 = - 1"

definition new_Token :: "byte \<Rightarrow> string \<Rightarrow> string \<Rightarrow> Token" where
  "new_Token decimalUints tokenName totalSymbol =
    \<lparr>tk_balances = (\<lambda>_. 0), tk_totalSupply = 0, tk_allowed = (\<lambda>_ _. 0), tk_name = tokenName, tk_decimals = decimalUints,
     tk_symbol = totalSymbol\<rparr>"

definition balance_add :: "u256 \<Rightarrow> u256 \<Rightarrow> Token \<Rightarrow> exn + Token" where
  "balance_add a v t = tries (checked_add (tk_balances t a) v) (\<lambda>b. Inr (t\<lparr>tk_balances := (tk_balances t)(a := b)\<rparr>))"

definition balance_sub :: "u256 \<Rightarrow> u256 \<Rightarrow> Token \<Rightarrow> exn + Token" where
  "balance_sub a v t = tries (checked_sub (tk_balances t a) v) (\<lambda>b. Inr (t\<lparr>tk_balances := (tk_balances t)(a := b)\<rparr>))"

definition tk_transfer :: "u256 \<Rightarrow> u256 \<Rightarrow> u256 \<Rightarrow> Token \<Rightarrow> exn + Token" where
  "tk_transfer sender to v t =
    tries (require (tk_balances t sender \<ge> v) ''token balance is lower than the value requested'') (\<lambda>_.
    tries (balance_sub sender v t) (balance_add to v))"

definition tk_transferFrom :: "u256 \<Rightarrow> u256 \<Rightarrow> u256 \<Rightarrow> u256 \<Rightarrow> Token \<Rightarrow> exn + Token" where
  "tk_transferFrom sender from to v t =
    (let allowance = tk_allowed t from sender
     in tries (require (tk_balances t from \<ge> v \<and> allowance \<ge> v) ''token balance or allowance is lower than amount requested'') (\<lambda>_.
        tries (balance_add to v t) (\<lambda>t.
        tries (balance_sub from v t) (\<lambda>t.
        if allowance < MAX_UINT256 then
          tries (checked_sub (tk_allowed t from sender) v) (\<lambda>r.
          Inr (t\<lparr>tk_allowed := (tk_allowed t)(from := (tk_allowed t from)(sender := r))\<rparr>))
        else Inr t))))"

definition tk_approve :: "u256 \<Rightarrow> u256 \<Rightarrow> u256 \<Rightarrow> Token \<Rightarrow> exn + Token" where
  "tk_approve sender spender v t =
    Inr (t\<lparr>tk_allowed := (tk_allowed t)(sender := (tk_allowed t sender)(spender := v))\<rparr>)"

definition tk_burn :: "(u256 \<Rightarrow> bool) \<Rightarrow> u256 \<Rightarrow> u256 \<Rightarrow> u256 \<Rightarrow> Token \<Rightarrow> exn + Token" where
  "tk_burn onlyOwner sender to amount t =
    tries (require (onlyOwner sender) ''Ownable: caller is not the owner'') (\<lambda>_.
    tries (require (tk_balances t to \<ge> amount) ''token balance is lower than the value requested'') (\<lambda>_.
    tries (balance_sub to amount t) (\<lambda>t.
    tries (checked_sub (tk_totalSupply t) amount) (\<lambda>s. Inr (t\<lparr>tk_totalSupply := s\<rparr>)))))"

definition tk_mint :: "(u256 \<Rightarrow> bool) \<Rightarrow> u256 \<Rightarrow> u256 \<Rightarrow> u256 \<Rightarrow> Token \<Rightarrow> exn + Token" where
  "tk_mint onlyOwner sender to amount t =
    tries (require (onlyOwner sender) ''Ownable: caller is not the owner'') (\<lambda>_.
    tries (balance_add to amount t) (\<lambda>t.
    tries (checked_add (tk_totalSupply t) amount) (\<lambda>s. Inr (t\<lparr>tk_totalSupply := s\<rparr>))))"

section \<open>The second chain\<close>

datatype l2_event = Escrow u256 u256 | Mint u256 u256 u256 | Dispatch bytes

text \<open>The token contracts are the map \<open>l2_contracts\<close>; \<open>l2_this\<close> is the address of the bridge contract itself.\<close>

record Tenet_L2 =
  l2_this :: u256
  l2_allToken :: "u256 list"
  l2_tokens :: "u256 \<Rightarrow> u256"
  l2_contracts :: "u256 \<rightharpoonup> Token"
  l2_events :: "l2_event list"

text \<open>A call of the token contract at an address; the bridge is the owner of the contracts it made.\<close>

definition on_token :: "u256 \<Rightarrow> (Token \<Rightarrow> exn + Token) \<Rightarrow> Tenet_L2 \<Rightarrow> exn + Tenet_L2" where
  "on_token a f s = (case l2_contracts s a of
      None \<Rightarrow> Inl (revert '''')
    | Some t \<Rightarrow> tries (f t) (\<lambda>t. Inr (s\<lparr>l2_contracts := (l2_contracts s)(a \<mapsto> t)\<rparr>)))"

definition emit :: "l2_event \<Rightarrow> Tenet_L2 \<Rightarrow> Tenet_L2" where
  "emit e s = s\<lparr>l2_events := l2_events s @ [e]\<rparr>"

text \<open>\<open>escrow\<close>; \<open>new\<close> is the address of the new contract.\<close>

definition l2_escrow ::
  "(u256 \<Rightarrow> bool) \<Rightarrow> u256 \<Rightarrow> u256 \<Rightarrow> u256 \<Rightarrow> byte \<Rightarrow> string \<Rightarrow> string \<Rightarrow> Tenet_L2 \<Rightarrow> exn + Tenet_L2" where
  "l2_escrow onlyOwner new sender token decimals name symbol s =
    tries (require (onlyOwner sender) ''Ownable: caller is not the owner'') (\<lambda>_.
    tries (require (l2_tokens s token = 0) ''token has alread escrow'') (\<lambda>_.
    Inr (emit (Escrow token new)
      (s\<lparr>l2_contracts := (l2_contracts s)(new \<mapsto> new_Token decimals name symbol),
         l2_tokens := (l2_tokens s)(token := new), l2_allToken := l2_allToken s @ [token]\<rparr>))))"

definition onlyRegister :: "u256 \<Rightarrow> Tenet_L2 \<Rightarrow> exn + unit" where
  "onlyRegister token s = require (l2_tokens s token \<noteq> 0) ''token has not escrow''"

definition l2_getToken :: "u256 \<Rightarrow> Tenet_L2 \<Rightarrow> exn + u256 \<times> string \<times> byte \<times> string" where
  "l2_getToken token s = (case l2_contracts s (l2_tokens s token) of
      None \<Rightarrow> Inl (revert '''')
    | Some t \<Rightarrow> Inr (l2_tokens s token, tk_name t, tk_decimals t, tk_symbol t))"

definition l2_mint :: "u256 \<Rightarrow> u256 \<Rightarrow> u256 \<Rightarrow> u256 \<Rightarrow> Tenet_L2 \<Rightarrow> exn + Tenet_L2" where
  "l2_mint sender token to amount s =
    tries (onlyRegister token s) (\<lambda>_.
    tries (on_token (l2_tokens s token) (tk_mint (\<lambda>a. a = l2_this s) (l2_this s) to amount) s) (\<lambda>s.
    Inr (emit (Mint token to amount) s)))"

definition l2_withdraw :: "u256 \<Rightarrow> u256 \<Rightarrow> u256 \<Rightarrow> Tenet_L2 \<Rightarrow> exn + Tenet_L2" where
  "l2_withdraw sender token amount s =
    tries (onlyRegister token s) (\<lambda>_.
    tries (on_token (l2_tokens s token) (tk_burn (\<lambda>a. a = l2_this s) (l2_this s) sender amount) s) (\<lambda>s.
    Inr (emit (Dispatch (encodeWithSelector (selector ''withdraw(address,address,uint256)'') [token, sender, amount])) s)))"

definition getTokenSupply :: "u256 \<Rightarrow> Tenet_L2 \<Rightarrow> exn + u256" where
  "getTokenSupply token s =
    tries (onlyRegister token s) (\<lambda>_.
    case l2_contracts s (l2_tokens s token) of None \<Rightarrow> Inl (revert '''') | Some t \<Rightarrow> Inr (tk_totalSupply t))"

section \<open>The first chain\<close>

record App =
  app_isResgister :: bool
  app_id :: string
  app_admin :: u256

record Node =
  node_isResgister :: bool
  node_id :: u256
  node_ip :: string
  node_mrenclave :: bytes
  node_version :: u256
  node_publicKey :: bytes
  node_report :: bytes
  node_appId :: string

datatype l1_event = L1_Dispatch bytes | L1_Withdraw u256 u256 u256

text \<open>\<open>l1_world\<close> is the rest of the first chain.\<close>

record 'w Tenet =
  l1_this :: u256
  l1_apps :: "string \<Rightarrow> App"
  l1_admin2AppId :: "u256 \<Rightarrow> string"
  l1_nodes :: "u256 \<Rightarrow> Node"
  l1_tokenRegistered :: "u256 \<Rightarrow> bool"
  l1_events :: "l1_event list"
  l1_world :: 'w

type_synonym 'w call = "u256 \<Rightarrow> bytes \<Rightarrow> 'w Tenet \<Rightarrow> (bool \<times> bytes) \<times> 'w Tenet"
type_synonym 'w staticcall = "u256 \<Rightarrow> bytes \<Rightarrow> 'w Tenet \<Rightarrow> bool \<times> bytes"

definition require_call :: "bool \<times> bytes \<Rightarrow> string \<Rightarrow> exn + unit" where
  "require_call r msg = (case r of (success, data) \<Rightarrow>
    tries (if \<not> success then Inr False else if length data = 0 then Inr True else decode_bool data) (\<lambda>ok. require ok msg))"

definition l1_deposit :: "'w call \<Rightarrow> u256 \<Rightarrow> u256 \<Rightarrow> u256 \<Rightarrow> 'w Tenet \<Rightarrow> exn + 'w Tenet" where
  "l1_deposit call sender token amount s =
    tries (require (l1_tokenRegistered s token) ''Token not registered'') (\<lambda>_.
    case call token (encodeWithSelector (selector ''transferFrom(address,address,uint256)'') [sender, l1_this s, amount]) s of
      (r, s) \<Rightarrow>
        tries (require_call r ''Deposit failed'') (\<lambda>_.
        Inr (s\<lparr>l1_events := l1_events s @
          [L1_Dispatch (encodeWithSelector (selector ''mint(address,address,uint256)'') [token, sender, amount])]\<rparr>)))"

definition l1_balance :: "'w staticcall \<Rightarrow> u256 \<Rightarrow> 'w Tenet \<Rightarrow> exn + u256" where
  "l1_balance staticcall tokenAddr s =
    (case staticcall tokenAddr (encodeWithSelector (selector ''balanceOf(address)'') [l1_this s]) s of
      (success, data) \<Rightarrow> tries (require (success \<and> length data \<ge> 32) '''') (\<lambda>_. decode_uint256 data))"

definition l1_withdraw :: "'w call \<Rightarrow> 'w staticcall \<Rightarrow> u256 \<Rightarrow> u256 \<Rightarrow> u256 \<Rightarrow> u256 \<Rightarrow> 'w Tenet \<Rightarrow> exn + 'w Tenet" where
  "l1_withdraw call staticcall sender token user amount s =
    tries (require (l1_tokenRegistered s token) ''Token not registered'') (\<lambda>_.
    tries (l1_balance staticcall token s) (\<lambda>b.
    tries (require (b \<ge> amount) ''Token balance lower than the value requested'') (\<lambda>_.
    case call token (encodeWithSelector (selector ''transfer(address,uint256)'') [user, amount]) s of
      (r, s) \<Rightarrow>
        tries (require_call r ''Withdral failed'') (\<lambda>_.
        Inr (s\<lparr>l1_events := l1_events s @ [L1_Withdraw token user amount]\<rparr>)))))"

definition registerToken :: "(u256 \<Rightarrow> bool) \<Rightarrow> u256 \<Rightarrow> u256 \<Rightarrow> 'w Tenet \<Rightarrow> exn + 'w Tenet" where
  "registerToken onlyOwner sender tokenAddr s =
    tries (require (onlyOwner sender) ''Ownable: caller is not the owner'') (\<lambda>_.
    tries (require (\<not> l1_tokenRegistered s tokenAddr) ''Token address already registered'') (\<lambda>_.
    Inr (s\<lparr>l1_tokenRegistered := (l1_tokenRegistered s)(tokenAddr := True)\<rparr>)))"

definition registerApp :: "u256 \<Rightarrow> string \<Rightarrow> 'w Tenet \<Rightarrow> exn + 'w Tenet" where
  "registerApp sender appId s =
    tries (require (\<not> app_isResgister (l1_apps s appId)) ''App id already registered'') (\<lambda>_.
    Inr (s\<lparr>l1_apps := (l1_apps s)(appId := \<lparr>app_isResgister = True, app_id = appId, app_admin = sender\<rparr>),
      l1_admin2AppId := (l1_admin2AppId s)(sender := appId)\<rparr>))"

definition onlyAppAdmin :: "u256 \<Rightarrow> 'w Tenet \<Rightarrow> exn + unit" where
  "onlyAppAdmin sender s =
    tries (require (length (l1_admin2AppId s sender) > 0) ''App not registered or permission denied'') (\<lambda>_.
    require (app_admin (l1_apps s (l1_admin2AppId s sender)) = sender) ''Permision denied'')"

definition l1_registerNode ::
  "u256 \<Rightarrow> u256 \<Rightarrow> string \<Rightarrow> bytes \<Rightarrow> u256 \<Rightarrow> bytes \<Rightarrow> bytes \<Rightarrow> 'w Tenet \<Rightarrow> exn + 'w Tenet" where
  "l1_registerNode sender node ip mrenclave version publicKey report s =
    tries (onlyAppAdmin sender s) (\<lambda>_.
    tries (require (\<not> node_isResgister (l1_nodes s node)) ''Node already registered'') (\<lambda>_.
    Inr (s\<lparr>l1_nodes := (l1_nodes s)(node := (l1_nodes s node)\<lparr>node_id := node, node_ip := ip, node_mrenclave := mrenclave,
      node_version := version, node_publicKey := publicKey, node_report := report, node_appId := l1_admin2AppId s sender\<rparr>)\<rparr>)))"

section \<open>Histories\<close>

text \<open>
  What may happen on the second chain: the owner of the bridge adds a token, whose contract gets
  an address without a contract, anybody mints or withdraws through the bridge, and anybody
  uses the token contracts.  The last case covers the three operations of a token for its users.
\<close>

datatype l2_label = Added u256 | Minted u256 u256 | Withdrawn u256 u256 | Used

definition user_call :: "(Token \<Rightarrow> exn + Token) \<Rightarrow> bool" where
  "user_call f \<longleftrightarrow> (\<exists>sender to v. f = tk_transfer sender to v) \<or> (\<exists>sender from to v. f = tk_transferFrom sender from to v) \<or>
    (\<exists>sender spender v. f = tk_approve sender spender v)"

inductive l2_run :: "(u256 \<Rightarrow> bool) \<Rightarrow> Tenet_L2 \<Rightarrow> l2_label list \<Rightarrow> Tenet_L2 \<Rightarrow> bool" for onlyOwner where
  run_start: "l2_tokens s = (\<lambda>_. 0) \<Longrightarrow> l2_contracts s = Map.empty \<Longrightarrow> l2_run onlyOwner s [] s"
| run_escrow: "l2_run onlyOwner s0 h s \<Longrightarrow> l2_contracts s new = None \<Longrightarrow> new \<noteq> 0 \<Longrightarrow>
    l2_escrow onlyOwner new sender token decimals name symbol s = Inr s' \<Longrightarrow> l2_run onlyOwner s0 (h @ [Added token]) s'"
| run_mint: "l2_run onlyOwner s0 h s \<Longrightarrow> l2_mint sender token to amount s = Inr s' \<Longrightarrow>
    l2_run onlyOwner s0 (h @ [Minted token amount]) s'"
| run_withdraw: "l2_run onlyOwner s0 h s \<Longrightarrow> l2_withdraw sender token amount s = Inr s' \<Longrightarrow>
    l2_run onlyOwner s0 (h @ [Withdrawn token amount]) s'"
| run_use: "l2_run onlyOwner s0 h s \<Longrightarrow> user_call f \<Longrightarrow> on_token a f s = Inr s' \<Longrightarrow> l2_run onlyOwner s0 (h @ [Used]) s'"

fun minted :: "u256 \<Rightarrow> l2_label \<Rightarrow> nat" where
  "minted token (Minted k amount) = (if k = token then unat amount else 0)"
| "minted token _ = 0"

fun withdrawn :: "u256 \<Rightarrow> l2_label \<Rightarrow> nat" where
  "withdrawn token (Withdrawn k amount) = (if k = token then unat amount else 0)"
| "withdrawn token _ = 0"

definition total :: "Token \<Rightarrow> nat" where
  "total t = (\<Sum>a \<in> UNIV. unat (tk_balances t a))"

definition supply_ok :: "Token \<Rightarrow> bool" where
  "supply_ok t \<longleftrightarrow> total t = unat (tk_totalSupply t)"

text \<open>The invariant: each token has its own contract, and its supply is what was minted and not withdrawn.\<close>

definition l2_inv :: "l2_label list \<Rightarrow> Tenet_L2 \<Rightarrow> bool" where
  "l2_inv h s \<longleftrightarrow>
    (\<forall>a t. l2_contracts s a = Some t \<longrightarrow> supply_ok t) \<and>
    (\<forall>k. l2_tokens s k \<noteq> 0 \<longrightarrow> (\<exists>t. l2_contracts s (l2_tokens s k) = Some t \<and>
      unat (tk_totalSupply t) + sum_list (map (withdrawn k) h) = sum_list (map (minted k) h))) \<and>
    (\<forall>k. l2_tokens s k = 0 \<longrightarrow> sum_list (map (withdrawn k) h) = sum_list (map (minted k) h)) \<and>
    (\<forall>k j. l2_tokens s k \<noteq> 0 \<longrightarrow> l2_tokens s k = l2_tokens s j \<longrightarrow> k = j)"

definition example_l2 :: Tenet_L2 where
  "example_l2 = \<lparr>l2_this = 1, l2_allToken = [5], l2_tokens = (\<lambda>_. 0)(5 := 9), l2_contracts = [9 \<mapsto> new_Token 18 ''T'' ''T''],
    l2_events = [Escrow 5 9]\<rparr>"

section \<open>Lemmas\<close>

lemmas checked_defs = require_def checked_add_def checked_sub_def

lemma require_Inr [simp]: "require b msg = Inr u \<longleftrightarrow> b"
  by (simp add: require_def)

lemma sum_upd: "(\<Sum>x \<in> UNIV. unat ((f(a := b)) x)) + unat (f a) = (\<Sum>x \<in> UNIV. unat (f x)) + unat (b :: u256)" for f :: "u256 \<Rightarrow> u256"
proof -
  have "(\<Sum>x \<in> UNIV - {a}. unat ((f(a := b)) x)) = (\<Sum>x \<in> UNIV - {a}. unat (f x))" by (rule sum.cong) auto
  then show ?thesis using sum.remove [of UNIV a "\<lambda>x. unat ((f(a := b)) x)"] sum.remove [of UNIV a "\<lambda>x. unat (f x)"] by simp
qed

lemma checked_unat:
  "checked_add a b = Inr c \<Longrightarrow> unat c = unat a + unat b" "checked_sub a b = Inr c \<Longrightarrow> unat c + unat b = unat a"
  by (auto simp: checked_defs unat_word_ariths unat_sub word_le_nat_alt split: if_splits)

lemma balance_add_total:
  "balance_add a v t = Inr t' \<Longrightarrow> total t' = total t + unat v \<and> tk_totalSupply t' = tk_totalSupply t \<and> tk_allowed t' = tk_allowed t"
  using sum_upd [of "tk_balances t" a "tk_balances t a + v"]
  by (auto simp: balance_add_def checked_add_def total_def unat_word_ariths split: if_splits)

lemma balance_sub_total:
  "balance_sub a v t = Inr t' \<Longrightarrow> total t' + unat v = total t \<and> tk_totalSupply t' = tk_totalSupply t \<and> tk_allowed t' = tk_allowed t"
  using sum_upd [of "tk_balances t" a "tk_balances t a - v"]
  by (auto simp: balance_sub_def checked_sub_def total_def unat_sub word_le_nat_alt split: if_splits)

lemma user_call_total:
  assumes "user_call f" and "f t = Inr t'"
  shows "total t' = total t \<and> tk_totalSupply t' = tk_totalSupply t"
proof -
  consider sender to v where "f = tk_transfer sender to v" | sender fr to v where "f = tk_transferFrom sender fr to v"
    | sender spender v where "f = tk_approve sender spender v"
    using assms(1) by (auto simp: user_call_def)
  then show ?thesis
  proof cases
    case 1
    then obtain u where "balance_sub sender v t = Inr u" "balance_add to v u = Inr t'"
      using assms(2) by (auto simp: tk_transfer_def tries_Inr)
    then show ?thesis using balance_sub_total balance_add_total by fastforce
  next
    case 2
    then obtain u w where u: "balance_add to v t = Inr u" "balance_sub fr v u = Inr w" "tk_balances t' = tk_balances w"
      "tk_totalSupply t' = tk_totalSupply w"
      using assms(2) by (auto simp: tk_transferFrom_def Let_def tries_Inr split: if_splits)
    then have "total t' = total w" by (simp add: total_def)
    then show ?thesis using u balance_sub_total [OF u(2)] balance_add_total [OF u(1)] by simp
  next
    case 3
    then show ?thesis using assms(2) by (auto simp: tk_approve_def total_def)
  qed
qed

lemma mint_total:
  assumes "tk_mint ow sender to amount t = Inr t'"
  shows "total t' = total t + unat amount \<and> unat (tk_totalSupply t') = unat (tk_totalSupply t) + unat amount"
proof -
  obtain u where u: "balance_add to amount t = Inr u" "checked_add (tk_totalSupply u) amount = Inr (tk_totalSupply t')"
    "tk_balances t' = tk_balances u"
    using assms by (auto simp: tk_mint_def tries_Inr)
  then have "total t' = total u" by (simp add: total_def)
  then show ?thesis using u balance_add_total [OF u(1)] checked_unat(1) [OF u(2)] by simp
qed

lemma burn_total:
  assumes "tk_burn ow sender to amount t = Inr t'"
  shows "total t' + unat amount = total t \<and> unat (tk_totalSupply t') + unat amount = unat (tk_totalSupply t)"
proof -
  obtain u where u: "balance_sub to amount t = Inr u" "checked_sub (tk_totalSupply u) amount = Inr (tk_totalSupply t')"
    "tk_balances t' = tk_balances u"
    using assms by (auto simp: tk_burn_def tries_Inr)
  then have "total t' = total u" by (simp add: total_def)
  then show ?thesis using u balance_sub_total [OF u(1)] checked_unat(2) [OF u(2)] by simp
qed

lemma on_token_Inr:
  "on_token a f s = Inr s' \<longleftrightarrow> (\<exists>t t'. l2_contracts s a = Some t \<and> f t = Inr t' \<and> s' = s\<lparr>l2_contracts := (l2_contracts s)(a \<mapsto> t')\<rparr>)"
  by (auto simp: on_token_def tries_Inr split: option.splits)

lemma emit_simps [simp]:
  "l2_tokens (emit e s) = l2_tokens s" "l2_contracts (emit e s) = l2_contracts s" "l2_this (emit e s) = l2_this s"
  "l2_events (emit e s) = l2_events s @ [e]"
  by (simp_all add: emit_def)

lemma new_Token_ok: "supply_ok (new_Token d n y)" "tk_totalSupply (new_Token d n y) = 0"
  by (simp_all add: supply_ok_def total_def new_Token_def)

lemma l2_invD:
  assumes "l2_inv h s"
  shows "l2_contracts s a = Some t \<Longrightarrow> supply_ok t"
    and "l2_tokens s k \<noteq> 0 \<Longrightarrow> \<exists>t. l2_contracts s (l2_tokens s k) = Some t \<and>
      unat (tk_totalSupply t) + sum_list (map (withdrawn k) h) = sum_list (map (minted k) h)"
    and "l2_tokens s k = l2_tokens s j \<Longrightarrow> l2_tokens s j \<noteq> 0 \<Longrightarrow> k = j"
  using assms unfolding l2_inv_def by simp_all

text \<open>A change of one contract whose supply moves with the history keeps the invariant.\<close>

lemma l2_inv_token:
  assumes inv: "l2_inv h s" and t: "l2_contracts s a = Some t" and t': "supply_ok t'" and tok: "l2_tokens s' = l2_tokens s"
    and con: "l2_contracts s' = (l2_contracts s)(a \<mapsto> t')"
    and same: "\<And>k. l2_tokens s k = a \<Longrightarrow> l2_tokens s k \<noteq> 0 \<Longrightarrow>
      unat (tk_totalSupply t') + withdrawn k l = unat (tk_totalSupply t) + minted k l"
    and other: "\<And>k. l2_tokens s k \<noteq> a \<or> l2_tokens s k = 0 \<Longrightarrow> withdrawn k l = minted k l"
  shows "l2_inv (h @ [l]) s'"
proof -
  have "\<exists>u. l2_contracts s' (l2_tokens s k) = Some u \<and>
      unat (tk_totalSupply u) + sum_list (map (withdrawn k) (h @ [l])) = sum_list (map (minted k) (h @ [l]))" if k: "l2_tokens s k \<noteq> 0" for k
  proof -
    obtain u where u: "l2_contracts s (l2_tokens s k) = Some u"
      "unat (tk_totalSupply u) + sum_list (map (withdrawn k) h) = sum_list (map (minted k) h)"
      using l2_invD(2) [OF inv k] by blast
    show ?thesis
    proof (cases "l2_tokens s k = a")
      case True
      then show ?thesis using u t same [OF True k] con by simp
    next
      case False
      then show ?thesis using u other [of k] con by simp
    qed
  qed
  then show ?thesis using inv t' con tok other unfolding l2_inv_def by simp
qed

lemma l2_inv_escrow:
  assumes inv: "l2_inv h s" and new: "l2_contracts s new = None" "new \<noteq> 0"
    and run: "l2_escrow onlyOwner new sender token decimals name symbol s = Inr s'"
  shows "l2_inv (h @ [Added token]) s'"
proof -
  have s': "l2_tokens s token = 0" "l2_tokens s' = (l2_tokens s)(token := new)"
    "l2_contracts s' = (l2_contracts s)(new \<mapsto> new_Token decimals name symbol)"
    using run by (auto simp: l2_escrow_def tries_Inr)
  have ne: "l2_tokens s k \<noteq> new" for k using l2_invD(2) [OF inv, of k] new by auto
  show ?thesis unfolding l2_inv_def
  proof (intro conjI allI impI)
    show "supply_ok t" if "l2_contracts s' a = Some t" for a t
      using l2_invD(1) [OF inv, of a t] new_Token_ok(1) that by (auto simp: s'(3) split: if_splits)
    show "\<exists>t. l2_contracts s' (l2_tokens s' k) = Some t \<and> unat (tk_totalSupply t) + sum_list (map (withdrawn k) (h @ [Added token])) =
        sum_list (map (minted k) (h @ [Added token]))" if "l2_tokens s' k \<noteq> 0" for k
      using inv that l2_invD(2) [OF inv, of k] ne [of k] s'(1) new_Token_ok(2) unfolding s'(2,3) l2_inv_def by auto
    show "sum_list (map (withdrawn k) (h @ [Added token])) = sum_list (map (minted k) (h @ [Added token]))" if "l2_tokens s' k = 0" for k
      using inv that new(2) unfolding s'(2) l2_inv_def by (auto split: if_splits)
    show "k = j" if "l2_tokens s' k \<noteq> 0" "l2_tokens s' k = l2_tokens s' j" for k j
      using that ne [of k] ne [of j] l2_invD(3) [OF inv, of k j] unfolding s'(2) by (auto split: if_splits)
  qed
qed

text \<open>Every history keeps the invariant.\<close>

lemma l2_run_inv: "l2_run onlyOwner s0 h s \<Longrightarrow> l2_inv h s"
proof (induction rule: l2_run.induct)
  case (run_start s)
  then show ?case by (simp add: l2_inv_def)
next
  case (run_escrow s0 h s new sender token decimals name symbol s')
  then show ?case using l2_inv_escrow by blast
next
  case (run_mint s0 h s sender token to amount s')
  then obtain t t' where t: "l2_tokens s token \<noteq> 0" "l2_contracts s (l2_tokens s token) = Some t"
    "tk_mint (\<lambda>a. a = l2_this s) (l2_this s) to amount t = Inr t'"
    "l2_tokens s' = l2_tokens s" "l2_contracts s' = (l2_contracts s)(l2_tokens s token \<mapsto> t')"
    by (auto simp: l2_mint_def onlyRegister_def tries_Inr on_token_Inr)
  have inj: "k = token" if "l2_tokens s k = l2_tokens s token" for k using l2_invD(3) [OF run_mint.IH that t(1)] .
  have "supply_ok t" using l2_invD(1) [OF run_mint.IH t(2)] .
  then have "supply_ok t'" using mint_total [OF t(3)] by (simp add: supply_ok_def)
  then show ?case using mint_total [OF t(3)] inj t(1)
    by (intro l2_inv_token [OF run_mint.IH t(2) _ t(4,5)]) auto
next
  case (run_withdraw s0 h s sender token amount s')
  then obtain t t' where t: "l2_tokens s token \<noteq> 0" "l2_contracts s (l2_tokens s token) = Some t"
    "tk_burn (\<lambda>a. a = l2_this s) (l2_this s) sender amount t = Inr t'"
    "l2_tokens s' = l2_tokens s" "l2_contracts s' = (l2_contracts s)(l2_tokens s token \<mapsto> t')"
    by (auto simp: l2_withdraw_def onlyRegister_def tries_Inr on_token_Inr)
  have inj: "k = token" if "l2_tokens s k = l2_tokens s token" for k using l2_invD(3) [OF run_withdraw.IH that t(1)] .
  have "supply_ok t" using l2_invD(1) [OF run_withdraw.IH t(2)] .
  then have "supply_ok t'" using burn_total [OF t(3)] by (simp add: supply_ok_def)
  then show ?case using burn_total [OF t(3)] inj t(1)
    by (intro l2_inv_token [OF run_withdraw.IH t(2) _ t(4,5)]) auto
next
  case (run_use s0 h s f a s')
  then obtain t t' where t: "l2_contracts s a = Some t" "f t = Inr t'" "l2_tokens s' = l2_tokens s"
    "l2_contracts s' = (l2_contracts s)(a \<mapsto> t')"
    by (auto simp: on_token_Inr)
  have "supply_ok t" using l2_invD(1) [OF run_use.IH t(1)] .
  then have "supply_ok t'" using user_call_total [OF run_use.hyps(2) t(2)] by (simp add: supply_ok_def)
  then show ?case using user_call_total [OF run_use.hyps(2) t(2)]
    by (intro l2_inv_token [OF run_use.IH t(1) _ t(3,4)]) auto
qed

lemma balance_le_total: "unat (tk_balances t a) \<le> total t"
  unfolding total_def by (rule member_le_sum) simp_all

lemma example_l2_run:
  "l2_run (\<lambda>_. True) \<lparr>l2_this = 1, l2_allToken = [], l2_tokens = (\<lambda>_. 0), l2_contracts = Map.empty, l2_events = []\<rparr> ([] @ [Added 5]) example_l2"
proof (rule run_escrow [OF run_start])
  show "l2_escrow (\<lambda>_. True) 9 2 5 18 ''T'' ''T'' \<lparr>l2_this = 1, l2_allToken = [], l2_tokens = (\<lambda>_. 0), l2_contracts = Map.empty, l2_events = []\<rparr> =
      Inr example_l2"
    by (simp add: l2_escrow_def require_def emit_def example_l2_def fun_upd_def)
qed simp_all

section \<open>Properties\<close>

text \<open>Claim C7.  Every coin of a substitute token was minted through the bridge and not yet withdrawn: after any history of the
  second chain, the balances of a registered token sum up to its total supply, and the supply and the
  withdrawn amounts together are the minted amounts.\<close>

theorem supply_matches_history:
  assumes "l2_run onlyOwner s0 h s" and "l2_tokens s token \<noteq> 0"
  shows "\<exists>t. l2_contracts s (l2_tokens s token) = Some t \<and> (\<Sum>a \<in> UNIV. unat (tk_balances t a)) = unat (tk_totalSupply t) \<and>
    unat (tk_totalSupply t) + sum_list (map (withdrawn token) h) = sum_list (map (minted token) h)"
  using l2_invD(1,2) [OF l2_run_inv [OF assms(1)]] assms(2) unfolding supply_ok_def total_def by blast

theorem supply_matches_history_witness:
  "\<exists>t. l2_contracts example_l2 9 = Some t \<and> (\<Sum>a \<in> UNIV. unat (tk_balances t a)) = unat (tk_totalSupply t) \<and> tk_totalSupply t = 0"
  using supply_matches_history [OF example_l2_run, of 5] by (simp add: example_l2_def unat_eq_zero)

text \<open>Claim C33.  Anybody can take tokens that were never deposited: \<open>mint\<close> of the bridge has no access control, so any account may
  mint itself an amount of a registered token and withdraw it at once, which sends the first chain
  the message that pays that amount out to the account.\<close>

theorem unbacked_withdrawal:
  assumes "l2_run onlyOwner s0 h s" and "l2_tokens s token \<noteq> 0"
    and "\<And>t. l2_contracts s (l2_tokens s token) = Some t \<Longrightarrow> unat (tk_totalSupply t) + unat amount < 2 ^ 256"
  shows "\<exists>s1 s2. l2_mint thief token thief amount s = Inr s1 \<and> l2_withdraw thief token amount s1 = Inr s2 \<and>
    l2_events s2 = l2_events s @ [Mint token thief amount,
      Dispatch (encodeWithSelector (selector ''withdraw(address,address,uint256)'') [token, thief, amount])]"
proof -
  obtain t where t: "l2_contracts s (l2_tokens s token) = Some t" "supply_ok t"
    using l2_invD(1,2) [OF l2_run_inv [OF assms(1)]] assms(2) by blast
  let ?t = "t\<lparr>tk_balances := (tk_balances t)(thief := tk_balances t thief + amount), tk_totalSupply := tk_totalSupply t + amount\<rparr>"
  have b: "unat (tk_balances t thief) + unat amount < 2 ^ 256" "unat (tk_totalSupply t) + unat amount < 2 ^ 256"
    using assms(3) [OF t(1)] balance_le_total [of t thief] t(2) by (simp_all add: supply_ok_def)
  have m: "tk_mint (\<lambda>a. a = l2_this s) (l2_this s) thief amount t = Inr ?t"
    using b by (simp add: tk_mint_def balance_add_def checked_defs)
  have le: "amount \<le> tk_balances t thief + amount" "amount \<le> tk_totalSupply t + amount"
    using b by (simp_all add: word_le_nat_alt unat_word_ariths)
  have w: "\<exists>u. tk_burn (\<lambda>a. a = l2_this s) (l2_this s) thief amount ?t = Inr u"
    using le by (simp add: tk_burn_def balance_sub_def checked_defs)
  show ?thesis using m w t(1) assms(2)
    by (auto simp: l2_mint_def l2_withdraw_def onlyRegister_def on_token_def require_def emit_def)
qed

theorem unbacked_withdrawal_witness:
  "\<exists>s1 s2. l2_mint 66 5 66 1000 example_l2 = Inr s1 \<and> l2_withdraw 66 5 1000 s1 = Inr s2 \<and>
    l2_events s2 = [Escrow 5 9, Mint 5 66 1000, Dispatch (encodeWithSelector (selector ''withdraw(address,address,uint256)'') [5, 66, 1000])]"
  using unbacked_withdrawal [OF example_l2_run, of 5 1000 66] by (simp add: example_l2_def new_Token_def)

text \<open>Claim C29.  A transfer of a substitute token succeeds exactly when the sender has the amount; it never overflows, because no balance
  exceeds the total supply.\<close>

theorem transfer_succeeds_iff:
  assumes "l2_run onlyOwner s0 h s" and "l2_contracts s a = Some t"
  shows "(\<exists>t'. tk_transfer sender to v t = Inr t') \<longleftrightarrow> v \<le> tk_balances t sender"
proof -
  have ok: "supply_ok t" using l2_invD(1) [OF l2_run_inv [OF assms(1)] assms(2)] .
  have "\<exists>t'. tk_transfer sender to v t = Inr t'" if v: "v \<le> tk_balances t sender"
  proof -
    obtain u where u: "balance_sub sender v t = Inr u" using v by (simp add: balance_sub_def checked_defs)
    then have "unat (tk_balances u to) + unat v \<le> unat (tk_totalSupply t)"
      using balance_sub_total [OF u] balance_le_total [of u to] ok by (simp add: supply_ok_def)
    then have "unat (tk_balances u to) + unat v < 2 ^ 256" using unsigned_less [of "tk_totalSupply t", where ?'a = nat] by simp
    then show ?thesis using u v by (simp add: tk_transfer_def require_def balance_add_def checked_add_def)
  qed
  then show ?thesis by (auto simp: tk_transfer_def require_def split: if_splits)
qed

theorem transfer_succeeds_iff_witness:
  "(\<exists>t'. tk_transfer 1 2 0 (new_Token 18 ''T'' ''T'') = Inr t') \<and> \<not> (\<exists>t'. tk_transfer 1 2 3 (new_Token 18 ''T'' ''T'') = Inr t')"
  using transfer_succeeds_iff [OF example_l2_run, of 9 "new_Token 18 ''T'' ''T''" 1 2 0]
    transfer_succeeds_iff [OF example_l2_run, of 9 "new_Token 18 ''T'' ''T''" 1 2 3]
  by (simp add: example_l2_def new_Token_def)

text \<open>The registration of a node of the first chain does not set its mark, so the administrator of any other application can
  replace the node.\<close>

lemma node_can_be_replaced:
  assumes "onlyAppAdmin a s = Inr ()" and "onlyAppAdmin b s = Inr ()" and "\<not> node_isResgister (l1_nodes s n)"
  shows "\<exists>s1 s2. l1_registerNode a n ip m ver pk rep s = Inr s1 \<and> l1_registerNode b n ip' m' ver' pk' rep' s1 = Inr s2 \<and>
    node_publicKey (l1_nodes s2 n) = pk' \<and> node_appId (l1_nodes s2 n) = l1_admin2AppId s b"
  using assms by (simp add: l1_registerNode_def onlyAppAdmin_def require_def split: if_splits)

end
