(* ===== verification/Services.thy ===== *)
theory Services
  imports Bridge
begin

text \<open>
  The contracts that manage the nodes of the service and the contracts in its care:
  \<open>service/contracts/Network.sol\<close> and \<open>service/contracts/Service.sol\<close>.

  A call returns with a new state or reverts and changes nothing.  The argument
  \<open>onlyOwner\<close> says whom the modifier of the library lets pass.  The calls of other contracts are
  the argument \<open>ext\<close>; they may change everything, also by calling back.
\<close>

section \<open>The network of nodes\<close>

record NetNode =
  nn_active :: bool
  nn_authorize :: bool
  nn_registerTime :: u64

definition no_node :: NetNode where
  "no_node = \<lparr>nn_active = False, nn_authorize = False, nn_registerTime = 0\<rparr>"

record Network =
  net_isRegistered :: "u256 \<Rightarrow> bool"
  net_nodes :: "u256 \<Rightarrow> NetNode"

definition not_owner :: string where
  "not_owner = ''Ownable: caller is not the owner''"

definition whenRegister :: "u256 \<Rightarrow> 'm Network_scheme \<Rightarrow> exn + unit" where
  "whenRegister node s = require (net_isRegistered s node) ''Network: node no registered''"

definition net_authorize :: "(u256 \<Rightarrow> bool) \<Rightarrow> u256 \<Rightarrow> u256 \<Rightarrow> 'm Network_scheme \<Rightarrow> exn + 'm Network_scheme" where
  "net_authorize onlyOwner sender node s =
    tries (require (onlyOwner sender) not_owner) (\<lambda>_.
    tries (require (\<not> nn_authorize (net_nodes s node)) ''Network: node has already authorized'') (\<lambda>_.
    tries (whenRegister node s) (\<lambda>_.
    Inr (s\<lparr>net_nodes := (net_nodes s)(node := (net_nodes s node)\<lparr>nn_authorize := True, nn_active := True\<rparr>)\<rparr>))))"

definition net_registerNode :: "u64 \<Rightarrow> u256 \<Rightarrow> 'm Network_scheme \<Rightarrow> exn + 'm Network_scheme" where
  "net_registerNode timestamp sender s =
    tries (require (\<not> net_isRegistered s sender) ''Network: node has already registered'') (\<lambda>_.
    Inr (s\<lparr>net_isRegistered := (net_isRegistered s)(sender := True),
      net_nodes := (net_nodes s)(sender := \<lparr>nn_active = False, nn_authorize = False, nn_registerTime = timestamp\<rparr>)\<rparr>))"

definition net_removeNode :: "(u256 \<Rightarrow> bool) \<Rightarrow> u256 \<Rightarrow> u256 \<Rightarrow> 'm Network_scheme \<Rightarrow> exn + 'm Network_scheme" where
  "net_removeNode onlyOwner sender node s =
    tries (require (onlyOwner sender) not_owner) (\<lambda>_.
    tries (whenRegister node s) (\<lambda>_.
    Inr (s\<lparr>net_nodes := (net_nodes s)(node := no_node), net_isRegistered := (net_isRegistered s)(node := False)\<rparr>)))"

definition net_updateNode :: "(u256 \<Rightarrow> bool) \<Rightarrow> u256 \<Rightarrow> u256 \<Rightarrow> bool \<Rightarrow> 'm Network_scheme \<Rightarrow> exn + 'm Network_scheme" where
  "net_updateNode onlyOwner sender node active s =
    tries (require (onlyOwner sender) not_owner) (\<lambda>_.
    tries (whenRegister node s) (\<lambda>_.
    tries (require (nn_active (net_nodes s node) \<noteq> active) ''Network: cannot update node'') (\<lambda>_.
    Inr (s\<lparr>net_nodes := (net_nodes s)(node := (net_nodes s node)\<lparr>nn_active := active\<rparr>)\<rparr>))))"

section \<open>Contracts in escrow\<close>

record EscrowEntry =
  esc_master :: u256
  esc_enhanced :: bool

definition no_escrow :: EscrowEntry where
  "no_escrow = \<lparr>esc_master = 0, esc_enhanced = False\<rparr>"

text \<open>\<open>svc_world\<close> is the rest of the chain, \<open>svc_stateFactory\<close> the address of the state factory.\<close>

record 'w Service = Network +
  svc_stateFactory :: u256
  svc_escrows :: "u256 \<Rightarrow> EscrowEntry"
  svc_world :: 'w

datatype service_call =
    UpgradeAndChangeAdmin u256 u256
  | Initialize u256 u256
  | Upgrade u256 u256
  | Cancel u256 u256
  | FunctionCall u256 bytes

type_synonym 'w ext_call = "service_call \<Rightarrow> 'w Service \<Rightarrow> exn + 'w Service"

definition onlyEscrow :: "u256 \<Rightarrow> u256 \<Rightarrow> 'w Service \<Rightarrow> exn + unit" where
  "onlyEscrow sender proxy s = require (esc_master (svc_escrows s proxy) = sender) ''Service: caller is not the escrow master''"

definition onlyNotEscrow :: "u256 \<Rightarrow> u256 \<Rightarrow> 'w Service \<Rightarrow> exn + unit" where
  "onlyNotEscrow sender proxy s = require (esc_master (svc_escrows s proxy) \<noteq> sender) ''Service: contract has alread escrowed''"

definition onlyNotEnhanced :: "u256 \<Rightarrow> 'w Service \<Rightarrow> exn + unit" where
  "onlyNotEnhanced proxy s = require (\<not> esc_enhanced (svc_escrows s proxy)) ''Service: escrow enchaned become effective''"

definition svc_escrow :: "'w ext_call \<Rightarrow> u256 \<Rightarrow> u256 \<Rightarrow> u256 \<Rightarrow> 'w Service \<Rightarrow> exn + 'w Service" where
  "svc_escrow ext sender proxy implementation s =
    tries (onlyNotEscrow sender proxy s) (\<lambda>_.
    tries (require (proxy \<noteq> implementation) ''Service: implementation cannot be proxy'') (\<lambda>_.
    tries (ext (UpgradeAndChangeAdmin proxy (svc_stateFactory s)) s) (\<lambda>s.
    tries (ext (Initialize proxy implementation) s) (\<lambda>s.
    Inr (s\<lparr>svc_escrows := (svc_escrows s)(proxy := \<lparr>esc_master = sender, esc_enhanced = False\<rparr>)\<rparr>)))))"

definition privacyEnhancement :: "u256 \<Rightarrow> u256 \<Rightarrow> 'w Service \<Rightarrow> exn + 'w Service" where
  "privacyEnhancement sender proxy s =
    tries (onlyEscrow sender proxy s) (\<lambda>_.
    tries (onlyNotEnhanced proxy s) (\<lambda>_.
    Inr (s\<lparr>svc_escrows := (svc_escrows s)(proxy := (svc_escrows s proxy)\<lparr>esc_enhanced := True\<rparr>)\<rparr>)))"

definition svc_upgrade :: "'w ext_call \<Rightarrow> u256 \<Rightarrow> u256 \<Rightarrow> u256 \<Rightarrow> 'w Service \<Rightarrow> exn + 'w Service" where
  "svc_upgrade ext sender proxy logic s = tries (onlyEscrow sender proxy s) (\<lambda>_. ext (Upgrade proxy logic) s)"

definition svc_delete :: "u256 \<Rightarrow> 'w Service \<Rightarrow> 'w Service" where
  "svc_delete proxy s = s\<lparr>svc_escrows := (svc_escrows s)(proxy := no_escrow)\<rparr>"

definition svc_cancel :: "'w ext_call \<Rightarrow> u256 \<Rightarrow> u256 \<Rightarrow> 'w Service \<Rightarrow> exn + 'w Service" where
  "svc_cancel ext sender proxy s =
    tries (onlyEscrow sender proxy s) (\<lambda>_.
    tries (onlyNotEnhanced proxy s) (\<lambda>_.
    tries (ext (Cancel proxy sender) s) (\<lambda>s. Inr (svc_delete proxy s))))"

definition updateState :: "'w ext_call \<Rightarrow> u256 \<Rightarrow> u256 \<Rightarrow> bytes \<Rightarrow> 'w Service \<Rightarrow> exn + 'w Service" where
  "updateState ext sender proxy data s =
    tries (require (esc_master (svc_escrows s proxy) \<noteq> 0) ''Service: contract is not escrows'') (\<lambda>_.
    ext (FunctionCall proxy data) s)"

text \<open>
  A loop over the elements of two arrays of equal length.  The counter has eight bits and its increment is
  checked: after the element 255 it reverts.
\<close>

fun counted :: "(u256 \<Rightarrow> bytes \<Rightarrow> 'w Service \<Rightarrow> exn + 'w Service) \<Rightarrow> nat \<Rightarrow> (u256 \<times> bytes) list \<Rightarrow> 'w Service \<Rightarrow> exn + 'w Service" where
  "counted f i [] s = Inr s"
| "counted f i ((addr, data) # xs) s =
    tries (f addr data s) (\<lambda>s.
    tries (require (i < 255) ''Panic(0x11)'') (\<lambda>_.
    counted f (i + 1) xs s))"

definition updateStateAndCancel :: "'w ext_call \<Rightarrow> u256 \<Rightarrow> u256 list \<Rightarrow> bytes list \<Rightarrow> 'w Service \<Rightarrow> exn + 'w Service" where
  "updateStateAndCancel ext sender proxy data s =
    tries (require (length proxy = length data) ''Service: both length not equal'') (\<lambda>_.
    counted (\<lambda>addr d s. tries (updateState ext sender addr d s) (\<lambda>s.
      tries (ext (Cancel addr (esc_master (svc_escrows s addr))) s) (\<lambda>s. Inr (svc_delete addr s)))) 0 (zip proxy data) s)"

definition updateStates :: "'w ext_call \<Rightarrow> u256 \<Rightarrow> u256 list \<Rightarrow> bytes list \<Rightarrow> 'w Service \<Rightarrow> exn + 'w Service" where
  "updateStates ext sender proxy data s =
    tries (require (length proxy = length data) ''Service: both length not equal'') (\<lambda>_.
    counted (updateState ext sender) 0 (zip proxy data) s)"

section \<open>Histories of the network\<close>

text \<open>
  A call of the network by \<open>sender\<close>, and what any sequence of calls does: a call that reverts
  changes nothing.  The owner is the same throughout.
\<close>

datatype net_op = RegisterNode u64 | AuthorizeNode u256 | RemoveNode u256 | UpdateNode u256 bool

fun net_call :: "(u256 \<Rightarrow> bool) \<Rightarrow> u256 \<times> net_op \<Rightarrow> Network \<Rightarrow> exn + Network" where
  "net_call onlyOwner (sender, RegisterNode timestamp) s = net_registerNode timestamp sender s"
| "net_call onlyOwner (sender, AuthorizeNode node) s = net_authorize onlyOwner sender node s"
| "net_call onlyOwner (sender, RemoveNode node) s = net_removeNode onlyOwner sender node s"
| "net_call onlyOwner (sender, UpdateNode node active) s = net_updateNode onlyOwner sender node active s"

definition net_calls :: "(u256 \<Rightarrow> bool) \<Rightarrow> (u256 \<times> net_op) list \<Rightarrow> Network" where
  "net_calls onlyOwner h = fold (\<lambda>c s. case net_call onlyOwner c s of Inl e \<Rightarrow> s | Inr s' \<Rightarrow> s') h
    \<lparr>net_isRegistered = (\<lambda>_. False), net_nodes = (\<lambda>_. no_node)\<rparr>"

text \<open>
  What a history says of a node \<open>n\<close>.  It has joined when it registered and the owner did not remove
  it afterwards, and it is a member when moreover the owner authorised it after that registration.
\<close>

definition owner_calls :: "(u256 \<Rightarrow> bool) \<Rightarrow> net_op \<Rightarrow> u256 \<times> net_op \<Rightarrow> bool" where
  "owner_calls onlyOwner oper c \<longleftrightarrow> onlyOwner (fst c) \<and> snd c = oper"

definition joined :: "(u256 \<Rightarrow> bool) \<Rightarrow> u256 \<Rightarrow> (u256 \<times> net_op) list \<Rightarrow> bool" where
  "joined onlyOwner n h \<longleftrightarrow> (\<exists>before timestamp after. h = before @ (n, RegisterNode timestamp) # after \<and>
    (\<forall>c \<in> set after. \<not> owner_calls onlyOwner (RemoveNode n) c))"

definition member :: "(u256 \<Rightarrow> bool) \<Rightarrow> u256 \<Rightarrow> (u256 \<times> net_op) list \<Rightarrow> bool" where
  "member onlyOwner n h \<longleftrightarrow> (\<exists>before timestamp after. h = before @ (n, RegisterNode timestamp) # after \<and>
    (\<exists>c \<in> set after. owner_calls onlyOwner (AuthorizeNode n) c) \<and>
    (\<forall>c \<in> set after. \<not> owner_calls onlyOwner (RemoveNode n) c))"

section \<open>Lemmas\<close>

lemma joined_snoc:
  "joined onlyOwner n (h @ [c]) \<longleftrightarrow>
    (\<exists>t. c = (n, RegisterNode t)) \<or> joined onlyOwner n h \<and> \<not> owner_calls onlyOwner (RemoveNode n) c"
proof
  assume "joined onlyOwner n (h @ [c])"
  then obtain b t a where e: "h @ [c] = b @ (n, RegisterNode t) # a" "\<forall>c \<in> set a. \<not> owner_calls onlyOwner (RemoveNode n) c"
    by (auto simp: joined_def)
  then show "(\<exists>t. c = (n, RegisterNode t)) \<or> joined onlyOwner n h \<and> \<not> owner_calls onlyOwner (RemoveNode n) c"
  proof (cases a rule: rev_cases)
    case (snoc a' d)
    then have "d = c" "h = b @ (n, RegisterNode t) # a'" using e(1) by auto
    then have "joined onlyOwner n h" unfolding joined_def using e(2) snoc by (intro exI [of _ b] exI [of _ t] exI [of _ a']) simp
    then show ?thesis using e(2) snoc \<open>d = c\<close> by simp
  qed (use e in simp)
next
  assume "(\<exists>t. c = (n, RegisterNode t)) \<or> joined onlyOwner n h \<and> \<not> owner_calls onlyOwner (RemoveNode n) c"
  then show "joined onlyOwner n (h @ [c])"
  proof
    assume "joined onlyOwner n h \<and> \<not> owner_calls onlyOwner (RemoveNode n) c"
    then obtain b t a where "h = b @ (n, RegisterNode t) # a"
      "\<forall>c \<in> set (a @ [c]). \<not> owner_calls onlyOwner (RemoveNode n) c" by (auto simp: joined_def)
    then show ?thesis unfolding joined_def by (intro exI [of _ b] exI [of _ t] exI [of _ "a @ [c]"]) simp
  next
    assume "\<exists>t. c = (n, RegisterNode t)"
    then obtain t where "c = (n, RegisterNode t)" by blast
    then show ?thesis unfolding joined_def by (intro exI [of _ h] exI [of _ t] exI [of _ "[]"]) simp
  qed
qed

lemma member_snoc:
  "member onlyOwner n (h @ [c]) \<longleftrightarrow>
    (member onlyOwner n h \<or> joined onlyOwner n h \<and> owner_calls onlyOwner (AuthorizeNode n) c) \<and>
    \<not> owner_calls onlyOwner (RemoveNode n) c"
proof
  assume "member onlyOwner n (h @ [c])"
  then obtain b t a where e: "h @ [c] = b @ (n, RegisterNode t) # a" "\<exists>c \<in> set a. owner_calls onlyOwner (AuthorizeNode n) c"
    "\<forall>c \<in> set a. \<not> owner_calls onlyOwner (RemoveNode n) c" by (auto simp: member_def)
  then obtain a' where a: "a = a' @ [c]" "h = b @ (n, RegisterNode t) # a'" by (cases a rule: rev_cases) auto
  have "joined onlyOwner n h" unfolding joined_def using e(3) a by auto
  moreover have "member onlyOwner n h" if "\<not> owner_calls onlyOwner (AuthorizeNode n) c"
    unfolding member_def using e(2,3) a that by auto
  ultimately show "(member onlyOwner n h \<or> joined onlyOwner n h \<and> owner_calls onlyOwner (AuthorizeNode n) c) \<and>
    \<not> owner_calls onlyOwner (RemoveNode n) c" using e(3) a(1) by auto
next
  assume r: "(member onlyOwner n h \<or> joined onlyOwner n h \<and> owner_calls onlyOwner (AuthorizeNode n) c) \<and>
    \<not> owner_calls onlyOwner (RemoveNode n) c"
  then obtain b t a where "h = b @ (n, RegisterNode t) # a" "\<exists>c' \<in> set (a @ [c]). owner_calls onlyOwner (AuthorizeNode n) c'"
    "\<forall>c' \<in> set (a @ [c]). \<not> owner_calls onlyOwner (RemoveNode n) c'" by (auto simp: member_def joined_def)
  then show "member onlyOwner n (h @ [c])"
    unfolding member_def by (intro exI [of _ b] exI [of _ t] exI [of _ "a @ [c]"]) simp
qed

lemma member_joined: "member onlyOwner n h \<Longrightarrow> joined onlyOwner n h"
  unfolding member_def joined_def by blast

lemma net_calls_snoc:
  "net_calls onlyOwner (h @ [c]) =
    (case net_call onlyOwner c (net_calls onlyOwner h) of Inl e \<Rightarrow> net_calls onlyOwner h | Inr s \<Rightarrow> s)"
  unfolding net_calls_def by simp

lemmas net_defs = net_registerNode_def net_authorize_def net_removeNode_def net_updateNode_def whenRegister_def require_def no_node_def

lemma net_call_standing:
  assumes "net_isRegistered s n \<longleftrightarrow> joined onlyOwner n h" and "nn_authorize (net_nodes s n) \<longleftrightarrow> member onlyOwner n h"
    and "\<not> joined onlyOwner n h \<longrightarrow> net_nodes s n = no_node"
    and "s' = (case net_call onlyOwner c s of Inl e \<Rightarrow> s | Inr s' \<Rightarrow> s')"
  shows "(net_isRegistered s' n \<longleftrightarrow> joined onlyOwner n (h @ [c])) \<and> (nn_authorize (net_nodes s' n) \<longleftrightarrow> member onlyOwner n (h @ [c])) \<and>
    (\<not> joined onlyOwner n (h @ [c]) \<longrightarrow> net_nodes s' n = no_node)"
proof -
  obtain sender oper where c: "c = (sender, oper)" by (cases c)
  show ?thesis
    using assms member_joined [of onlyOwner n h] unfolding c joined_snoc member_snoc owner_calls_def
    by (cases oper) (auto simp: net_defs split: if_splits)
qed

lemma counted_bound: "counted f i xs s = Inr s' \<Longrightarrow> i \<le> 255 \<Longrightarrow> length xs + i \<le> 255"
proof (induction f i xs s rule: counted.induct)
  case (2 f i addr data xs s)
  then show ?case by (auto simp: tries_Inr)
qed simp

section \<open>Properties\<close>

text \<open>Claim C28.  The registry follows the history of all calls, by whomever they are made: a node is registered exactly when it registered
  and the owner has not removed it since; it is authorised exactly when, moreover, the owner authorised it after
  that registration; and a node that is not registered has no data.  So calls of others than the
  owner authorise and remove nobody.\<close>

theorem node_registry_follows_history:
  "(net_isRegistered (net_calls onlyOwner h) n \<longleftrightarrow> joined onlyOwner n h) \<and>
   (nn_authorize (net_nodes (net_calls onlyOwner h) n) \<longleftrightarrow> member onlyOwner n h) \<and>
   (\<not> net_isRegistered (net_calls onlyOwner h) n \<longrightarrow> net_nodes (net_calls onlyOwner h) n = no_node)"
proof (induction h rule: rev_induct)
  case Nil
  show ?case by (simp add: net_calls_def joined_def member_def no_node_def)
next
  case (snoc c h)
  then show ?case using net_call_standing [of "net_calls onlyOwner h" n onlyOwner h _ c] by (simp add: net_calls_snoc)
qed

theorem node_registry_follows_history_witness:
  "net_nodes (net_calls (\<lambda>a. a = 1) [(7, RegisterNode 5), (1, AuthorizeNode 7), (1, RemoveNode 7), (2, AuthorizeNode 7)]) 7 = no_node \<and>
   nn_authorize (net_nodes (net_calls (\<lambda>a. a = 1) [(7, RegisterNode 5), (1, AuthorizeNode 7), (2, RemoveNode 7)]) 7)"
proof
  let ?h = "[(7, RegisterNode 5), (1, AuthorizeNode 7), (1, RemoveNode 7), (2, AuthorizeNode 7)]"
  have "\<not> net_isRegistered (net_calls (\<lambda>a. a = 1) ?h) 7" by (simp add: net_calls_def net_defs)
  then show "net_nodes (net_calls (\<lambda>a. a = 1) ?h) 7 = no_node"
    using node_registry_follows_history [of "\<lambda>a. a = 1" ?h 7] by simp
  let ?k = "[(7, RegisterNode 5), (1, AuthorizeNode 7), (2, RemoveNode 7)]"
  have "member (\<lambda>a. a = 1) 7 ?k"
    unfolding member_def by (intro exI [of _ "[]"] exI [of _ 5] exI [of _ "[(1, AuthorizeNode 7), (2, RemoveNode 7)]"])
      (simp add: owner_calls_def)
  then show "nn_authorize (net_nodes (net_calls (\<lambda>a. a = 1) ?k) 7)"
    using node_registry_follows_history [of "\<lambda>a. a = 1" ?k 7] by simp
qed

text \<open>Claim C34.  One transaction updates fewer than 256 contracts: the counter of both loops has eight bits, so a call with 256
  contracts or more reverts, whatever the contracts do.\<close>

theorem update_fewer_than_256:
  assumes "256 \<le> length proxy"
  shows "\<not> (\<exists>s'. updateStates ext sender proxy data s = Inr s') \<and> \<not> (\<exists>s'. updateStateAndCancel ext sender proxy data s = Inr s')"
proof -
  have "counted f 0 (zip proxy data) s \<noteq> Inr s'" if "length proxy = length data" for f :: "u256 \<Rightarrow> bytes \<Rightarrow> 'a Service \<Rightarrow> exn + 'a Service" and s'
    using counted_bound [of f 0 "zip proxy data" s s'] assms that by auto
  then show ?thesis by (auto simp: updateStates_def updateStateAndCancel_def tries_Inr)
qed

theorem update_fewer_than_256_witness:
  "\<forall>s :: unit Service. \<not> (\<exists>s'. updateStates (\<lambda>c s. Inr s) 1 (replicate 256 5) (replicate 256 []) s = Inr s')"
  using update_fewer_than_256 [of "replicate 256 5" "\<lambda>c s. Inr s" 1 "replicate 256 []"] by auto

text \<open>An account can take over a contract that another account has put in escrow: the check compares the
  master with the caller only.\<close>

lemma escrow_taken_over:
  assumes "esc_master (svc_escrows s proxy) = a" and "a \<noteq> b" and "proxy \<noteq> impl"
    and "ext (UpgradeAndChangeAdmin proxy (svc_stateFactory s)) s = Inr s1" and "ext (Initialize proxy impl) s1 = Inr s2"
  shows "\<exists>s'. svc_escrow ext b proxy impl s = Inr s' \<and> esc_master (svc_escrows s' proxy) = b"
  using assms by (simp add: svc_escrow_def onlyNotEscrow_def require_def)

end
