(* ===== verification/Spec2Isabelle.thy ===== *)
theory Spec2Isabelle
  imports Prelude Keccak Util Stack World SimpleState Rlp Opcodes Contexts Ops Processor Machine Runs Straight Disassembler
    Json AbiTypes AbiCoder AbiRoundTrip EthTx EthState Endpoints Policies Bridge Services
begin

text \<open>
  A verification development for a bridge between blockchains and the trusted execution
  environment behind it: the Ethereum virtual machine eEVM and the enclave application around it
  (\<open>src/tee\<close>), and the contracts on the public chains (\<open>src/service/contracts\<close>).

  Parts of the program.  The virtual machine executes the bytecode of one transaction: the class
  \<open>_Processor\<close> of \<open>eEVM/src/processor.cpp\<close> runs a stack of contexts, one for each nested
  call, each with an operand stack, a byte memory and a program counter.  It reads and changes
  accounts and storage through the interfaces \<open>GlobalState\<close>, \<open>Account\<close> and
  \<open>Storage\<close>.  Two classes implement them: \<open>SimpleGlobalState\<close> in memory, and
  \<open>EthereumState\<close> of the enclave in a key-value store, where states of private contracts are
  encrypted.  The enclave receives signed transactions over JSON-RPC, recovers their senders, runs
  them and synchronises states with the public chain.  Privacy policies say which states and inputs
  of a multi-party transaction belong to whom; their states travel ABI-encoded and encrypted.  On the
  public chains, contracts lock, mint, burn and release tokens and keep the registry of nodes.
  Hashing, the hexadecimal and big-endian conversions, the recursive length prefix encoding
  (RLP) and the ABI encoding serve all of them.

  Conventions.  A stateful operation has the type \<open>act\<close> of \<open>Prelude\<close>: from a state to a result
  or an exception and a new state, because C++ keeps the assignments made before an exception.
  Where there is no state, the type is a sum with the exception on the left.  Steps that C++ gives
  no meaning to are the exception \<open>UndefinedBehaviour\<close>.  Machine integers are words of their width.
  What is not in the sources is an argument: the clock, the bytes of uninitialised memory and dangling
  references (record \<open>env\<close>), key recovery and signing, AES-GCM and the host (\<open>eth_ext\<close>), the
  helpers of \<open>app/utils.h\<close> (\<open>policy_ext\<close>), ownership and foreign contracts.

  Theories, in the order of their imports.

  \<^item> \<open>Prelude\<close>: machine types, exceptions, actions with a weakest-precondition calculus, vectors,
    big-endian byte strings.
  \<^item> \<open>Keccak\<close>: \<open>3rdparty/internal/keccak/hash.c\<close>, \<open>keccak256.cpp\<close>; the code computes the
    Keccak-256 sponge, also when the input comes in chunks.
  \<^item> \<open>Util\<close>: \<open>util.h\<close>, \<open>util.cpp\<close> and the number parsing of \<open>intx\<close>; conversions to
    hexadecimal and back.
  \<^item> \<open>Stack\<close>: \<open>stack.cpp\<close>.
  \<^item> \<open>World\<close>: the interfaces of the world as the record \<open>gs_ops\<close>, payments, and the contracts
    \<open>ledger\<close> and \<open>world\<close> (locales) that the machine relies on.
  \<^item> \<open>SimpleState\<close>: \<open>simple/*.cpp\<close>, an interpretation of \<open>world\<close>; payments conserve coins.
  \<^item> \<open>Rlp\<close>: \<open>rlp.h\<close>; round trips, and the decoder ends on every input.
  \<^item> \<open>Opcodes\<close>, \<open>Contexts\<close>, \<open>Ops\<close>, \<open>Processor\<close>: \<open>opcode.h\<close>, the contexts, and every
    opcode of \<open>processor.cpp\<close>, up to the interpreter loop \<open>run\<close>.  Jumps reach jump destinations
    only, memory operations and signed arithmetic agree with their references.
  \<^item> \<open>Machine\<close>: the invariant of the interpreter, for every world that satisfies the locale \<open>world\<close>
    (locale \<open>machine\<close>).
  \<^item> \<open>Runs\<close>: the interpretation of \<open>machine\<close> and the properties of whole runs: which undefined
    behaviour there is, the loop invariant, how returns, exceptions and static mode act.  The
    interpretation is on the in-memory world, so the properties that rest on it are about runs there.
  \<^item> \<open>Straight\<close>: programs without jumps, calls and creations terminate, in every world.
  \<^item> \<open>Disassembler\<close>: \<open>disassembler.cpp\<close>; it finds the instructions that the processor executes.
  \<^item> \<open>Json\<close>, \<open>AbiTypes\<close>, \<open>AbiCoder\<close>, \<open>AbiRoundTrip\<close>: \<open>src/abi\<close>; encoding and decoding
    of values, which round trips hold and which fail.
  \<^item> \<open>EthTx\<close>: \<open>ethereum_transaction.h\<close> and \<open>src/transaction/signature*.h\<close>; transactions survive
    their encoding, recovery identifiers, whose signature is checked.
  \<^item> \<open>EthState\<close>: \<open>src/ethereum\<close>: \<open>state.h\<close>, \<open>account_proxy.h\<close>, \<open>encryptor.h\<close>,
    \<open>execute_transaction.h\<close>, \<open>transaction_sync.h\<close>; on basic accounts, operations in the tables
    refine those in memory, encrypted storage reads back, deployment and synchronisation.  The state is an
    interpretation of \<open>ledger\<close> but not of \<open>world\<close>.
  \<^item> \<open>Endpoints\<close>: the requests of \<open>endpoint_registry.h\<close> and the account of the enclave
    (\<open>tee_manager.h\<close>).
  \<^item> \<open>Policies\<close>: \<open>src/queue\<close>; multi-party transactions get complete, the walk through a vector of
    states visits its blocks, states of the enclave survive encryption and decryption.
  \<^item> \<open>Bridge\<close>, \<open>Services\<close>: the contracts \<open>tenet_l1.sol\<close>, \<open>tenet_l2.sol\<close>, \<open>Network.sol\<close>
    and \<open>Service.sol\<close>; histories as inductive relations, the supply of a token, the registry of
    nodes.

  Bounds.  The interpreter loop and \<open>visit_states\<close> may run for ever, so they take the number of
  rounds as an argument and return \<open>None\<close> when it is used up.  \<open>Straight\<close> shows that the length of
  the code plus two rounds are enough for a program without jumps, calls and creations, \<open>Policies\<close> that one round for each block, and a last one
  to stop, are enough, and that there are vectors for which no number is.  The loop of the RLP decoder is bounded by
  the length of its input, and \<open>Rlp\<close> shows that the bound is never reached for types without
  arrays of length zero.

  Not modelled.  The transaction generator of \<open>src/transaction/generator.h\<close>: most of what it calls
  (\<open>app/rpc/context.h\<close>, \<open>app/utils.h\<close>, \<open>execute_mpt\<close>, \<open>get_service_addr\<close>) is not in the sources.
  The conversion of policies from JSON, for the same reason.  The proxy and state contracts, which
  work on storage slots through delegated code.  Block headers and the second copy of the state
  encryption, which no modelled file includes.  The web3 client, the host and enclave programs, the configuration of
  the service, the JavaScript client and the scripts: input and output.  CCF and the
  third-party libraries, apart from Keccak, the number parsing and the JSON values that the
  modelled code calls.  Output to streams and log messages.
\<close>

end
